(* ===== verification/Gear_Prelude.thy ===== *)
theory Gear_Prelude
  imports Main "HOL-Library.Word" "HOL-Library.Multiset"
begin

text \<open>
  Shared vocabulary of the development: machine types, the result type of a C function that
  may hit undefined behaviour or a failed assertion, its sequencing, and the generic lemmas on
  lists and maps that the components use.
\<close>

section \<open>Machine types\<close>

type_synonym byte = "8 word"
type_synonym u32 = "32 word"
type_synonym u64 = "64 word"

section \<open>Results of C functions\<close>

text \<open>
  A C function either returns or stops the process: a failed \<open>assert\<close>, a read or write of
  freed memory, of a null pointer or beyond an object, a value pushed beyond the Lua stack, a double
  out of the range of the integer it is converted to. All but the first are undefined behaviour
  in C, the model stops there.
\<close>

datatype fault =
    AssertionFailure
  | UseAfterFree
  | NullDeref
  | OutOfBounds
  | DoubleFree
  | CorruptHeap
  | StackOverflow
  | BadConversion
  | Diverges

datatype 'a res = Fault fault | Ret 'a

fun then_do :: "'a res \<Rightarrow> ('a \<Rightarrow> 'b res) \<Rightarrow> 'b res" where
  "then_do (Fault e) f = Fault e"
| "then_do (Ret x) f = f x"

text \<open>The C macro \<open>assert\<close>.\<close>

definition assert_that :: "bool \<Rightarrow> 'a res \<Rightarrow> 'a res" where
  "assert_that b r = (if b then r else Fault AssertionFailure)"

text \<open>Reading through a pointer whose target may have been freed.\<close>

definition deref :: "'a option \<Rightarrow> ('a \<Rightarrow> 'b res) \<Rightarrow> 'b res" where
  "deref p f = (case p of None \<Rightarrow> Fault UseAfterFree | Some x \<Rightarrow> f x)"

named_theorems res_elims \<open>inversion of successful runs\<close>

lemma then_do_RetE [res_elims]:
  assumes "then_do r f = Ret y"
  obtains x where "r = Ret x" and "f x = Ret y"
  using assms by (cases r) auto

lemma then_do_eq_Ret_iff: "then_do r f = Ret y \<longleftrightarrow> (\<exists>x. r = Ret x \<and> f x = Ret y)"
  by (cases r) auto

lemma then_do_assoc: "then_do (then_do r f) g = then_do r (\<lambda>x. then_do (f x) g)"
  by (cases r) auto

lemma then_do_Ret_right [simp]: "then_do r Ret = r"
  by (cases r) auto

lemma assert_that_simps [simp]:
  "assert_that True r = r"
  "assert_that False r = Fault AssertionFailure"
  by (simp_all add: assert_that_def)

lemma assert_that_RetE [res_elims]:
  assumes "assert_that b r = Ret y"
  obtains "b" and "r = Ret y"
  using assms by (cases b) auto

lemma deref_simps [simp]:
  "deref None f = Fault UseAfterFree"
  "deref (Some x) f = f x"
  by (simp_all add: deref_def)

lemma deref_RetE [res_elims]:
  assumes "deref p f = Ret y"
  obtains x where "p = Some x" and "f x = Ret y"
  using assms by (cases p) auto

text \<open>Congruence rules, for functions that recurse below a sequencing.\<close>

lemma then_do_cong [fundef_cong]:
  "r = r' \<Longrightarrow> (\<And>x. r' = Ret x \<Longrightarrow> f x = g x) \<Longrightarrow> then_do r f = then_do r' g"
  by (cases r') auto

lemma deref_cong [fundef_cong]:
  "p = p' \<Longrightarrow> (\<And>x. p' = Some x \<Longrightarrow> f x = g x) \<Longrightarrow> deref p f = deref p' g"
  by (cases p') auto

lemma assert_that_cong [fundef_cong]:
  "b = b' \<Longrightarrow> (b' \<Longrightarrow> r = r') \<Longrightarrow> assert_that b r = assert_that b' r'"
  by (cases b') auto

section \<open>Operations that settle\<close>

text \<open>
  A step that keeps an invariant and lowers a rank until the rank is zero: enough steps reach rank
  zero. The contract of every loop of the program that another thread or the caller waits for.
\<close>

locale countdown =
  fixes step :: "'s \<Rightarrow> 's" and inv :: "'s \<Rightarrow> bool" and rank :: "'s \<Rightarrow> nat"
  assumes step_inv: "inv s \<Longrightarrow> inv (step s)"
    and step_rank: "inv s \<Longrightarrow> 0 < rank s \<Longrightarrow> rank (step s) < rank s"
    and step_idle: "inv s \<Longrightarrow> rank s = 0 \<Longrightarrow> rank (step s) = 0"
begin

lemma iterate_inv: "inv s \<Longrightarrow> inv ((step ^^ n) s)"
  by (induction n) (simp_all add: step_inv)

lemma settles: "inv s \<Longrightarrow> rank s \<le> n \<Longrightarrow> rank ((step ^^ n) s) = 0"
proof (induction n arbitrary: s)
  case (Suc n)
  have "rank (step s) \<le> n"
  proof (cases "rank s = 0")
    case True
    then show ?thesis using step_idle [OF Suc.prems(1)] by simp
  next
    case False
    then show ?thesis using step_rank [OF Suc.prems(1)] Suc.prems(2) by simp
  qed
  then have "rank ((step ^^ n) (step s)) = 0" by (rule Suc.IH [OF step_inv [OF Suc.prems(1)]])
  then show ?case by (simp add: funpow_swap1)
qed simp

end

section \<open>Cursors\<close>

text \<open>
  Something that is moved from element to element until it says there are no more. A loop over it, with fuel
  for each step, is understood from its two branches alone.
\<close>

locale cursor =
  fixes advance :: "'s \<Rightarrow> (bool \<times> 's) res" and ahead :: "'s \<Rightarrow> 'e list \<Rightarrow> bool" and at_elem :: "'s \<Rightarrow> 'e \<Rightarrow> bool"
  assumes advance_end: "ahead s [] \<Longrightarrow> \<exists>s'. advance s = Ret (False, s')"
    and advance_elem: "ahead s (e # es) \<Longrightarrow> \<exists>s'. advance s = Ret (True, s') \<and> at_elem s' e \<and> ahead s' es"
begin

lemma loop_induct:
  assumes "ahead s es" and "length es < n"
    and "\<And>n s s' a. advance s = Ret (False, s') \<Longrightarrow> P [] a (f (Suc n) s a)"
    and "\<And>n s s' e es a. advance s = Ret (True, s') \<Longrightarrow> at_elem s' e \<Longrightarrow> (\<And>b. P es b (f n s' b)) \<Longrightarrow>
      P (e # es) a (f (Suc n) s a)"
  shows "P es a (f n s a)"
  using assms(1,2)
proof (induction es arbitrary: s n a)
  case Nil
  then obtain m where "n = Suc m" by (cases n) auto
  then show ?case using advance_end [OF Nil(1)] assms(3) by blast
next
  case (Cons e es)
  obtain m where m: "n = Suc m" "length es < m" using Cons.prems(2) by (cases n) auto
  obtain s' where s': "advance s = Ret (True, s')" "at_elem s' e" "ahead s' es"
    using advance_elem [OF Cons.prems(1)] by blast
  have "P es b (f m s' b)" for b by (rule Cons.IH [OF s'(3) m(2)])
  then show ?case using assms(4) [OF s'(1,2)] m(1) by blast
qed

end

end
