(* ===== verification/Uv_Heap.thy ===== *)
theory Uv_Heap
  imports Gear_Prelude
begin

text \<open>
  The binary min heap of \<open>ge/libuv/src/heap-inl.h\<close> on which libuv keeps its timers.
  The C code links complete binary trees by pointers; the model numbers the nodes of the
  tree in level order, so a node is a position of a list, its parent is \<open>(i - 1) div 2\<close> and
  its children are \<open>2 * i + 1\<close> and \<open>2 * i + 2\<close>. \<open>heap_path\<close> and \<open>heap_walk\<close> are the C code's
  path computation, and \<open>heap_walk_path\<close> shows that they lead to the position the list gives.
\<close>

section \<open>Positions\<close>

definition parent_pos :: "nat \<Rightarrow> nat" where
  "parent_pos i = (i - 1) div 2"

definition left_pos :: "nat \<Rightarrow> nat" where
  "left_pos i = 2 * i + 1"

definition right_pos :: "nat \<Rightarrow> nat" where
  "right_pos i = 2 * i + 2"

lemma parent_pos_less: "0 < i \<Longrightarrow> parent_pos i < i"
  by (simp add: parent_pos_def)

lemma parent_pos_children [simp]:
  "parent_pos (left_pos i) = i" "parent_pos (right_pos i) = i"
  by (simp_all add: parent_pos_def left_pos_def right_pos_def)

lemma child_cases:
  assumes "0 < j" and "parent_pos j = i"
  shows "j = left_pos i \<or> j = right_pos i"
  using assms unfolding parent_pos_def left_pos_def right_pos_def by arith

lemma less_children [simp]: "i < left_pos i" "i < right_pos i" "0 < left_pos i" "0 < right_pos i"
    "left_pos i \<noteq> i" "right_pos i \<noteq> i" "left_pos i \<noteq> right_pos i" "right_pos i \<noteq> left_pos i"
  by (simp_all add: left_pos_def right_pos_def)

section \<open>The path to the insertion point\<close>

text \<open>
  \<open>for (k = 0, n = 1 + nelts; n >= 2; k += 1, n /= 2) path = (path << 1) | (n & 1);\<close>
\<close>

fun heap_path :: "nat \<Rightarrow> nat \<Rightarrow> nat \<Rightarrow> nat \<times> nat" where
  "heap_path n k path =
     (if 2 \<le> n then heap_path (n div 2) (k + 1) (path * 2 + n mod 2) else (k, path))"

declare heap_path.simps [simp del]

text \<open>
  \<open>while (k > 0) { if (path & 1) go right else go left; path >>= 1; k -= 1; }\<close>, from the root.
\<close>

fun heap_walk :: "nat \<Rightarrow> nat \<Rightarrow> nat \<Rightarrow> nat" where
  "heap_walk 0 path i = i"
| "heap_walk (Suc k) path i =
     heap_walk k (path div 2) (if odd path then right_pos i else left_pos i)"

section \<open>The operations\<close>

text \<open>\<open>heap_node_swap\<close>: the child moves up, the parent down.\<close>

definition heap_node_swap :: "'n list \<Rightarrow> nat \<Rightarrow> nat \<Rightarrow> 'n list" where
  "heap_node_swap h p c = h[p := h ! c, c := h ! p]"

text \<open>The walk up at the end of \<open>heap_insert\<close> and of \<open>heap_remove\<close>.\<close>

function walk_up :: "('n \<Rightarrow> 'n \<Rightarrow> bool) \<Rightarrow> 'n list \<Rightarrow> nat \<Rightarrow> 'n list" where
  "walk_up lt h i =
     (if 0 < i \<and> lt (h ! i) (h ! parent_pos i)
      then walk_up lt (heap_node_swap h (parent_pos i) i) (parent_pos i)
      else h)"
  by pat_completeness auto
termination
  by (relation "measure (\<lambda>(lt, h, i). i)") (auto simp: parent_pos_less)

declare walk_up.simps [simp del]

text \<open>The choice of \<open>smallest\<close> in the walk down of \<open>heap_remove\<close>.\<close>

definition smallest_of :: "('n \<Rightarrow> 'n \<Rightarrow> bool) \<Rightarrow> 'n list \<Rightarrow> nat \<Rightarrow> nat" where
  "smallest_of lt h i =
     (let s = (if left_pos i < length h \<and> lt (h ! left_pos i) (h ! i) then left_pos i else i)
      in if right_pos i < length h \<and> lt (h ! right_pos i) (h ! s) then right_pos i else s)"

lemma smallest_of_cases:
  "smallest_of lt h i = i \<or>
   (smallest_of lt h i = left_pos i \<and> left_pos i < length h) \<or>
   (smallest_of lt h i = right_pos i \<and> right_pos i < length h)"
  by (simp add: smallest_of_def Let_def)

lemma smallest_of_bounds:
  "smallest_of lt h i \<noteq> i \<Longrightarrow> i < smallest_of lt h i \<and> smallest_of lt h i < length h"
  using smallest_of_cases [of lt h i] by auto

function walk_down :: "('n \<Rightarrow> 'n \<Rightarrow> bool) \<Rightarrow> 'n list \<Rightarrow> nat \<Rightarrow> 'n list \<times> nat" where
  "walk_down lt h i =
     (if smallest_of lt h i = i then (h, i)
      else walk_down lt (heap_node_swap h i (smallest_of lt h i)) (smallest_of lt h i))"
  by pat_completeness auto
termination
  by (relation "measure (\<lambda>(lt, h, i). length h - i)")
    (auto simp: heap_node_swap_def dest: smallest_of_bounds intro!: diff_less_mono2)

declare walk_down.simps [simp del]

definition heap_min :: "'n list \<Rightarrow> 'n option" where
  "heap_min h = (case h of [] \<Rightarrow> None | x # _ \<Rightarrow> Some x)"

definition heap_insert :: "('n \<Rightarrow> 'n \<Rightarrow> bool) \<Rightarrow> 'n list \<Rightarrow> 'n \<Rightarrow> 'n list" where
  "heap_insert lt h newnode = walk_up lt (h @ [newnode]) (length h)"

text \<open>The position of a node, which the C code has as the node's own links.\<close>

fun node_pos :: "'n list \<Rightarrow> 'n \<Rightarrow> nat option" where
  "node_pos [] x = None"
| "node_pos (y # ys) x = (if y = x then Some 0 else map_option Suc (node_pos ys x))"

definition heap_remove :: "('n \<Rightarrow> 'n \<Rightarrow> bool) \<Rightarrow> 'n list \<Rightarrow> 'n \<Rightarrow> 'n list res" where
  "heap_remove lt h node =
     (if h = [] then Ret h
      else let child = last h; rest = butlast h in
        if child = node then Ret rest
        else (case node_pos rest node of
                None \<Rightarrow> Fault CorruptHeap
              | Some i \<Rightarrow>
                  (let (h', j) = walk_down lt (rest[i := child]) i in Ret (walk_up lt h' j))))"

text \<open>\<open>heap_dequeue\<close> removes the root.\<close>

definition heap_dequeue :: "('n \<Rightarrow> 'n \<Rightarrow> bool) \<Rightarrow> 'n list \<Rightarrow> 'n list res" where
  "heap_dequeue lt h = (case h of [] \<Rightarrow> Ret [] | x # _ \<Rightarrow> heap_remove lt h x)"

lemma node_pos_less: "node_pos h x = Some i \<Longrightarrow> i < length h"
  by (induction h arbitrary: i) (auto split: if_splits)

lemma node_pos_nth: "node_pos h x = Some i \<Longrightarrow> h ! i = x"
  by (induction h arbitrary: i) (auto split: if_splits)

lemma node_pos_mem: "x \<in> set h \<Longrightarrow> node_pos h x \<noteq> None"
  by (induction h) auto

section \<open>The path leads to the left-most free position\<close>

lemma heap_walk_path_gen:
  assumes "1 \<le> n"
  shows "heap_walk (fst (heap_path n k p)) (snd (heap_path n k p)) 0 = heap_walk k p (n - 1)"
  using assms
proof (induction n k p rule: heap_path.induct)
  case (1 n k p)
  show ?case
  proof (cases "2 \<le> n")
    case True
    have "odd n \<Longrightarrow> right_pos (n div 2 - 1) = n - 1" and "even n \<Longrightarrow> left_pos (n div 2 - 1) = n - 1"
      using True unfolding left_pos_def right_pos_def by presburger+
    moreover have "odd (p * 2 + n mod 2) = odd n" and "(p * 2 + n mod 2) div 2 = p"
      by presburger+
    ultimately show ?thesis
      using True "1.IH" by (subst (1 2) heap_path.simps) (auto simp: mult.commute)
  next
    case False
    then show ?thesis using "1.prems" by (subst (1 2) heap_path.simps) simp
  qed
qed

text \<open>
  With \<open>nelts\<close> nodes in the heap, the path computed from \<open>1 + nelts\<close> ends at position
  \<open>nelts\<close>, where the list model appends; the one from \<open>nelts\<close> ends at the last node.
\<close>

lemma heap_walk_path:
  "1 \<le> n \<Longrightarrow> heap_walk (fst (heap_path n 0 0)) (snd (heap_path n 0 0)) 0 = n - 1"
  by (simp add: heap_walk_path_gen)

section \<open>The heap property\<close>

definition heap_ok :: "('n \<Rightarrow> 'n \<Rightarrow> bool) \<Rightarrow> 'n list \<Rightarrow> bool" where
  "heap_ok lt h \<longleftrightarrow> (\<forall>i. 0 < i \<and> i < length h \<longrightarrow> \<not> lt (h ! i) (h ! parent_pos i))"

text \<open>The property holds but between position \<open>i\<close> and its parent.\<close>

definition ok_but_up :: "('n \<Rightarrow> 'n \<Rightarrow> bool) \<Rightarrow> 'n list \<Rightarrow> nat \<Rightarrow> bool" where
  "ok_but_up lt h i \<longleftrightarrow>
     (\<forall>j. 0 < j \<and> j < length h \<and> j \<noteq> i \<longrightarrow> \<not> lt (h ! j) (h ! parent_pos j)) \<and>
     (\<forall>j. 0 < j \<and> j < length h \<and> parent_pos j = i \<and> 0 < i \<longrightarrow> \<not> lt (h ! j) (h ! parent_pos i))"

text \<open>The property holds but around position \<open>i\<close>, above and below.\<close>

definition ok_but_at :: "('n \<Rightarrow> 'n \<Rightarrow> bool) \<Rightarrow> 'n list \<Rightarrow> nat \<Rightarrow> bool" where
  "ok_but_at lt h i \<longleftrightarrow>
     (\<forall>j. 0 < j \<and> j < length h \<and> j \<noteq> i \<and> parent_pos j \<noteq> i \<longrightarrow> \<not> lt (h ! j) (h ! parent_pos j)) \<and>
     (\<forall>j. 0 < j \<and> j < length h \<and> parent_pos j = i \<and> 0 < i \<longrightarrow> \<not> lt (h ! j) (h ! parent_pos i))"

lemma length_swap [simp]: "length (heap_node_swap h p c) = length h"
  by (simp add: heap_node_swap_def)

lemma mset_swap:
  "p < length h \<Longrightarrow> c < length h \<Longrightarrow> mset (heap_node_swap h p c) = mset h"
  by (simp add: heap_node_swap_def mset_swap)

lemma nth_swap:
  assumes "p < length h" and "c < length h" and "j < length h"
  shows "heap_node_swap h p c ! j = (if j = c then h ! p else if j = p then h ! c else h ! j)"
  using assms by (auto simp: heap_node_swap_def nth_list_update)

lemma mset_walk_up: "i < length h \<Longrightarrow> mset (walk_up lt h i) = mset h"
proof (induction lt h i rule: walk_up.induct)
  case (1 lt h i)
  then show ?case
    by (subst walk_up.simps) (auto simp: mset_swap parent_pos_less dual_order.strict_trans)
qed

lemma length_walk_up [simp]: "length (walk_up lt h i) = length h"
proof (induction lt h i rule: walk_up.induct)
  case (1 lt h i)
  then show ?case by (subst walk_up.simps) simp
qed

lemma walk_down_perm:
  "i < length h \<Longrightarrow> walk_down lt h i = (h', j) \<Longrightarrow>
     mset h' = mset h \<and> length h' = length h \<and> j < length h"
proof (induction lt h i arbitrary: h' j rule: walk_down.induct)
  case (1 lt h i)
  show ?case
  proof (cases "smallest_of lt h i = i")
    case True
    then show ?thesis using "1.prems" by (subst (asm) walk_down.simps) simp
  next
    case False
    then have s: "smallest_of lt h i < length h"
      using smallest_of_bounds by blast
    have "walk_down lt (heap_node_swap h i (smallest_of lt h i)) (smallest_of lt h i) = (h', j)"
      using "1.prems" False by (subst (asm) walk_down.simps) simp
    then show ?thesis
      using "1.IH" [OF False, of h' j] s "1.prems"(1) by (simp add: mset_swap)
  qed
qed

text \<open>
  The comparison the C code is given: irreflexive, and its negation transitive (a strict weak
  order), which \<open>timer_less_than\<close> is.
\<close>

locale heap_order =
  fixes lt :: "'n \<Rightarrow> 'n \<Rightarrow> bool"
  assumes lt_asym: "lt a b \<Longrightarrow> \<not> lt b a"
    and not_lt_trans: "\<not> lt a b \<Longrightarrow> \<not> lt b c \<Longrightarrow> \<not> lt a c"
begin

lemma walk_up_ok:
  "i < length h \<Longrightarrow> ok_but_up lt h i \<Longrightarrow> heap_ok lt (walk_up lt h i)"
proof (induction i arbitrary: h rule: less_induct)
  case (less i)
  let ?p = "parent_pos i"
  show ?case
  proof (cases "0 < i \<and> lt (h ! i) (h ! ?p)")
    case False
    then have "heap_ok lt h"
      using less.prems by (auto simp: heap_ok_def ok_but_up_def)
    then show ?thesis using False by (subst walk_up.simps) auto
  next
    case True
    then have p: "?p < i" "?p < length h"
      using parent_pos_less [of i] less.prems by auto
    have "ok_but_up lt (heap_node_swap h ?p i) ?p"
      unfolding ok_but_up_def length_swap
    proof (intro conjI allI impI)
      fix j assume j: "0 < j \<and> j < length h \<and> j \<noteq> ?p"
      then have pj: "parent_pos j < length h" using parent_pos_less [of j] by linarith
      show "\<not> lt (heap_node_swap h ?p i ! j) (heap_node_swap h ?p i ! parent_pos j)"
      proof (cases "j = i")
        case True
        then show ?thesis
          using \<open>0 < i \<and> lt (h ! i) (h ! ?p)\<close> p less.prems lt_asym by (simp add: nth_swap)
      next
        case False
        then have old: "\<not> lt (h ! j) (h ! parent_pos j)"
          using less.prems j by (simp add: ok_but_up_def)
        consider "parent_pos j = i" | "parent_pos j = ?p" | "parent_pos j \<noteq> i" "parent_pos j \<noteq> ?p"
          by blast
        then show ?thesis
        proof cases
          case 1
          then show ?thesis
            using less.prems True False j p by (simp add: nth_swap ok_but_up_def)
        next
          case 2
          have "\<not> lt (h ! j) (h ! i)"
            using old 2 True not_lt_trans lt_asym by metis
          then show ?thesis using 2 j p False less.prems by (simp add: nth_swap)
        next
          case 3
          then show ?thesis using old j pj p False less.prems by (simp add: nth_swap)
        qed
      qed
    next
      fix j assume j: "0 < j \<and> j < length h \<and> parent_pos j = ?p \<and> 0 < ?p"
      have pp: "parent_pos ?p < ?p" using parent_pos_less j by blast
      have up: "\<not> lt (h ! ?p) (h ! parent_pos ?p)"
        using less.prems j p by (simp add: ok_but_up_def)
      have oj: "\<not> lt (h ! j) (h ! ?p)" if "j \<noteq> i"
        using less.prems j that unfolding ok_but_up_def by metis
      show "\<not> lt (heap_node_swap h ?p i ! j) (heap_node_swap h ?p i ! parent_pos ?p)"
      proof (cases "j = i")
        case True
        then show ?thesis using up pp p less.prems by (simp add: nth_swap)
      next
        case False
        moreover have "j \<noteq> ?p" using j parent_pos_less [of j] by auto
        ultimately show ?thesis
          using oj up pp p j less.prems not_lt_trans by (auto simp: nth_swap)
      qed
    qed
    then have "heap_ok lt (walk_up lt (heap_node_swap h ?p i) ?p)"
      using less.IH [OF p(1)] p by simp
    then show ?thesis using True by (subst walk_up.simps) simp
  qed
qed

lemma lt_irrefl: "\<not> lt a a"
  using lt_asym by blast

lemma smallest_of_least:
  shows left_not_less_smallest:
      "left_pos i < length h \<Longrightarrow> \<not> lt (h ! left_pos i) (h ! smallest_of lt h i)"
    and right_not_less_smallest:
      "right_pos i < length h \<Longrightarrow> \<not> lt (h ! right_pos i) (h ! smallest_of lt h i)"
    and self_not_less_smallest: "\<not> lt (h ! i) (h ! smallest_of lt h i)"
proof -
  define s where "s = (if left_pos i < length h \<and> lt (h ! left_pos i) (h ! i) then left_pos i else i)"
  have sm: "smallest_of lt h i =
      (if right_pos i < length h \<and> lt (h ! right_pos i) (h ! s) then right_pos i else s)"
    unfolding smallest_of_def s_def Let_def by (rule refl)
  have left: "\<not> lt (h ! left_pos i) (h ! s)" if "left_pos i < length h"
    using that lt_irrefl by (simp add: s_def)
  have self: "\<not> lt (h ! i) (h ! s)"
    using lt_irrefl lt_asym by (simp add: s_def)
  have final: "\<not> lt a (h ! smallest_of lt h i)" if "\<not> lt a (h ! s)" for a
  proof (cases "right_pos i < length h \<and> lt (h ! right_pos i) (h ! s)")
    case True
    then show ?thesis using that sm lt_asym not_lt_trans by metis
  next
    case False
    then show ?thesis using that sm by presburger
  qed
  show "left_pos i < length h \<Longrightarrow> \<not> lt (h ! left_pos i) (h ! smallest_of lt h i)"
    and "\<not> lt (h ! i) (h ! smallest_of lt h i)"
    using final left self by blast+
  show "right_pos i < length h \<Longrightarrow> \<not> lt (h ! right_pos i) (h ! smallest_of lt h i)"
    using sm lt_irrefl by (metis (full_types))
qed

lemma swap_smallest_ok:
  assumes i: "i < length h" and inv: "ok_but_at lt h i" and s: "smallest_of lt h i \<noteq> i"
  shows "ok_but_at lt (heap_node_swap h i (smallest_of lt h i)) (smallest_of lt h i)"
proof -
  let ?s = "smallest_of lt h i"
  have b: "i < ?s" "?s < length h" using smallest_of_bounds [OF s] by auto
  have ps: "parent_pos ?s = i" using smallest_of_cases [of lt h i] s by auto
  have least: "\<not> lt (h ! j) (h ! ?s)" if "0 < j" "j < length h" "parent_pos j = i" for j
    using child_cases [OF that(1,3)] that(2) left_not_less_smallest right_not_less_smallest by auto
  have rest: "\<not> lt (h ! j) (h ! parent_pos j)"
    if "0 < j" "j < length h" "j \<noteq> i" "parent_pos j \<noteq> i" for j
    using inv that by (simp add: ok_but_at_def)
  have up: "\<not> lt (h ! j) (h ! parent_pos i)"
    if "0 < j" "j < length h" "parent_pos j = i" "0 < i" for j
    using inv that by (simp add: ok_but_at_def)
  show ?thesis
    unfolding ok_but_at_def length_swap
  proof (intro conjI allI impI)
    fix j assume j: "0 < j \<and> j < length h \<and> j \<noteq> ?s \<and> parent_pos j \<noteq> ?s"
    then have pj: "parent_pos j < length h" using parent_pos_less [of j] by linarith
    have "parent_pos j \<noteq> j" using j parent_pos_less [of j] by auto
    then show "\<not> lt (heap_node_swap h i ?s ! j) (heap_node_swap h i ?s ! parent_pos j)"
      using j pj i b ps least [of j] rest [of j] up [of ?s] by (auto simp: nth_swap)
  next
    fix j assume j: "0 < j \<and> j < length h \<and> parent_pos j = ?s \<and> 0 < ?s"
    then have "\<not> lt (h ! j) (h ! ?s)" and "j \<noteq> i" and "j \<noteq> ?s"
      using rest [of j] b parent_pos_less [of j] by auto
    then show "\<not> lt (heap_node_swap h i ?s ! j) (heap_node_swap h i ?s ! parent_pos ?s)"
      using j i b ps by (simp add: nth_swap)
  qed
qed

lemma not_moved_ok:
  assumes inv: "ok_but_at lt h i" and s: "smallest_of lt h i = i"
  shows "ok_but_up lt h i"
  unfolding ok_but_up_def
proof (intro conjI allI impI)
  fix j assume j: "0 < j \<and> j < length h \<and> j \<noteq> i"
  show "\<not> lt (h ! j) (h ! parent_pos j)"
  proof (cases "parent_pos j = i")
    case True
    then show ?thesis
      using child_cases [of j i] j left_not_less_smallest [of i h] right_not_less_smallest [of i h] s
      by auto
  next
    case False
    then show ?thesis using inv j by (simp add: ok_but_at_def)
  qed
qed (use inv in \<open>simp add: ok_but_at_def\<close>)

lemma walk_down_ok:
  "i < length h \<Longrightarrow> ok_but_at lt h i \<Longrightarrow> walk_down lt h i = (h', j) \<Longrightarrow> ok_but_up lt h' j"
proof (induction "length h - i" arbitrary: h i rule: less_induct)
  case less
  show ?case
  proof (cases "smallest_of lt h i = i")
    case True
    then show ?thesis
      using less.prems not_moved_ok by (subst (asm) walk_down.simps) simp
  next
    case False
    let ?s = "smallest_of lt h i"
    have b: "i < ?s" "?s < length h" using smallest_of_bounds [OF False] by auto
    have "walk_down lt (heap_node_swap h i ?s) ?s = (h', j)"
      using less.prems(3) False by (subst (asm) walk_down.simps) simp
    then show ?thesis
      using less.hyps [of "heap_node_swap h i ?s" ?s] b less.prems(1)
        swap_smallest_ok [OF less.prems(1,2) False] by simp
  qed
qed

lemma heap_insert_ok:
  assumes "heap_ok lt h"
  shows "heap_ok lt (heap_insert lt h x)"
  unfolding heap_insert_def
proof (rule walk_up_ok)
  show "ok_but_up lt (h @ [x]) (length h)"
    unfolding ok_but_up_def
  proof (intro conjI allI impI)
    fix j assume j: "0 < j \<and> j < length (h @ [x]) \<and> j \<noteq> length h"
    then have "parent_pos j < length h" using parent_pos_less [of j] by simp
    then show "\<not> lt ((h @ [x]) ! j) ((h @ [x]) ! parent_pos j)"
      using assms j by (simp add: heap_ok_def nth_append)
  next
    fix j assume "0 < j \<and> j < length (h @ [x]) \<and> parent_pos j = length h \<and> 0 < length h"
    then have False using parent_pos_less [of j] by auto
    then show "\<not> lt ((h @ [x]) ! j) ((h @ [x]) ! parent_pos (length h))" ..
  qed
qed simp

lemma replace_ok_but_at:
  assumes ok: "heap_ok lt h" and i: "i < length h"
  shows "ok_but_at lt (h[i := x]) i"
  unfolding ok_but_at_def length_list_update
proof (intro conjI allI impI)
  fix j assume j: "0 < j \<and> j < length h \<and> j \<noteq> i \<and> parent_pos j \<noteq> i"
  then show "\<not> lt (h[i := x] ! j) (h[i := x] ! parent_pos j)"
    using ok by (simp add: heap_ok_def)
next
  fix j assume j: "0 < j \<and> j < length h \<and> parent_pos j = i \<and> 0 < i"
  then have "\<not> lt (h ! j) (h ! i)" "\<not> lt (h ! i) (h ! parent_pos i)"
    using ok i by (auto simp: heap_ok_def)
  moreover have "j \<noteq> i" and "parent_pos i \<noteq> i"
    using j parent_pos_less [of j] parent_pos_less [of i] by auto
  ultimately show "\<not> lt (h[i := x] ! j) (h[i := x] ! parent_pos i)"
    using not_lt_trans by simp
qed

lemma heap_ok_butlast: "heap_ok lt h \<Longrightarrow> heap_ok lt (butlast h)"
  unfolding heap_ok_def
proof (intro allI impI)
  fix i assume ok: "\<forall>i. 0 < i \<and> i < length h \<longrightarrow> \<not> lt (h ! i) (h ! parent_pos i)"
    and i: "0 < i \<and> i < length (butlast h)"
  then have "parent_pos i < length (butlast h)" "i < length h"
    using parent_pos_less [of i] by auto
  then show "\<not> lt (butlast h ! i) (butlast h ! parent_pos i)"
    using ok i by (simp add: nth_butlast)
qed

lemma heap_ok_root_least:
  assumes ok: "heap_ok lt h" and i: "i < length h"
  shows "\<not> lt (h ! i) (h ! 0)"
  using i
proof (induction i rule: less_induct)
  case (less i)
  show ?case
  proof (cases "i = 0")
    case True
    then show ?thesis using lt_asym by blast
  next
    case False
    then have "parent_pos i < i" by (simp add: parent_pos_less)
    then have "\<not> lt (h ! parent_pos i) (h ! 0)" using less by simp
    moreover have "\<not> lt (h ! i) (h ! parent_pos i)"
      using ok False less.prems by (simp add: heap_ok_def)
    ultimately show ?thesis using not_lt_trans by blast
  qed
qed

lemma heap_remove_ok:
  assumes "heap_ok lt h" and "heap_remove lt h x = Ret h'"
  shows "heap_ok lt h'"
proof (cases "h = [] \<or> last h = x")
  case True
  then show ?thesis
    using assms heap_ok_butlast by (auto simp: heap_remove_def split: if_splits)
next
  case False
  then obtain i h'' j where i: "node_pos (butlast h) x = Some i"
    and d: "walk_down lt ((butlast h)[i := last h]) i = (h'', j)" and h': "h' = walk_up lt h'' j"
    using assms(2) by (auto simp: heap_remove_def Let_def split: option.splits prod.splits)
  have "i < length (butlast h)" using node_pos_less [OF i] .
  then have "j < length h''" and "ok_but_up lt h'' j"
    using walk_down_perm [OF _ d] walk_down_ok [OF _ _ d] replace_ok_but_at heap_ok_butlast assms(1)
    by auto
  then show ?thesis unfolding h' by (rule walk_up_ok)
qed

end

section \<open>The interface of a timer queue\<close>

text \<open>
  What \<open>timer.c\<close> needs of its heap: insertion and removal of a node as operations on the
  multiset of queued nodes, and a minimum that no queued node precedes.
\<close>

locale min_queue =
  fixes less_than :: "'n \<Rightarrow> 'n \<Rightarrow> bool"
    and ins :: "'q \<Rightarrow> 'n \<Rightarrow> 'q"
    and rem :: "'q \<Rightarrow> 'n \<Rightarrow> 'q res"
    and min_of :: "'q \<Rightarrow> 'n option"
    and content :: "'q \<Rightarrow> 'n multiset"
    and inv :: "'q \<Rightarrow> bool"
  assumes inv_ins: "inv q \<Longrightarrow> inv (ins q x)"
    and content_ins: "content (ins q x) = add_mset x (content q)"
    and rem_Ret: "x \<in># content q \<Longrightarrow> \<exists>q'. rem q x = Ret q'"
    and inv_rem: "inv q \<Longrightarrow> rem q x = Ret q' \<Longrightarrow> inv q'"
    and content_rem: "x \<in># content q \<Longrightarrow> rem q x = Ret q' \<Longrightarrow> content q' = content q - {#x#}"
    and min_None: "min_of q = None \<longleftrightarrow> content q = {#}"
    and min_in: "min_of q = Some x \<Longrightarrow> x \<in># content q"
    and min_least: "inv q \<Longrightarrow> min_of q = Some x \<Longrightarrow> y \<in># content q \<Longrightarrow> \<not> less_than y x"
begin

text \<open>Taking the minimum out always succeeds and leaves nothing that precedes it.\<close>

lemma rem_min:
  assumes "inv q" and "min_of q = Some x"
  obtains q' where "rem q x = Ret q'" and "inv q'" and "content q' = content q - {#x#}"
    and "\<And>y. y \<in># content q' \<Longrightarrow> \<not> less_than y x"
proof -
  have x: "x \<in># content q" using assms(2) by (rule min_in)
  then obtain q' where q': "rem q x = Ret q'" using rem_Ret by blast
  then have c: "content q' = content q - {#x#}" using x content_rem by blast
  show thesis
    using that [OF q' inv_rem [OF assms(1) q'] c] min_least [OF assms] c in_diffD by metis
qed

lemma rem_ins:
  assumes "inv q"
  obtains q' where "rem (ins q x) x = Ret q'" and "inv q'" and "content q' = content q"
proof -
  have "x \<in># content (ins q x)" by (simp add: content_ins)
  then obtain q' where q': "rem (ins q x) x = Ret q'" using rem_Ret by blast
  show thesis
    using that [OF q' inv_rem [OF inv_ins [OF assms] q']] content_rem [OF _ q'] by (simp add: content_ins)
qed

end

lemma mset_heap_insert [simp]: "mset (heap_insert lt h x) = add_mset x (mset h)"
  by (simp add: heap_insert_def mset_walk_up)

lemma heap_remove_mem:
  assumes "x \<in> set h"
  obtains h' where "heap_remove lt h x = Ret h'" and "mset h' = mset h - {#x#}"
proof (cases "last h = x")
  case True
  have "h = butlast h @ [x]" using assms True by (cases h rule: rev_cases) auto
  then have "mset (butlast h) = mset h - {#x#}"
    by (metis add_mset_remove_trivial mset.simps(1) mset.simps(2) mset_append union_mset_add_mset_right
        add.right_neutral)
  then show ?thesis using that [of "butlast h"] True assms by (auto simp: heap_remove_def)
next
  case False
  define r where "r = butlast h"
  have h: "h = r @ [last h]" using assms by (cases h rule: rev_cases) (auto simp: r_def)
  then have "x \<in> set r" using assms False by (metis in_set_conv_decomp rotate1.simps(2)
        set_rotate1 set_ConsD)
  then obtain i where i: "node_pos r x = Some i" using node_pos_mem by fastforce
  obtain h'' j where d: "walk_down lt (r[i := last h]) i = (h'', j)" by fastforce
  have b: "i < length r" "r ! i = x" using node_pos_less [OF i] node_pos_nth [OF i] .
  have w: "mset h'' = mset (r[i := last h])" "j < length h''"
    using walk_down_perm [OF _ d] b by auto
  have "mset (walk_up lt h'' j) = add_mset (last h) (mset r - {#x#})"
    using w b by (simp add: mset_walk_up mset_update)
  also have "\<dots> = mset h - {#x#}"
    using \<open>x \<in> set r\<close> by (subst h) simp
  finally have content: "mset (walk_up lt h'' j) = mset h - {#x#}" .
  have "h \<noteq> []" using assms by auto
  then have "heap_remove lt h x = Ret (walk_up lt h'' j)"
    using False i d unfolding r_def by (simp add: heap_remove_def Let_def)
  then show ?thesis using content by (rule that)
qed

lemma heap_min_simps [simp]: "heap_min [] = None" "heap_min (x # h) = Some x"
  by (simp_all add: heap_min_def)

lemma heap_min_None_iff [simp]: "heap_min h = None \<longleftrightarrow> h = []"
  by (simp add: heap_min_def split: list.splits)

lemma heap_min_Some_iff: "heap_min h = Some x \<longleftrightarrow> h \<noteq> [] \<and> hd h = x"
  by (auto simp: heap_min_def split: list.splits)

text \<open>The libuv heap is such a queue, for every comparison that is a strict weak order.\<close>

sublocale heap_order \<subseteq> min_queue lt "heap_insert lt" "heap_remove lt" heap_min mset "heap_ok lt"
proof
  fix q x q' y
  show "heap_ok lt q \<Longrightarrow> heap_ok lt (heap_insert lt q x)" by (rule heap_insert_ok)
  show "mset (heap_insert lt q x) = add_mset x (mset q)" by simp
  show "x \<in># mset q \<Longrightarrow> \<exists>q'. heap_remove lt q x = Ret q'"
    by (metis heap_remove_mem set_mset_mset)
  show "heap_ok lt q \<Longrightarrow> heap_remove lt q x = Ret q' \<Longrightarrow> heap_ok lt q'"
    by (rule heap_remove_ok)
  show "x \<in># mset q \<Longrightarrow> heap_remove lt q x = Ret q' \<Longrightarrow> mset q' = mset q - {#x#}"
    by (metis heap_remove_mem res.inject(2) set_mset_mset)
  show "heap_min q = None \<longleftrightarrow> mset q = {#}" by simp
  show "heap_min q = Some x \<Longrightarrow> x \<in># mset q" by (auto simp: heap_min_Some_iff)
  show "heap_ok lt q \<Longrightarrow> heap_min q = Some x \<Longrightarrow> y \<in># mset q \<Longrightarrow> \<not> lt y x"
    using heap_ok_root_least by (auto simp: heap_min_Some_iff hd_conv_nth in_set_conv_nth)
qed

end
