(* ===== verification/Uv_Loop.thy ===== *)
theory Uv_Loop
  imports Uv_Heap
begin

text \<open>
  The part of libuv's event loop the program's callbacks act on: handles with their flags,
  timers (\<open>ge/libuv/src/timer.c\<close>), closing of handles and the delivery of close callbacks
  (\<open>ge/libuv/src/unix/core.c\<close>, the handle macros of \<open>ge/libuv/src/uv-common.h\<close>), and the stream
  operations as far as they change handle flags (\<open>ge/libuv/src/unix/stream.c\<close>).

  Handles live inside structures of the program. The loop state maps a handle's address to its
  contents; freeing the structure removes the entry, and a later access through the address is
  the fault \<open>UseAfterFree\<close>. Addresses \<open>'h\<close>, callbacks \<open>'cb\<close> and the user pointer \<open>'d\<close> are type
  parameters, which each program instantiates.
\<close>

section \<open>Handles\<close>

datatype uv_handle_type = UV_UNKNOWN_HANDLE | UV_TCP | UV_TIMER | UV_TTY

text \<open>
  One record for all handle types; the flag word is one boolean per flag. \<open>node_linked\<close> says
  that \<open>node.queue\<close> of a timer points to itself or into a queue; it is false in zeroed memory,
  where unlinking it would follow a null pointer. \<open>fd_open\<close> is \<open>io_watcher.fd != -1\<close>.
\<close>

record ('cb, 'd) uv_handle =
  htype :: uv_handle_type
  f_closing :: bool
  f_closed :: bool
  f_active :: bool
  f_ref :: bool
  f_reading :: bool
  f_readable :: bool
  f_writable :: bool
  fd_open :: bool
  hdata :: "'d option"
  close_cb :: "'cb option"
  timer_cb :: "'cb option"
  timeout :: u64
  repeat :: u64
  start_id :: u64
  node_linked :: bool

text \<open>The contents of a handle in memory cleared by \<open>memset\<close>.\<close>

definition zero_handle :: "('cb, 'd) uv_handle" where
  "zero_handle =
     \<lparr>htype = UV_UNKNOWN_HANDLE, f_closing = False, f_closed = False, f_active = False,
      f_ref = False, f_reading = False, f_readable = False, f_writable = False, fd_open = False,
      hdata = None, close_cb = None, timer_cb = None, timeout = 0, repeat = 0, start_id = 0,
      node_linked = False\<rparr>"

section \<open>The loop\<close>

text \<open>
  \<open>closing_handles\<close> is the chain through \<open>next_closing\<close>, \<open>detached\<close> the rest of the chain a running
  \<open>uv__run_closing_handles\<close> has taken over and not finished yet, \<open>ready_queue\<close> the local queue of
  \<open>uv__run_timers\<close> (timers link into it by their own node), \<open>write_queue\<close> the write requests
  not yet completed, with their stream. Counters of handles are unbounded here.
\<close>

record ('h, 'cb, 'd) uv_loop =
  handles :: "'h \<Rightarrow> ('cb, 'd) uv_handle option"
  loop_time :: u64
  timer_heap :: "'h list"
  timer_counter :: u64
  ready_queue :: "'h list"
  closing_handles :: "'h list"
  detached :: "'h list"
  handle_queue :: "'h list"
  active_handles :: int
  active_reqs :: int
  write_queue :: "('h \<times> byte list) list"
  stop_flag :: bool

definition set_handle ::
  "('h, 'cb, 'd) uv_loop \<Rightarrow> 'h \<Rightarrow> ('cb, 'd) uv_handle \<Rightarrow> ('h, 'cb, 'd) uv_loop" where
  "set_handle L h x = L\<lparr>handles := (handles L)(h \<mapsto> x)\<rparr>"

text \<open>The error codes the modelled functions return (their Linux values).\<close>

definition UV_EINVAL :: int where "UV_EINVAL = -22"
definition UV_EBADF :: int where "UV_EBADF = -9"
definition UV_EPIPE :: int where "UV_EPIPE = -32"
definition UV_EALREADY :: int where "UV_EALREADY = -114"
definition UV_ENOTCONN :: int where "UV_ENOTCONN = -107"
definition UV_ECANCELED :: int where "UV_ECANCELED = -125"
definition UV_EOF :: int where "UV_EOF = -4095"

subsection \<open>Handle macros\<close>

definition uv__is_closing :: "('cb, 'd) uv_handle \<Rightarrow> bool" where
  "uv__is_closing x = (f_closing x \<or> f_closed x)"

definition uv__handle_init ::
  "('h, 'cb, 'd) uv_loop \<Rightarrow> 'h \<Rightarrow> uv_handle_type \<Rightarrow> ('h, 'cb, 'd) uv_loop res" where
  "uv__handle_init L h t =
     deref (handles L h) (\<lambda>x.
       Ret ((set_handle L h (x\<lparr>htype := t, f_closing := False, f_closed := False,
               f_active := False, f_ref := True, f_reading := False, f_readable := False,
               f_writable := False\<rparr>))
            \<lparr>handle_queue := handle_queue L @ [h]\<rparr>))"

definition uv__handle_start ::
  "('h, 'cb, 'd) uv_loop \<Rightarrow> 'h \<Rightarrow> ('h, 'cb, 'd) uv_loop res" where
  "uv__handle_start L h =
     deref (handles L h) (\<lambda>x.
       if f_active x then Ret L
       else Ret ((set_handle L h (x\<lparr>f_active := True\<rparr>))
                 \<lparr>active_handles := active_handles L + (if f_ref x then 1 else 0)\<rparr>))"

definition uv__handle_stop ::
  "('h, 'cb, 'd) uv_loop \<Rightarrow> 'h \<Rightarrow> ('h, 'cb, 'd) uv_loop res" where
  "uv__handle_stop L h =
     deref (handles L h) (\<lambda>x.
       if \<not> f_active x then Ret L
       else Ret ((set_handle L h (x\<lparr>f_active := False\<rparr>))
                 \<lparr>active_handles := active_handles L - (if f_ref x then 1 else 0)\<rparr>))"

definition uv__handle_unref ::
  "('h, 'cb, 'd) uv_loop \<Rightarrow> 'h \<Rightarrow> ('h, 'cb, 'd) uv_loop res" where
  "uv__handle_unref L h =
     deref (handles L h) (\<lambda>x.
       if \<not> f_ref x then Ret L
       else let L' = set_handle L h (x\<lparr>f_ref := False\<rparr>) in
         if f_closing x then Ret L'
         else if f_active x then Ret (L'\<lparr>active_handles := active_handles L - 1\<rparr>)
         else Ret L')"

definition uv_is_closing :: "('h, 'cb, 'd) uv_loop \<Rightarrow> 'h \<Rightarrow> bool res" where
  "uv_is_closing L h = deref (handles L h) (\<lambda>x. Ret (uv__is_closing x))"

definition uv_now :: "('h, 'cb, 'd) uv_loop \<Rightarrow> u64" where
  "uv_now L = loop_time L"

section \<open>Timers\<close>

text \<open>
  Timers are ordered by their due time, then by the order in which they were started. A
  comparison reads both timers; the heap only holds live ones (\<open>timers_ok\<close> below).
\<close>

definition timer_key :: "('h \<Rightarrow> ('cb, 'd) uv_handle option) \<Rightarrow> 'h \<Rightarrow> u64 \<times> u64" where
  "timer_key hs h = (case hs h of None \<Rightarrow> (0, 0) | Some x \<Rightarrow> (timeout x, start_id x))"

definition timer_less_than :: "('h \<Rightarrow> ('cb, 'd) uv_handle option) \<Rightarrow> 'h \<Rightarrow> 'h \<Rightarrow> bool" where
  "timer_less_than hs ha hb =
     (let (a_timeout, a_id) = timer_key hs ha; (b_timeout, b_id) = timer_key hs hb in
        if a_timeout < b_timeout then True
        else if b_timeout < a_timeout then False
        else a_id < b_id)"

definition uv_timer_init ::
  "('h, 'cb, 'd) uv_loop \<Rightarrow> 'h \<Rightarrow> (int \<times> ('h, 'cb, 'd) uv_loop) res" where
  "uv_timer_init L h =
     then_do (uv__handle_init L h UV_TIMER) (\<lambda>L.
       deref (handles L h) (\<lambda>x.
         Ret (0, set_handle L h (x\<lparr>timer_cb := None, timeout := 0, repeat := 0,
                                   node_linked := True\<rparr>))))"

definition uv_timer_stop ::
  "('h, 'cb, 'd) uv_loop \<Rightarrow> 'h \<Rightarrow> ('h, 'cb, 'd) uv_loop res" where
  "uv_timer_stop L h =
     deref (handles L h) (\<lambda>x.
       then_do
         (if f_active x
          then then_do (heap_remove (timer_less_than (handles L)) (timer_heap L) h)
                 (\<lambda>q. uv__handle_stop (L\<lparr>timer_heap := q\<rparr>) h)
          else if node_linked x then Ret (L\<lparr>ready_queue := remove1 h (ready_queue L)\<rparr>)
          else Fault NullDeref)
         (\<lambda>L. deref (handles L h) (\<lambda>x. Ret (set_handle L h (x\<lparr>node_linked := True\<rparr>)))))"

text \<open>The due time saturates at the largest 64-bit value.\<close>

definition clamped_timeout :: "u64 \<Rightarrow> u64 \<Rightarrow> u64" where
  "clamped_timeout now t = (if now + t < t then - 1 else now + t)"

definition uv_timer_start ::
  "('h, 'cb, 'd) uv_loop \<Rightarrow> 'h \<Rightarrow> 'cb option \<Rightarrow> u64 \<Rightarrow> u64 \<Rightarrow> (int \<times> ('h, 'cb, 'd) uv_loop) res"
where
  "uv_timer_start L h cb t rep =
     deref (handles L h) (\<lambda>x.
       if uv__is_closing x \<or> cb = None then Ret (UV_EINVAL, L)
       else
         then_do (uv_timer_stop L h) (\<lambda>L.
         deref (handles L h) (\<lambda>x.
           let L1 = (set_handle L h (x\<lparr>timer_cb := cb,
                       timeout := clamped_timeout (loop_time L) t, repeat := rep,
                       start_id := timer_counter L\<rparr>))
                    \<lparr>timer_counter := timer_counter L + 1\<rparr>;
               L2 = L1\<lparr>timer_heap := heap_insert (timer_less_than (handles L1)) (timer_heap L1) h\<rparr>
           in then_do (uv__handle_start L2 h) (\<lambda>L3. Ret (0, L3)))))"

definition uv_timer_again ::
  "('h, 'cb, 'd) uv_loop \<Rightarrow> 'h \<Rightarrow> (int \<times> ('h, 'cb, 'd) uv_loop) res" where
  "uv_timer_again L h =
     deref (handles L h) (\<lambda>x.
       if timer_cb x = None then Ret (UV_EINVAL, L)
       else if repeat x \<noteq> 0
         then then_do (uv_timer_stop L h) (\<lambda>L.
              then_do (uv_timer_start L h (timer_cb x) (repeat x) (repeat x)) (\<lambda>(_, L).
              Ret (0, L)))
       else Ret (0, L))"

definition uv_timer_set_repeat ::
  "('h, 'cb, 'd) uv_loop \<Rightarrow> 'h \<Rightarrow> u64 \<Rightarrow> ('h, 'cb, 'd) uv_loop res" where
  "uv_timer_set_repeat L h r =
     deref (handles L h) (\<lambda>x. Ret (set_handle L h (x\<lparr>repeat := r\<rparr>)))"

definition uv_timer_get_due_in :: "('h, 'cb, 'd) uv_loop \<Rightarrow> 'h \<Rightarrow> u64 res" where
  "uv_timer_get_due_in L h =
     deref (handles L h) (\<lambda>x.
       if timeout x \<le> loop_time L then Ret 0 else Ret (timeout x - loop_time L))"

text \<open>\<open>uv__next_timeout\<close>: the poll timeout in milliseconds, -1 to block.\<close>

definition INT_MAX :: int where "INT_MAX = 2147483647"

definition uv__next_timeout :: "('h, 'cb, 'd) uv_loop \<Rightarrow> int res" where
  "uv__next_timeout L =
     (case heap_min (timer_heap L) of
        None \<Rightarrow> Ret (- 1)
      | Some h \<Rightarrow> deref (handles L h) (\<lambda>x.
          if timeout x \<le> loop_time L then Ret 0
          else let diff = timeout x - loop_time L in
            Ret (if INT_MAX < uint diff then INT_MAX else uint diff)))"

text \<open>
  The two loops of \<open>uv__run_timers\<close>. The first moves every due timer to the ready queue; each
  round takes one timer out of the heap, so one more round than there are timers is enough
  fuel (\<open>collect_due_total\<close>). The second restarts each repeating timer and calls its callback,
  which may stop timers that are still in the ready queue.
\<close>

fun collect_due :: "nat \<Rightarrow> ('h, 'cb, 'd) uv_loop \<Rightarrow> ('h, 'cb, 'd) uv_loop res" where
  "collect_due 0 L = Fault Diverges"
| "collect_due (Suc n) L =
     (case heap_min (timer_heap L) of
        None \<Rightarrow> Ret L
      | Some h \<Rightarrow> deref (handles L h) (\<lambda>x.
          if loop_time L < timeout x then Ret L
          else then_do (uv_timer_stop L h) (\<lambda>L.
                 collect_due n (L\<lparr>ready_queue := ready_queue L @ [h]\<rparr>))))"

fun run_ready ::
  "('w \<Rightarrow> ('h, 'cb, 'd) uv_loop) \<Rightarrow> (('h, 'cb, 'd) uv_loop \<Rightarrow> 'w \<Rightarrow> 'w) \<Rightarrow>
   ('cb \<Rightarrow> 'h \<Rightarrow> 'w \<Rightarrow> 'w res) \<Rightarrow> nat \<Rightarrow> 'w \<Rightarrow> 'w res" where
  "run_ready get put call 0 w = Fault Diverges"
| "run_ready get put call (Suc n) w =
     (case ready_queue (get w) of
        [] \<Rightarrow> Ret w
      | h # q \<Rightarrow>
          then_do (uv_timer_again ((get w)\<lparr>ready_queue := q\<rparr>) h) (\<lambda>(_, L).
          deref (handles L h) (\<lambda>x.
            case timer_cb x of
              None \<Rightarrow> Fault NullDeref
            | Some cb \<Rightarrow>
                then_do (call cb h (put L w)) (\<lambda>w. run_ready get put call n w))))"

definition uv__run_timers ::
  "('w \<Rightarrow> ('h, 'cb, 'd) uv_loop) \<Rightarrow> (('h, 'cb, 'd) uv_loop \<Rightarrow> 'w \<Rightarrow> 'w) \<Rightarrow>
   ('cb \<Rightarrow> 'h \<Rightarrow> 'w \<Rightarrow> 'w res) \<Rightarrow> 'w \<Rightarrow> 'w res" where
  "uv__run_timers get put call w =
     (let L = (get w)\<lparr>ready_queue := []\<rparr> in
        then_do (collect_due (Suc (length (timer_heap L))) L) (\<lambda>L.
        run_ready get put call (Suc (length (ready_queue L))) (put L w)))"

section \<open>Streams\<close>

text \<open>
  \<open>uv_tcp_init\<close> with the unspecified address family only initialises the handle; it cannot
  fail. Sockets themselves are outside the model: whether the kernel accepts a connection, and
  what it reads and writes, are inputs of the model.
\<close>

definition uv__stream_init ::
  "('h, 'cb, 'd) uv_loop \<Rightarrow> 'h \<Rightarrow> uv_handle_type \<Rightarrow> ('h, 'cb, 'd) uv_loop res" where
  "uv__stream_init L h t =
     then_do (uv__handle_init L h t) (\<lambda>L.
       deref (handles L h) (\<lambda>x. Ret (set_handle L h (x\<lparr>close_cb := None, fd_open := False\<rparr>))))"

definition uv_tcp_init ::
  "('h, 'cb, 'd) uv_loop \<Rightarrow> 'h \<Rightarrow> (int \<times> ('h, 'cb, 'd) uv_loop) res" where
  "uv_tcp_init L h = then_do (uv__stream_init L h UV_TCP) (\<lambda>L. Ret (0, L))"

text \<open>The success path of \<open>uv__stream_open\<close>: the stream takes over a descriptor.\<close>

definition uv__stream_open ::
  "('h, 'cb, 'd) uv_loop \<Rightarrow> 'h \<Rightarrow> bool \<Rightarrow> bool \<Rightarrow> ('h, 'cb, 'd) uv_loop res" where
  "uv__stream_open L h rd wr =
     deref (handles L h) (\<lambda>x.
       Ret (set_handle L h (x\<lparr>f_readable := f_readable x \<or> rd, f_writable := f_writable x \<or> wr,
                              fd_open := True\<rparr>)))"

text \<open>
  \<open>uv_read_start\<close>: the checks of \<open>uv-common.c\<close>, then the platform's \<open>uv__read_start\<close>, whose
  result is the argument \<open>platform_rc\<close> (always 0 on Unix).
\<close>

definition uv_read_start ::
  "('h, 'cb, 'd) uv_loop \<Rightarrow> 'h \<Rightarrow> int \<Rightarrow> (int \<times> ('h, 'cb, 'd) uv_loop) res" where
  "uv_read_start L h platform_rc =
     deref (handles L h) (\<lambda>x.
       if f_closing x then Ret (UV_EINVAL, L)
       else if f_reading x then Ret (UV_EALREADY, L)
       else if \<not> f_readable x then Ret (UV_ENOTCONN, L)
       else if platform_rc \<noteq> 0 then Ret (platform_rc, L)
       else then_do (uv__handle_start (set_handle L h (x\<lparr>f_reading := True\<rparr>)) h) (\<lambda>L. Ret (0, L)))"

definition uv_read_stop ::
  "('h, 'cb, 'd) uv_loop \<Rightarrow> 'h \<Rightarrow> ('h, 'cb, 'd) uv_loop res" where
  "uv_read_stop L h =
     deref (handles L h) (\<lambda>x.
       if \<not> f_reading x then Ret L
       else uv__handle_stop (set_handle L h (x\<lparr>f_reading := False\<rparr>)) h)"

text \<open>
  \<open>uv_write\<close> of one buffer: \<open>uv__check_before_write\<close>, then the request is registered and
  queued. Its completion, with the write callback, is a later event of the loop. (\<open>Uv_Write\<close> has the writing itself.)
\<close>

definition uv_write ::
  "('h, 'cb, 'd) uv_loop \<Rightarrow> 'h \<Rightarrow> byte list \<Rightarrow> (int \<times> ('h, 'cb, 'd) uv_loop) res" where
  "uv_write L h bs =
     deref (handles L h) (\<lambda>x.
       assert_that (htype x = UV_TCP \<or> htype x = UV_TTY)
         (if \<not> fd_open x then Ret (UV_EBADF, L)
          else if \<not> f_writable x then Ret (UV_EPIPE, L)
          else Ret (0, L\<lparr>active_reqs := active_reqs L + 1,
                         write_queue := write_queue L @ [(h, bs)]\<rparr>)))"

section \<open>Closing\<close>

definition uv__stream_close ::
  "('h, 'cb, 'd) uv_loop \<Rightarrow> 'h \<Rightarrow> ('h, 'cb, 'd) uv_loop res" where
  "uv__stream_close L h =
     then_do (uv_read_stop L h) (\<lambda>L.
     then_do (uv__handle_stop L h) (\<lambda>L.
     deref (handles L h) (\<lambda>x.
       Ret (set_handle L h (x\<lparr>f_readable := False, f_writable := False, fd_open := False\<rparr>)))))"

definition uv__make_close_pending ::
  "('h, 'cb, 'd) uv_loop \<Rightarrow> 'h \<Rightarrow> ('h, 'cb, 'd) uv_loop res" where
  "uv__make_close_pending L h =
     deref (handles L h) (\<lambda>x.
       assert_that (f_closing x) (assert_that (\<not> f_closed x)
         (Ret (L\<lparr>closing_handles := h # closing_handles L\<rparr>))))"

text \<open>\<open>uv_close\<close>, for the handle types the program has; other types run into \<open>assert(0)\<close>.\<close>

definition uv_close ::
  "('h, 'cb, 'd) uv_loop \<Rightarrow> 'h \<Rightarrow> 'cb option \<Rightarrow> ('h, 'cb, 'd) uv_loop res" where
  "uv_close L h cb =
     deref (handles L h) (\<lambda>x.
       assert_that (\<not> uv__is_closing x)
         (let L = set_handle L h (x\<lparr>f_closing := True, close_cb := cb\<rparr>) in
            then_do
              (case htype x of
                 UV_TCP \<Rightarrow> uv__stream_close L h
               | UV_TTY \<Rightarrow> uv__stream_close L h
               | UV_TIMER \<Rightarrow> uv_timer_stop L h
               | UV_UNKNOWN_HANDLE \<Rightarrow> Fault AssertionFailure)
              (\<lambda>L. uv__make_close_pending L h)))"

text \<open>
  \<open>uv__stream_destroy\<close> completes the pending writes of the stream with \<open>UV_ECANCELED\<close>:
  \<open>uv__stream_flush_write_queue\<close> followed by \<open>uv__write_callbacks\<close>.
\<close>

fun write_callbacks ::
  "('w \<Rightarrow> ('h, 'cb, 'd) uv_loop) \<Rightarrow> (('h, 'cb, 'd) uv_loop \<Rightarrow> 'w \<Rightarrow> 'w) \<Rightarrow>
   (int \<Rightarrow> byte list \<Rightarrow> 'w \<Rightarrow> 'w res) \<Rightarrow> ('h \<times> byte list) list \<Rightarrow> 'w \<Rightarrow> 'w res" where
  "write_callbacks get put wcb [] w = Ret w"
| "write_callbacks get put wcb ((h, bs) # reqs) w =
     (let L = get w in
        then_do (wcb UV_ECANCELED bs (put (L\<lparr>active_reqs := active_reqs L - 1\<rparr>) w))
          (write_callbacks get put wcb reqs))"

definition uv__stream_destroy ::
  "('w \<Rightarrow> ('h, 'cb, 'd) uv_loop) \<Rightarrow> (('h, 'cb, 'd) uv_loop \<Rightarrow> 'w \<Rightarrow> 'w) \<Rightarrow>
   (int \<Rightarrow> byte list \<Rightarrow> 'w \<Rightarrow> 'w res) \<Rightarrow> 'h \<Rightarrow> 'w \<Rightarrow> 'w res" where
  "uv__stream_destroy get put wcb h w =
     (let L = get w; mine = filter (\<lambda>r. fst r = h) (write_queue L) in
        write_callbacks get put wcb mine
          (put (L\<lparr>write_queue := filter (\<lambda>r. fst r \<noteq> h) (write_queue L)\<rparr>) w))"

definition uv__finish_close ::
  "('w \<Rightarrow> ('h, 'cb, 'd) uv_loop) \<Rightarrow> (('h, 'cb, 'd) uv_loop \<Rightarrow> 'w \<Rightarrow> 'w) \<Rightarrow>
   ('cb \<Rightarrow> 'h \<Rightarrow> 'w \<Rightarrow> 'w res) \<Rightarrow> (int \<Rightarrow> byte list \<Rightarrow> 'w \<Rightarrow> 'w res) \<Rightarrow> 'h \<Rightarrow> 'w \<Rightarrow> 'w res"
where
  "uv__finish_close get put call wcb h w =
     deref (handles (get w) h) (\<lambda>x.
       assert_that (f_closing x) (assert_that (\<not> f_closed x)
         (let w = put (set_handle (get w) h (x\<lparr>f_closed := True\<rparr>)) w in
            then_do
              (case htype x of
                 UV_TIMER \<Rightarrow> Ret w
               | UV_TCP \<Rightarrow> uv__stream_destroy get put wcb h w
               | UV_TTY \<Rightarrow> uv__stream_destroy get put wcb h w
               | UV_UNKNOWN_HANDLE \<Rightarrow> Fault AssertionFailure)
              (\<lambda>w. then_do (uv__handle_unref (get w) h) (\<lambda>L.
                 let w = put (L\<lparr>handle_queue := remove1 h (handle_queue L)\<rparr>) w in
                   deref (handles (get w) h) (\<lambda>x.
                     case close_cb x of
                       None \<Rightarrow> Ret w
                     | Some cb \<Rightarrow> call cb h w))))))"

text \<open>
  \<open>uv__run_closing_handles\<close> detaches the chain and finishes its handles one by one. The link to
  the next handle is read before the handle's callback runs. Handles that a close callback puts
  on the chain wait for the next iteration of the loop.
\<close>

fun finish_closing ::
  "('w \<Rightarrow> ('h, 'cb, 'd) uv_loop) \<Rightarrow> (('h, 'cb, 'd) uv_loop \<Rightarrow> 'w \<Rightarrow> 'w) \<Rightarrow>
   ('cb \<Rightarrow> 'h \<Rightarrow> 'w \<Rightarrow> 'w res) \<Rightarrow> (int \<Rightarrow> byte list \<Rightarrow> 'w \<Rightarrow> 'w res) \<Rightarrow> 'h list \<Rightarrow> 'w \<Rightarrow> 'w res"
where
  "finish_closing get put call wcb [] w = Ret w"
| "finish_closing get put call wcb (p # q) w =
     then_do (uv__finish_close get put call wcb p (put ((get w)\<lparr>detached := q\<rparr>) w))
       (finish_closing get put call wcb q)"

definition uv__run_closing_handles ::
  "('w \<Rightarrow> ('h, 'cb, 'd) uv_loop) \<Rightarrow> (('h, 'cb, 'd) uv_loop \<Rightarrow> 'w \<Rightarrow> 'w) \<Rightarrow>
   ('cb \<Rightarrow> 'h \<Rightarrow> 'w \<Rightarrow> 'w res) \<Rightarrow> (int \<Rightarrow> byte list \<Rightarrow> 'w \<Rightarrow> 'w res) \<Rightarrow> 'w \<Rightarrow> 'w res" where
  "uv__run_closing_handles get put call wcb w =
     finish_closing get put call wcb (closing_handles (get w))
       (put ((get w)\<lparr>closing_handles := [], detached := closing_handles (get w)\<rparr>) w)"

text \<open>\<open>uv__loop_alive\<close>; the queue of pending i/o errors is not part of the model.\<close>

definition uv__loop_alive :: "('h, 'cb, 'd) uv_loop \<Rightarrow> bool" where
  "uv__loop_alive L =
     (0 < active_handles L \<or> 0 < active_reqs L \<or> closing_handles L \<noteq> [])"

end
