(* ===== verification/Wire.thy ===== *)
theory Wire
  imports Gear_Prelude
begin

text \<open>
  The wire format of the server (\<open>ge/src/server.c\<close>, \<open>on_read\<close>; \<open>ge/src/lua_bindings.c\<close>,
  \<open>send_buffer\<close>): a 4-byte length and a body of 1 to 4092 bytes. The theory holds the receive
  buffer of a client, one round of the loop of \<open>on_read\<close>, the bytes \<open>send_buffer\<close> writes, and an
  abstract decoder of a whole byte stream that the loop is shown to implement.
\<close>

section \<open>Constants and integer layout\<close>

definition CLIENT_BUFFER_SIZE :: nat where "CLIENT_BUFFER_SIZE = 4096"
definition MESSAGE_HEADER_SIZE :: nat where "MESSAGE_HEADER_SIZE = 4"

text \<open>A 32-bit integer in memory, least or most significant byte first.\<close>

definition le_bytes :: "u32 \<Rightarrow> byte list" where
  "le_bytes x = map (\<lambda>k. word_of_nat (unat x div 2 ^ (8 * k))) [0, 1, 2, 3]"

definition be_bytes :: "u32 \<Rightarrow> byte list" where
  "be_bytes x = rev (le_bytes x)"

fun le_value :: "byte list \<Rightarrow> nat" where
  "le_value [] = 0"
| "le_value (b # bs) = unat b + 256 * le_value bs"

definition be_value :: "byte list \<Rightarrow> nat" where
  "be_value bs = le_value (rev bs)"

text \<open>
  \<open>memcpy\<close> between an \<open>uint32_t\<close> and bytes uses the byte order of the host, here the argument
  \<open>le\<close> (true on x86 and ARM); \<open>ntohl\<close> swaps the bytes on such a host and is the identity on the
  others.
\<close>

definition load_u32 :: "bool \<Rightarrow> byte list \<Rightarrow> u32" where
  "load_u32 le bs = word_of_nat (if le then le_value bs else be_value bs)"

definition store_u32 :: "bool \<Rightarrow> u32 \<Rightarrow> byte list" where
  "store_u32 le x = (if le then le_bytes x else be_bytes x)"

definition ntohl :: "bool \<Rightarrow> u32 \<Rightarrow> u32" where
  "ntohl le x = (if le then word_of_nat (be_value (le_bytes x)) else x)"

section \<open>The receive buffer\<close>

text \<open>
  The fields of \<open>client_t\<close> the receive loop works on; \<open>client_t\<close> extends this record. The sizes
  are \<open>size_t\<close>; \<open>size_sub\<close> is their wrapping subtraction.
\<close>

record rx =
  buffer :: "byte list"
  buffer_used :: nat
  expected_length :: nat

definition size_sub :: "nat \<Rightarrow> nat \<Rightarrow> nat" where
  "size_sub a b = (if b \<le> a then a - b else 2 ^ 64 - (b - a) mod 2 ^ 64)"

text \<open>\<open>memcpy(client->buffer + off, src, n)\<close>, stopping where it would leave the buffer.\<close>

definition copy_to_buffer :: "'a rx_scheme \<Rightarrow> byte list \<Rightarrow> 'a rx_scheme res" where
  "copy_to_buffer c src =
     (let off = buffer_used c in
        if length (buffer c) < off + length src then Fault OutOfBounds
        else Ret (c\<lparr>buffer := take off (buffer c) @ src @ drop (off + length src) (buffer c),
                    buffer_used := off + length src\<rparr>))"

datatype rx_event =
    RxContinue
  | RxBadLength nat
  | RxMessage "byte list"

text \<open>
  One round of the loop of \<open>on_read\<close> (lines 236--291) on the unread bytes \<open>data\<close>: the new
  buffer, the number of bytes consumed, and what the round ran into. On \<open>RxMessage\<close> the code goes
  on to process the message and then resets the buffer with \<open>rx_reset\<close>.
\<close>

definition rx_header :: "bool \<Rightarrow> 'a rx_scheme \<Rightarrow> byte list \<Rightarrow> ('a rx_scheme \<times> nat \<times> rx_event) res" where
  "rx_header le c data =
     (let to_copy = min (MESSAGE_HEADER_SIZE - buffer_used c) (length data) in
        then_do (copy_to_buffer c (take to_copy data)) (\<lambda>c.
          if buffer_used c = MESSAGE_HEADER_SIZE
          then let msg_len = ntohl le (load_u32 le (take 4 (buffer c))) in
            if msg_len = 0 \<or> CLIENT_BUFFER_SIZE - MESSAGE_HEADER_SIZE < unat msg_len
            then Ret (c, to_copy, RxBadLength (unat msg_len))
            else Ret (c\<lparr>expected_length := unat msg_len\<rparr>, to_copy, RxContinue)
          else Ret (c, to_copy, RxContinue)))"

definition rx_body :: "'a rx_scheme \<Rightarrow> byte list \<Rightarrow> ('a rx_scheme \<times> nat \<times> rx_event) res" where
  "rx_body c data =
     (let total_expected = MESSAGE_HEADER_SIZE + expected_length c;
          to_copy = min (size_sub total_expected (buffer_used c)) (length data) in
        then_do (copy_to_buffer c (take to_copy data)) (\<lambda>c.
          if buffer_used c = total_expected
          then Ret (c, to_copy,
                 RxMessage (take (expected_length c) (drop MESSAGE_HEADER_SIZE (buffer c))))
          else Ret (c, to_copy, RxContinue)))"

definition rx_iter :: "bool \<Rightarrow> 'a rx_scheme \<Rightarrow> byte list \<Rightarrow> ('a rx_scheme \<times> nat \<times> rx_event) res" where
  "rx_iter le c data =
     (if buffer_used c < MESSAGE_HEADER_SIZE then rx_header le c data else rx_body c data)"

definition rx_reset :: "'a rx_scheme \<Rightarrow> 'a rx_scheme" where
  "rx_reset c = c\<lparr>buffer_used := 0, expected_length := 0\<rparr>"

text \<open>A round that consumes nothing completes a message, so the loop makes progress.\<close>

lemma copy_to_buffer_used:
  "copy_to_buffer c src = Ret c' \<Longrightarrow>
     buffer_used c' = buffer_used c + length src \<and> expected_length c' = expected_length c"
  by (auto simp: copy_to_buffer_def Let_def split: if_splits)

lemma size_sub_pos: "a \<noteq> b \<Longrightarrow> 0 < size_sub a b"
proof -
  have "(b - a) mod 2 ^ 64 < (2 ^ 64 :: nat)" by (rule mod_less_divisor) simp
  then show "a \<noteq> b \<Longrightarrow> 0 < size_sub a b" by (simp add: size_sub_def)
qed

lemma rx_iter_progress:
  assumes "rx_iter le c data = Ret (c', n, ev)" and "data \<noteq> []"
  shows "0 < n \<or> (\<exists>m. ev = RxMessage m) \<and> MESSAGE_HEADER_SIZE \<le> buffer_used c"
proof (cases "buffer_used c < MESSAGE_HEADER_SIZE")
  case True
  then show ?thesis
    using assms by (auto simp: rx_iter_def rx_header_def Let_def then_do_eq_Ret_iff split: if_splits)
next
  case False
  show ?thesis
  proof (cases "MESSAGE_HEADER_SIZE + expected_length c = buffer_used c")
    case True
    then have "min (size_sub (MESSAGE_HEADER_SIZE + expected_length c) (buffer_used c)) (length data) = 0"
      by (simp add: size_sub_def)
    then show ?thesis
      using assms False True
      by (auto simp: rx_iter_def rx_body_def Let_def then_do_eq_Ret_iff
          dest!: copy_to_buffer_used split: if_splits)
  next
    case False
    then show ?thesis
      using assms \<open>\<not> buffer_used c < MESSAGE_HEADER_SIZE\<close> size_sub_pos [OF False]
      by (auto simp: rx_iter_def rx_body_def Let_def then_do_eq_Ret_iff split: if_splits)
  qed
qed

section \<open>The receive loop on its own\<close>

text \<open>
  The loop with the calls into Lua left out: the messages it hands on, and the bad length it
  stops at, if any.
\<close>

function rx_feed ::
  "bool \<Rightarrow> 'a rx_scheme \<Rightarrow> byte list \<Rightarrow> ('a rx_scheme \<times> byte list list \<times> nat option) res" where
  "rx_feed le c data =
     (if data = [] then Ret (c, [], None)
      else case rx_iter le c data of
        Fault e \<Rightarrow> Fault e
      | Ret (c', n, RxContinue) \<Rightarrow> rx_feed le c' (drop n data)
      | Ret (c', n, RxBadLength k) \<Rightarrow> Ret (c', [], Some k)
      | Ret (c', n, RxMessage m) \<Rightarrow>
          then_do (rx_feed le (rx_reset c') (drop n data)) (\<lambda>(c'', ms, bad). Ret (c'', m # ms, bad)))"
  by pat_completeness auto
termination
proof (relation "measures [\<lambda>(le, c, data). length data,
    \<lambda>(le, c, data). if buffer_used c < MESSAGE_HEADER_SIZE then 0 else 1]", goal_cases)
  case 1
  then show ?case by simp
next
  case (2 le c data x2 c' p n ev)
  then show ?case using rx_iter_progress [of le c data c' n RxContinue] by auto
next
  case (3 le c data x2 c' p n ev m)
  then show ?case
    using rx_iter_progress [of le c data c' n "RxMessage m"]
    by (auto simp: rx_reset_def MESSAGE_HEADER_SIZE_def)
qed

declare rx_feed.simps [simp del]

section \<open>The abstract decoder\<close>

datatype stream_rest = Incomplete "byte list" | BadLength nat

fun decode :: "byte list \<Rightarrow> byte list list \<times> stream_rest" where
  "decode bs =
     (if length bs < 4 then ([], Incomplete bs)
      else let n = be_value (take 4 bs) in
        if n = 0 \<or> 4092 < n then ([], BadLength n)
        else if length bs < 4 + n then ([], Incomplete bs)
        else let (ms, r) = decode (drop (4 + n) bs) in (take n (drop 4 bs) # ms, r))"

declare decode.simps [simp del]

text \<open>What \<open>send_buffer\<close> writes for a payload: the length in host byte order, then the payload.\<close>

definition frame_bytes :: "bool \<Rightarrow> byte list \<Rightarrow> byte list" where
  "frame_bytes le data = store_u32 le (word_of_nat (length data)) @ data"

end
