(* ===== verification/Server_State.thy ===== *)
theory Server_State
  imports Uv_Loop Wire
begin

text \<open>
  The state of the server process (\<open>ge/src/server.h\<close>): client structures in memory, the client
  array of the server context, the event loop, and the Lua scripts as the code sees them.

  A Lua callback is an arbitrary program that calls the \<open>gear\<close> functions: a tree of type
  \<open>lua_act\<close> whose nodes are calls, each with one subtree per result. The tree ends in a return or
  in a Lua error, so callbacks terminate; what a script computes between two calls is its own.
\<close>

section \<open>Clients\<close>

definition CLIENT_MAGIC :: u32 where "CLIENT_MAGIC = 0x47454152"
definition LISTEN_BACKLOG :: int where "LISTEN_BACKLOG = 128"
definition INITIAL_CLIENT_CAPACITY :: int where "INITIAL_CLIENT_CAPACITY = 16"

text \<open>
  \<open>client_t\<close>. The two handles embedded in it, \<open>handle\<close> and \<open>idle_timer\<close>, are entries of the
  loop's map of handles, under the names \<open>ClientHandle a\<close> and \<open>IdleTimer a\<close> for a client at
  address \<open>a\<close>. \<open>server_set\<close> is whether the pointer \<open>server\<close> is set; there is one server.
\<close>

record client_t = rx +
  server_set :: bool
  array_index :: int
  magic :: u32
  is_valid :: bool
  last_activity :: u64

definition zero_client :: client_t where
  "zero_client =
     \<lparr>buffer = replicate CLIENT_BUFFER_SIZE 0, buffer_used = 0, expected_length = 0,
      server_set = False, array_index = 0, magic = 0, is_valid = False, last_activity = 0\<rparr>"

datatype hid = ServerHandle | ClientHandle nat | IdleTimer nat

datatype server_cb = On_idle_timeout | On_client_close | On_server_close

datatype udata = CtxPtr | ClientPtr nat

type_synonym server_loop = "(hid, server_cb, udata) uv_loop"

section \<open>Lua scripts\<close>

text \<open>What the \<open>gear\<close> functions push: \<open>true\<close>, or \<open>false\<close> and a message.\<close>

datatype lua_msg = Msg string | Strerror int

datatype lua_ret = LuaTrue | LuaFalse lua_msg

text \<open>Client arguments come from \<open>lua_touserdata\<close>: a pointer, which may be null or dangling.\<close>

datatype 'l lua_act =
    LuaReturn 'l
  | LuaError 'l string
  | SendData "nat option" "byte list" "lua_ret \<Rightarrow> 'l lua_act"
  | SendBson "nat option" "byte list" "lua_ret \<Rightarrow> 'l lua_act"
  | CloseClient "nat option" "lua_ret \<Rightarrow> 'l lua_act"
  | IsClosing "nat option" "bool \<Rightarrow> 'l lua_act"
  | GetClientCount "int \<Rightarrow> 'l lua_act"
  | Log string string "'l lua_act"

text \<open>
  The global functions of a script, looked up in the current Lua state at each call; \<open>None\<close> when
  the global is not a function.
\<close>

record 'l script =
  on_server_start :: "'l \<Rightarrow> 'l lua_act option"
  on_client_connect :: "'l \<Rightarrow> (nat \<Rightarrow> 'l lua_act) option"
  on_client_data :: "'l \<Rightarrow> (nat \<Rightarrow> byte list \<Rightarrow> 'l lua_act) option"
  on_client_disconnect :: "'l \<Rightarrow> (nat \<Rightarrow> 'l lua_act) option"
  on_server_stop :: "'l \<Rightarrow> 'l lua_act option"

section \<open>The server\<close>

text \<open>
  What an observer sees: calls into Lua, log lines, error messages, frames queued for sending.
\<close>

datatype event =
    CallStart
  | CallConnect nat
  | CallData nat "byte list"
  | CallDisconnect nat
  | CallStop
  | LogLine string string
  | Stderr string
  | Queued nat "byte list"

text \<open>
  \<open>clients\<close> is the array of \<open>client_capacity\<close> slots, \<open>None\<close> where a slot was never written.
  \<open>read_bufs\<close> are the live buffers of \<open>alloc_buffer\<close>, \<open>live_writes\<close> counts the live \<open>write_req_t\<close>,
  \<open>mallocs\<close> is the outcome of the coming allocations of \<open>send_buffer\<close> (success when it runs out).
  \<open>host_le\<close> is the byte order of the host.
\<close>

record 'l server =
  uv :: server_loop
  client_mem :: "nat \<Rightarrow> client_t option"
  clients :: "nat option list"
  client_count :: int
  client_capacity :: int
  lua :: 'l
  script :: "'l script"
  host_le :: bool
  mallocs :: "bool list"
  live_writes :: int
  read_bufs :: "nat list"
  trace :: "event list"

definition set_client :: "'l server \<Rightarrow> nat \<Rightarrow> client_t \<Rightarrow> 'l server" where
  "set_client w a c = w\<lparr>client_mem := (client_mem w)(a \<mapsto> c)\<rparr>"

definition emit :: "event \<Rightarrow> 'l server \<Rightarrow> 'l server" where
  "emit e w = w\<lparr>trace := trace w @ [e]\<rparr>"

definition set_uv :: "server_loop \<Rightarrow> 'l server \<Rightarrow> 'l server" where
  "set_uv L w = w\<lparr>uv := L\<rparr>"

text \<open>Running an operation of the loop inside the server.\<close>

definition on_loop :: "(server_loop \<Rightarrow> server_loop res) \<Rightarrow> 'l server \<Rightarrow> 'l server res" where
  "on_loop f w = then_do (f (uv w)) (\<lambda>L. Ret (set_uv L w))"

definition on_loop_rc ::
  "(server_loop \<Rightarrow> (int \<times> server_loop) res) \<Rightarrow> 'l server \<Rightarrow> (int \<times> 'l server) res" where
  "on_loop_rc f w = then_do (f (uv w)) (\<lambda>(r, L). Ret (r, set_uv L w))"

text \<open>\<open>malloc\<close> and \<open>memset\<close> of a client, with the two handles it embeds; and \<open>free\<close>.\<close>

definition alloc_client :: "nat \<Rightarrow> client_t \<Rightarrow> 'l server \<Rightarrow> 'l server" where
  "alloc_client a c w =
     w\<lparr>client_mem := (client_mem w)(a \<mapsto> c),
       uv := (uv w)\<lparr>handles := (handles (uv w))
                (ClientHandle a \<mapsto> zero_handle, IdleTimer a \<mapsto> zero_handle)\<rparr>\<rparr>"

definition free_client :: "nat \<Rightarrow> 'l server \<Rightarrow> 'l server res" where
  "free_client a w =
     (if client_mem w a = None then Fault DoubleFree
      else Ret (w\<lparr>client_mem := (client_mem w)(a := None),
                  uv := (uv w)\<lparr>handles := (handles (uv w))
                      (ClientHandle a := None, IdleTimer a := None)\<rparr>\<rparr>))"

text \<open>\<open>free(buf->base)\<close>; freeing a null pointer does nothing.\<close>

definition free_buf :: "nat option \<Rightarrow> 'l server \<Rightarrow> 'l server res" where
  "free_buf b w =
     (case b of
        None \<Rightarrow> Ret w
      | Some i \<Rightarrow> if i \<in> set (read_bufs w) then Ret (w\<lparr>read_bufs := remove1 i (read_bufs w)\<rparr>)
                 else Fault DoubleFree)"

definition next_malloc :: "'l server \<Rightarrow> bool \<times> 'l server" where
  "next_malloc w = (case mallocs w of [] \<Rightarrow> (True, w) | b # bs \<Rightarrow> (b, w\<lparr>mallocs := bs\<rparr>))"

text \<open>\<open>is_client_valid\<close>, and its copy \<open>is_client_valid_lua\<close> in \<open>lua_bindings.c\<close>.\<close>

definition is_client_valid :: "'l server \<Rightarrow> nat option \<Rightarrow> bool res" where
  "is_client_valid w client =
     (case client of
        None \<Rightarrow> Ret False
      | Some a \<Rightarrow> deref (client_mem w a) (\<lambda>c. Ret (magic c = CLIENT_MAGIC \<and> is_valid c)))"

definition invalidate_client :: "nat \<Rightarrow> 'l server \<Rightarrow> 'l server res" where
  "invalidate_client a w =
     deref (client_mem w a) (\<lambda>c. Ret (set_client w a (c\<lparr>is_valid := False, magic := 0\<rparr>)))"

definition update_client_activity :: "nat \<Rightarrow> 'l server \<Rightarrow> 'l server res" where
  "update_client_activity a w =
     then_do (is_client_valid w (Some a)) (\<lambda>v.
       deref (client_mem w a) (\<lambda>c.
         if v \<and> server_set c
         then Ret (set_client w a (c\<lparr>last_activity := uv_now (uv w)\<rparr>))
         else Ret w))"

section \<open>The \<open>gear\<close> functions (\<open>ge/src/lua_bindings.c\<close>)\<close>

definition on_write_done :: "int \<Rightarrow> byte list \<Rightarrow> 'l server \<Rightarrow> 'l server res" where
  "on_write_done status bs w =
     (let w1 = (if status < 0 then emit (Stderr ''Write error'') w else w) in
        Ret (w1\<lparr>live_writes := live_writes w1 - 1\<rparr>))"

definition send_buffer ::
  "'l server \<Rightarrow> nat option \<Rightarrow> byte list \<Rightarrow> (lua_ret \<times> 'l server) res" where
  "send_buffer w client data =
     then_do (is_client_valid w client) (\<lambda>v.
     case client of
       None \<Rightarrow> Ret (LuaFalse (Msg ''Invalid client''), w)
     | Some a \<Rightarrow>
       if \<not> v then Ret (LuaFalse (Msg ''Invalid client''), w)
       else then_do (uv_is_closing (uv w) (ClientHandle a)) (\<lambda>closing.
         if closing then Ret (LuaFalse (Msg ''Client is closing''), w)
         else if CLIENT_BUFFER_SIZE - MESSAGE_HEADER_SIZE < length data
           then Ret (LuaFalse (Msg ''Data too large''), w)
         else if data = [] then Ret (LuaTrue, w)
         else case next_malloc w of (wr, w) \<Rightarrow>
           if \<not> wr then Ret (LuaFalse (Msg ''Out of memory''), w)
           else case next_malloc w of (wr_data, w) \<Rightarrow>
             if \<not> wr_data then Ret (LuaFalse (Msg ''Out of memory''), w)
             else let frame = frame_bytes (host_le w) data in
               then_do (on_loop_rc (\<lambda>L. uv_write L (ClientHandle a) frame) w) (\<lambda>(r, w).
                 if r \<noteq> 0 then Ret (LuaFalse (Strerror r), w)
                 else Ret (LuaTrue, emit (Queued a frame) (w\<lparr>live_writes := live_writes w + 1\<rparr>)))))"

definition lua_close_client ::
  "'l server \<Rightarrow> nat option \<Rightarrow> (lua_ret \<times> 'l server) res" where
  "lua_close_client w client =
     then_do (is_client_valid w client) (\<lambda>v.
     case client of
       None \<Rightarrow> Ret (LuaFalse (Msg ''Invalid client''), w)
     | Some a \<Rightarrow>
       if \<not> v then Ret (LuaFalse (Msg ''Invalid client''), w)
       else then_do (uv_is_closing (uv w) (ClientHandle a)) (\<lambda>closing.
         if closing then Ret (LuaTrue, w)
         else deref (client_mem w a) (\<lambda>c.
           then_do (on_loop (\<lambda>L. uv_timer_stop L (IdleTimer a)) (set_client w a (c\<lparr>is_valid := False\<rparr>)))
             (\<lambda>w. then_do (on_loop (\<lambda>L. uv_close L (ClientHandle a) (Some On_client_close)) w)
             (\<lambda>w. Ret (LuaTrue, w))))))"

definition lua_is_closing_client :: "'l server \<Rightarrow> nat option \<Rightarrow> bool res" where
  "lua_is_closing_client w client =
     then_do (is_client_valid w client) (\<lambda>v.
     case client of
       None \<Rightarrow> Ret True
     | Some a \<Rightarrow> if \<not> v then Ret True else uv_is_closing (uv w) (ClientHandle a))"

definition lua_get_client_count :: "'l server \<Rightarrow> int" where
  "lua_get_client_count w = client_count w"

text \<open>
  \<open>lua_pcall\<close> of a callback: its calls take effect one after the other. The result is whether it
  returned without a Lua error; a script may modify its state before raising one.
\<close>

primrec run_lua :: "'l lua_act \<Rightarrow> 'l server \<Rightarrow> (bool \<times> 'l server) res" where
  "run_lua (LuaReturn l) w = Ret (True, w\<lparr>lua := l\<rparr>)"
| "run_lua (LuaError l m) w = Ret (False, w\<lparr>lua := l\<rparr>)"
| "run_lua (SendData p bs k) w = then_do (send_buffer w p bs) (\<lambda>(r, w). run_lua (k r) w)"
| "run_lua (SendBson p bs k) w = then_do (send_buffer w p bs) (\<lambda>(r, w). run_lua (k r) w)"
| "run_lua (CloseClient p k) w = then_do (lua_close_client w p) (\<lambda>(r, w). run_lua (k r) w)"
| "run_lua (IsClosing p k) w = then_do (lua_is_closing_client w p) (\<lambda>b. run_lua (k b) w)"
| "run_lua (GetClientCount k) w = run_lua (k (lua_get_client_count w)) w"
| "run_lua (Log level msg k) w = run_lua k (emit (LogLine level msg) w)"

text \<open>The pattern \<open>lua_getglobal\<close>, \<open>lua_isfunction\<close>, \<open>lua_pcall\<close>, report of an error.\<close>

definition call_lua :: "event \<Rightarrow> 'l lua_act option \<Rightarrow> 'l server \<Rightarrow> 'l server res" where
  "call_lua e act w =
     (case act of
        None \<Rightarrow> Ret w
      | Some p \<Rightarrow> then_do (run_lua p (emit e w)) (\<lambda>(ok, w).
          Ret (if ok then w else emit (Stderr ''Lua error'') w)))"

end
