(* ===== verification/Uv_Run.thy ===== *)
theory Uv_Run
  imports Uv_Loop
begin

text \<open>
  Streams as the loop drives them (\<open>ge/libuv/src/unix/stream.c\<close>): listening and accepting, the
  read loop \<open>uv__read\<close> with the allocation callback before each read, completed writes; and the
  order of the phases of \<open>uv_run\<close> (\<open>ge/libuv/src/unix/core.c\<close>). What the kernel answers to
  \<open>read\<close>, and the events of each poll, are inputs.
\<close>

section \<open>Listening and accepting\<close>

text \<open>\<open>listen_rc\<close> is the result of \<open>uv__tcp_listen\<close>, that is, of the system call \<open>listen\<close>.\<close>

definition uv_listen ::
  "('h, 'cb, 'd) uv_loop \<Rightarrow> 'h \<Rightarrow> int \<Rightarrow> (int \<times> ('h, 'cb, 'd) uv_loop) res" where
  "uv_listen L h listen_rc =
     deref (handles L h) (\<lambda>x.
       if uv__is_closing x then Ret (UV_EINVAL, L)
       else let err = (if htype x = UV_TCP then listen_rc else UV_EINVAL) in
         if err = 0 then then_do (uv__handle_start L h) (\<lambda>L. Ret (err, L))
         else Ret (err, L))"

text \<open>
  \<open>uv_tcp_bind\<close> to an IPv4 address without flags, with the results of \<open>socket\<close>, \<open>setsockopt\<close> and \<open>bind\<close>. An
  address in use is no error yet: \<open>uv_listen\<close> reports it.
\<close>

definition UV_EADDRINUSE :: int where "UV_EADDRINUSE = -98"
definition UV_EAFNOSUPPORT :: int where "UV_EAFNOSUPPORT = -97"

definition uv_tcp_bind ::
  "('h, 'cb, 'd) uv_loop \<Rightarrow> 'h \<Rightarrow> int \<Rightarrow> int \<Rightarrow> int \<Rightarrow> (int \<times> ('h, 'cb, 'd) uv_loop) res" where
  "uv_tcp_bind L h socket_rc sockopt_rc bind_rc =
     deref (handles L h) (\<lambda>x.
       if htype x \<noteq> UV_TCP then Ret (UV_EINVAL, L)
       else if uv__is_closing x then Ret (UV_EINVAL, L)
       else then_do
         (if fd_open x then Ret (0, L)
          else if socket_rc \<noteq> 0 then Ret (socket_rc, L)
          else then_do (uv__stream_open L h False False) (\<lambda>L. Ret (0, L))) (\<lambda>(err, L).
         if err \<noteq> 0 then Ret (err, L)
         else if sockopt_rc \<noteq> 0 then Ret (sockopt_rc, L)
         else if bind_rc \<noteq> 0 \<and> bind_rc \<noteq> UV_EADDRINUSE
         then Ret (if bind_rc = UV_EAFNOSUPPORT then UV_EINVAL else bind_rc, L)
         else Ret (0, L)))"

text \<open>\<open>open_rc\<close> is the result of \<open>uv__stream_open\<close>; the stream is open if it is 0.\<close>

definition uv_accept ::
  "('h, 'cb, 'd) uv_loop \<Rightarrow> 'h \<Rightarrow> int \<Rightarrow> (int \<times> ('h, 'cb, 'd) uv_loop) res" where
  "uv_accept L h open_rc =
     deref (handles L h) (\<lambda>x.
       if htype x \<noteq> UV_TCP then Ret (UV_EINVAL, L)
       else if open_rc \<noteq> 0 then Ret (open_rc, L)
       else then_do (uv__stream_open L h True True) (\<lambda>L. Ret (0, L)))"

section \<open>Reading\<close>

definition UV_ENOBUFS :: int where "UV_ENOBUFS = -105"

text \<open>
  What a read callback gets as \<open>nread\<close> and buffer contents: a negative \<open>nread\<close>, or data, empty
  for \<open>nread = 0\<close>. A kernel read gives data, nothing yet, an error, or the end of the stream.
\<close>

datatype read_result = ReadError int | ReadData "byte list"

datatype kernel_read = KernelData "byte list" | KernelAgain | KernelError int | KernelEof

definition uv__stream_eof ::
  "('w \<Rightarrow> ('h, 'cb, 'd) uv_loop) \<Rightarrow> (('h, 'cb, 'd) uv_loop \<Rightarrow> 'w \<Rightarrow> 'w) \<Rightarrow>
   ('h \<Rightarrow> read_result \<Rightarrow> nat option \<Rightarrow> 'w \<Rightarrow> 'w res) \<Rightarrow> 'h \<Rightarrow> nat option \<Rightarrow> 'w \<Rightarrow> 'w res" where
  "uv__stream_eof get put read_cb h buf w =
     deref (handles (get w) h) (\<lambda>x.
       then_do (uv__handle_stop (set_handle (get w) h (x\<lparr>f_reading := False\<rparr>)) h) (\<lambda>L.
         read_cb h (ReadError UV_EOF) buf (put L w)))"

text \<open>
  \<open>uv__read\<close> on the results of its kernel reads, at most 32 of them; a short read, an error or the
  end of the stream ends it. A read never returns more than the buffer holds.
\<close>

fun uv__read ::
  "('w \<Rightarrow> ('h, 'cb, 'd) uv_loop) \<Rightarrow> (('h, 'cb, 'd) uv_loop \<Rightarrow> 'w \<Rightarrow> 'w) \<Rightarrow>
   ('h \<Rightarrow> nat \<Rightarrow> 'w \<Rightarrow> (nat option \<times> nat) \<times> 'w) \<Rightarrow>
   ('h \<Rightarrow> read_result \<Rightarrow> nat option \<Rightarrow> 'w \<Rightarrow> 'w res) \<Rightarrow> 'h \<Rightarrow> kernel_read list \<Rightarrow> 'w \<Rightarrow> 'w res" where
  "uv__read get put alloc_cb read_cb h [] w = Ret w"
| "uv__read get put alloc_cb read_cb h (k # ks) w =
     deref (handles (get w) h) (\<lambda>x.
       if \<not> f_reading x then Ret w
       else case alloc_cb h 65536 w of ((base, len), w) \<Rightarrow>
         if base = None \<or> len = 0 then read_cb h (ReadError UV_ENOBUFS) base w
         else case k of
           KernelAgain \<Rightarrow> read_cb h (ReadData []) base w
         | KernelEof \<Rightarrow> uv__stream_eof get put read_cb h base w
         | KernelError e \<Rightarrow>
             then_do (read_cb h (ReadError e) base
                 (put (set_handle (get w) h (x\<lparr>f_readable := False, f_writable := False\<rparr>)) w))
               (\<lambda>w. deref (handles (get w) h) (\<lambda>x.
                  if f_reading x
                  then then_do (uv__handle_stop (set_handle (get w) h (x\<lparr>f_reading := False\<rparr>)) h)
                         (\<lambda>L. Ret (put L w))
                  else Ret w))
         | KernelData bs \<Rightarrow>
             then_do (read_cb h (ReadData (take len bs)) base w) (\<lambda>w.
               if length bs < len then Ret w
               else uv__read get put alloc_cb read_cb h ks w))"

text \<open>
  Completion of the oldest write request of a stream, with the given status, and its callback
  (\<open>uv__write\<close> and \<open>uv__write_callbacks\<close>, for one request).
\<close>

definition uv__write_complete ::
  "('w \<Rightarrow> ('h, 'cb, 'd) uv_loop) \<Rightarrow> (('h, 'cb, 'd) uv_loop \<Rightarrow> 'w \<Rightarrow> 'w) \<Rightarrow>
   (int \<Rightarrow> byte list \<Rightarrow> 'w \<Rightarrow> 'w res) \<Rightarrow> int \<Rightarrow> 'h \<Rightarrow> 'w \<Rightarrow> 'w res" where
  "uv__write_complete get put wcb status h w =
     (case List.find (\<lambda>r. fst r = h) (write_queue (get w)) of
        None \<Rightarrow> Ret w
      | Some r \<Rightarrow> let L = get w in
          wcb status (snd r) (put (L\<lparr>write_queue := remove1 r (write_queue L),
                                     active_reqs := active_reqs L - 1\<rparr>) w))"

section \<open>The loop\<close>

definition uv__update_time :: "u64 \<Rightarrow> ('h, 'cb, 'd) uv_loop \<Rightarrow> ('h, 'cb, 'd) uv_loop" where
  "uv__update_time now L = L\<lparr>loop_time := now\<rparr>"

text \<open>
  One iteration of \<open>uv_run\<close>: the poll with its i/o callbacks, the close callbacks, the timers at
  the new time. The loop goes on while something keeps it alive and nobody stopped it; the
  result says whether it returned, which it does not when the inputs end first.
\<close>

definition uv_iteration ::
  "('w \<Rightarrow> ('h, 'cb, 'd) uv_loop) \<Rightarrow> (('h, 'cb, 'd) uv_loop \<Rightarrow> 'w \<Rightarrow> 'w) \<Rightarrow>
   ('cb \<Rightarrow> 'h \<Rightarrow> 'w \<Rightarrow> 'w res) \<Rightarrow> (int \<Rightarrow> byte list \<Rightarrow> 'w \<Rightarrow> 'w res) \<Rightarrow>
   ('w \<Rightarrow> 'w res) \<times> u64 \<Rightarrow> 'w \<Rightarrow> 'w res" where
  "uv_iteration get put call wcb input w =
     then_do (fst input w) (\<lambda>w.
     then_do (uv__run_closing_handles get put call wcb w) (\<lambda>w.
       uv__run_timers get put call (put (uv__update_time (snd input) (get w)) w)))"

fun uv_run_loop ::
  "('w \<Rightarrow> ('h, 'cb, 'd) uv_loop) \<Rightarrow> (('h, 'cb, 'd) uv_loop \<Rightarrow> 'w \<Rightarrow> 'w) \<Rightarrow>
   ('cb \<Rightarrow> 'h \<Rightarrow> 'w \<Rightarrow> 'w res) \<Rightarrow> (int \<Rightarrow> byte list \<Rightarrow> 'w \<Rightarrow> 'w res) \<Rightarrow>
   bool \<Rightarrow> (('w \<Rightarrow> 'w res) \<times> u64) list \<Rightarrow> 'w \<Rightarrow> (bool \<times> 'w) res" where
  "uv_run_loop get put call wcb r inputs w =
     (if \<not> r \<or> stop_flag (get w)
      then Ret (True, put ((get w)\<lparr>stop_flag := False\<rparr>) w)
      else case inputs of
        [] \<Rightarrow> Ret (False, w)
      | i # is \<Rightarrow> then_do (uv_iteration get put call wcb i w) (\<lambda>w.
          uv_run_loop get put call wcb (uv__loop_alive (get w)) is w))"

declare uv_run_loop.simps [simp del]

text \<open>\<open>uv_run\<close> in the default mode, entered at time \<open>now\<close>.\<close>

definition uv_run ::
  "('w \<Rightarrow> ('h, 'cb, 'd) uv_loop) \<Rightarrow> (('h, 'cb, 'd) uv_loop \<Rightarrow> 'w \<Rightarrow> 'w) \<Rightarrow>
   ('cb \<Rightarrow> 'h \<Rightarrow> 'w \<Rightarrow> 'w res) \<Rightarrow> (int \<Rightarrow> byte list \<Rightarrow> 'w \<Rightarrow> 'w res) \<Rightarrow>
   u64 \<Rightarrow> (('w \<Rightarrow> 'w res) \<times> u64) list \<Rightarrow> 'w \<Rightarrow> (bool \<times> 'w) res" where
  "uv_run get put call wcb now inputs w =
     (let r = uv__loop_alive (get w);
          w' = (if \<not> r \<or> \<not> stop_flag (get w) then put (uv__update_time now (get w)) w else w) in
        then_do (if r \<and> \<not> stop_flag (get w) then uv__run_timers get put call w' else Ret w')
          (uv_run_loop get put call wcb r inputs))"

end
