(* ===== verification/Server.thy ===== *)
theory Server
  imports Server_State Uv_Run
begin

text \<open>
  The handlers of \<open>ge/src/server.c\<close>, one definition each: the idle timer, new connections, the read
  callback with its receive loop, the close callback, start and stop; then the dispatch of the
  loop's callbacks to them.
\<close>

definition IDLE_TIMEOUT_MS :: u64 where "IDLE_TIMEOUT_MS = 300000"

text \<open>The cast of \<open>handle->data\<close> to a client; casting the server context would be a wild read.\<close>

definition data_client :: "udata option \<Rightarrow> nat option res" where
  "data_client d =
     (case d of
        None \<Rightarrow> Ret None
      | Some (ClientPtr a) \<Rightarrow> Ret (Some a)
      | Some CtxPtr \<Rightarrow> Fault OutOfBounds)"

text \<open>Following \<open>client->server\<close>.\<close>

definition server_of :: "client_t \<Rightarrow> 'a res \<Rightarrow> 'a res" where
  "server_of c r = (if server_set c then r else Fault NullDeref)"

lemma server_of_cong [fundef_cong]:
  "c = c' \<Longrightarrow> (server_set c' \<Longrightarrow> r = r') \<Longrightarrow> server_of c r = server_of c' r'"
  by (simp add: server_of_def)

section \<open>The idle timer\<close>

definition on_idle_timeout :: "hid \<Rightarrow> 'l server \<Rightarrow> 'l server res" where
  "on_idle_timeout timer w =
     deref (handles (uv w) timer) (\<lambda>x.
     then_do (data_client (hdata x)) (\<lambda>client.
     then_do (is_client_valid w client) (\<lambda>v.
     case client of
       None \<Rightarrow> Ret w
     | Some a \<Rightarrow>
       if \<not> v then Ret w
       else deref (client_mem w a) (\<lambda>c. server_of c
         (if IDLE_TIMEOUT_MS \<le> uv_now (uv w) - last_activity c
          then
            then_do (on_loop (\<lambda>L. uv_timer_stop L (IdleTimer a))
                (emit (Stderr ''Client timeout, closing connection'') w)) (\<lambda>w.
            then_do (uv_is_closing (uv w) (ClientHandle a)) (\<lambda>closing.
              if closing then Ret w
              else on_loop (\<lambda>L. uv_close L (ClientHandle a) (Some On_client_close)) w))
          else Ret w)))))"

section \<open>The client array\<close>

text \<open>
  \<open>realloc\<close> to the doubled capacity, its new slots uninitialised (\<open>None\<close>). Capacities stay far
  below the range of \<open>int\<close>.
\<close>

definition grow_clients :: "bool \<Rightarrow> 'l server \<Rightarrow> bool \<times> 'l server" where
  "grow_clients realloc_ok w =
     (if client_capacity w \<le> client_count w
      then let new_capacity =
             (if client_capacity w \<noteq> 0 then client_capacity w * 2 else INITIAL_CLIENT_CAPACITY) in
        if \<not> realloc_ok then (False, w)
        else (True, w\<lparr>clients := clients w @ replicate (nat new_capacity - length (clients w)) None,
                      client_capacity := new_capacity\<rparr>)
      else (True, w))"

definition write_slot :: "int \<Rightarrow> nat \<Rightarrow> 'l server \<Rightarrow> 'l server res" where
  "write_slot i a w =
     (if 0 \<le> i \<and> nat i < length (clients w)
      then Ret (w\<lparr>clients := (clients w)[nat i := Some a]\<rparr>)
      else Fault OutOfBounds)"

definition read_slot :: "int \<Rightarrow> 'l server \<Rightarrow> nat res" where
  "read_slot i w =
     (if 0 \<le> i \<and> nat i < length (clients w)
      then (case clients w ! nat i of None \<Rightarrow> Fault NullDeref | Some a \<Rightarrow> Ret a)
      else Fault OutOfBounds)"

definition add_client :: "nat \<Rightarrow> 'l server \<Rightarrow> 'l server res" where
  "add_client a w =
     deref (client_mem w a) (\<lambda>c.
     then_do (write_slot (client_count w) a (set_client w a (c\<lparr>array_index := client_count w\<rparr>)))
       (\<lambda>w. Ret (w\<lparr>client_count := client_count w + 1\<rparr>)))"

definition remove_client :: "nat \<Rightarrow> 'l server \<Rightarrow> 'l server res" where
  "remove_client a w =
     deref (client_mem w a) (\<lambda>c.
       if 0 \<le> array_index c \<and> array_index c < client_count w
       then let idx = array_index c; last_idx = client_count w - 1 in
         then_do
           (if idx \<noteq> last_idx
            then then_do (read_slot last_idx w) (\<lambda>b.
                 then_do (write_slot idx b w) (\<lambda>w.
                 deref (client_mem w b) (\<lambda>cb. Ret (set_client w b (cb\<lparr>array_index := idx\<rparr>)))))
            else Ret w)
           (\<lambda>w. Ret (w\<lparr>client_count := client_count w - 1\<rparr>))
       else Ret w)"

definition drop_count :: "'l server \<Rightarrow> 'l server" where
  "drop_count w = w\<lparr>client_count := client_count w - 1\<rparr>"

section \<open>New connections\<close>

definition set_data :: "hid \<Rightarrow> udata \<Rightarrow> server_loop \<Rightarrow> server_loop res" where
  "set_data h d L = deref (handles L h) (\<lambda>x. Ret (set_handle L h (x\<lparr>hdata := Some d\<rparr>)))"

text \<open>
  The outcomes of the calls that depend on the environment: \<open>status\<close>, \<open>malloc\<close> (the address of the
  client), \<open>uv_accept\<close>, \<open>realloc\<close>, and the platform part of \<open>uv_read_start\<close>.
\<close>

record accept_env =
  conn_status :: int
  new_addr :: "nat option"
  open_rc :: int
  realloc_ok :: bool
  read_start_rc :: int

definition close_client_handle :: "nat \<Rightarrow> 'l server \<Rightarrow> 'l server res" where
  "close_client_handle a w = on_loop (\<lambda>L. uv_close L (ClientHandle a) (Some On_client_close)) w"

definition close_idle_timer :: "nat \<Rightarrow> 'l server \<Rightarrow> 'l server res" where
  "close_idle_timer a w = on_loop (\<lambda>L. uv_close L (IdleTimer a) None) w"

text \<open>The client structure as \<open>on_new_connection\<close> fills it in, before it is in the array.\<close>

definition fresh_client :: "u64 \<Rightarrow> client_t" where
  "fresh_client now =
     zero_client\<lparr>server_set := True, magic := CLIENT_MAGIC, is_valid := True, last_activity := now\<rparr>"

text \<open>The part of \<open>on_new_connection\<close> after the client entered the array (lines 124--171).\<close>

definition start_client :: "accept_env \<Rightarrow> nat \<Rightarrow> 'l server \<Rightarrow> 'l server res" where
  "start_client env a w =
     then_do (on_loop (set_data (ClientHandle a) (ClientPtr a)) w) (\<lambda>w.
     then_do (on_loop_rc (\<lambda>L. uv_timer_init L (IdleTimer a)) w) (\<lambda>(r, w).
     if r \<noteq> 0 then
       then_do (invalidate_client a (drop_count (emit (Stderr ''uv_timer_init failed'') w)))
         (close_client_handle a)
     else
       then_do (on_loop (set_data (IdleTimer a) (ClientPtr a)) w) (\<lambda>w.
       then_do (on_loop_rc (\<lambda>L. uv_timer_start L (IdleTimer a) (Some On_idle_timeout) 60000 60000) w)
         (\<lambda>(r, w).
       if r \<noteq> 0 then
         then_do (invalidate_client a (drop_count (emit (Stderr ''uv_timer_start failed'') w))) (\<lambda>w.
         then_do (close_idle_timer a w) (close_client_handle a))
       else
         then_do (on_loop_rc (\<lambda>L. uv_read_start L (ClientHandle a) (read_start_rc env)) w)
           (\<lambda>(r, w).
         if r \<noteq> 0 then
           then_do (on_loop (\<lambda>L. uv_timer_stop L (IdleTimer a))
               (drop_count (emit (Stderr ''uv_read_start failed'') w))) (\<lambda>w.
           then_do (invalidate_client a w) (\<lambda>w.
           then_do (close_idle_timer a w) (close_client_handle a)))
         else
           call_lua (CallConnect a)
             (map_option (\<lambda>f. f a) (on_client_connect (script w) (lua w))) w)))))"

definition on_new_connection :: "accept_env \<Rightarrow> 'l server \<Rightarrow> 'l server res" where
  "on_new_connection env w =
     (if conn_status env < 0 then Ret (emit (Stderr ''New connection error'') w)
      else case new_addr env of
        None \<Rightarrow> Ret (emit (Stderr ''Memory allocation failed'') w)
      | Some a \<Rightarrow>
        let w = alloc_client a (fresh_client (uv_now (uv w))) w in
        then_do (on_loop_rc (\<lambda>L. uv_tcp_init L (ClientHandle a)) w) (\<lambda>(r, w).
        if r \<noteq> 0 then free_client a (emit (Stderr ''uv_tcp_init failed'') w)
        else
          then_do (on_loop_rc (\<lambda>L. uv_accept L (ClientHandle a) (open_rc env)) w) (\<lambda>(r, w).
          if r = 0 then
            case grow_clients (realloc_ok env) w of (grown, w) \<Rightarrow>
              if \<not> grown then
                then_do (invalidate_client a (emit (Stderr ''Client list realloc failed'') w))
                  (close_client_handle a)
              else then_do (add_client a w) (start_client env a)
          else then_do (invalidate_client a w) (close_client_handle a))))"

section \<open>Reading\<close>

definition process_message :: "nat \<Rightarrow> byte list \<Rightarrow> 'l server \<Rightarrow> 'l server res" where
  "process_message a data w =
     then_do (is_client_valid w (Some a)) (\<lambda>v.
       if \<not> v then Ret w
       else deref (client_mem w a) (\<lambda>c. server_of c
         (then_do (update_client_activity a w) (\<lambda>w.
            call_lua (CallData a data)
              (map_option (\<lambda>f. f a data) (on_client_data (script w) (lua w))) w))))"

text \<open>Shutting the connection down after a bad length or a read error.\<close>

definition drop_connection :: "hid \<Rightarrow> nat \<Rightarrow> nat option \<Rightarrow> 'l server \<Rightarrow> 'l server res" where
  "drop_connection stream a buf w =
     then_do (invalidate_client a w) (\<lambda>w.
     then_do (on_loop (\<lambda>L. uv_timer_stop L (IdleTimer a)) w) (\<lambda>w.
     then_do (on_loop (\<lambda>L. uv_close L stream (Some On_client_close)) w) (free_buf buf)))"

text \<open>
  The loop of \<open>on_read\<close> (lines 234--293) on the bytes \<open>data\<close> it has not consumed yet. A round is
  \<open>rx_iter\<close>; the client is read again in every round, as its callback may have changed it.
\<close>

definition reset_client :: "nat \<Rightarrow> 'l server \<Rightarrow> 'l server res" where
  "reset_client a w = deref (client_mem w a) (\<lambda>c. Ret (set_client w a (rx_reset c)))"

definition rx_stage :: "nat \<Rightarrow> 'l server \<Rightarrow> nat" where
  "rx_stage a w =
     (case client_mem w a of
        None \<Rightarrow> 0
      | Some c \<Rightarrow> if buffer_used c < MESSAGE_HEADER_SIZE then 0 else 1)"

lemma rx_stage_reset: "reset_client a w = Ret w' \<Longrightarrow> rx_stage a w' = 0"
  by (auto simp: reset_client_def rx_stage_def set_client_def rx_reset_def MESSAGE_HEADER_SIZE_def
      elim!: res_elims)

function on_read_loop :: "hid \<Rightarrow> nat \<Rightarrow> nat option \<Rightarrow> byte list \<Rightarrow> 'l server \<Rightarrow> 'l server res" where
  "on_read_loop stream a buf data w =
     (if data = [] then free_buf buf w
      else deref (client_mem w a) (\<lambda>c.
        case rx_iter (host_le w) c data of
          Fault e \<Rightarrow> Fault e
        | Ret (c', n, RxContinue) \<Rightarrow> on_read_loop stream a buf (drop n data) (set_client w a c')
        | Ret (c', n, RxBadLength k) \<Rightarrow>
            drop_connection stream a buf (emit (Stderr ''Invalid message length'') (set_client w a c'))
        | Ret (c', n, RxMessage m) \<Rightarrow>
            then_do (process_message a m (set_client w a c')) (\<lambda>w'.
            then_do (reset_client a w') (on_read_loop stream a buf (drop n data)))))"
  by pat_completeness auto
termination
proof (relation "measures [\<lambda>(stream, a, buf, data, w). length data,
    \<lambda>(stream, a, buf, data, w). rx_stage a w]",
    goal_cases)
  case 1
  then show ?case by simp
next
  case (2 stream a buf data w c p c' q n ev)
  then have "rx_iter (host_le w) c data = Ret (c', n, RxContinue)" by auto
  then show ?case using rx_iter_progress [of "host_le w" c data c' n RxContinue] 2 by auto
next
  case (3 stream a buf data w c p c' q n ev m w1 w2)
  then have "rx_iter (host_le w) c data = Ret (c', n, RxMessage m)" and "client_mem w a = Some c"
    by (auto simp: deref_def split: option.splits)
  then show ?case
    using rx_iter_progress [of "host_le w" c data c' n "RxMessage m"] rx_stage_reset 3
    by (auto simp: rx_stage_def)
qed

declare on_read_loop.simps [simp del]

definition on_read :: "hid \<Rightarrow> read_result \<Rightarrow> nat option \<Rightarrow> 'l server \<Rightarrow> 'l server res" where
  "on_read stream nread buf w =
     deref (handles (uv w) stream) (\<lambda>x.
     then_do (data_client (hdata x)) (\<lambda>client.
     then_do (is_client_valid w client) (\<lambda>v.
     case client of
       None \<Rightarrow> free_buf buf w
     | Some a \<Rightarrow>
       if \<not> v then free_buf buf w
       else case nread of
         ReadError e \<Rightarrow>
           drop_connection stream a buf (if e \<noteq> UV_EOF then emit (Stderr ''Read error'') w else w)
       | ReadData data \<Rightarrow>
           if data = [] then free_buf buf w
           else then_do (update_client_activity a w) (on_read_loop stream a buf data))))"

text \<open>The buffers of reads in progress have distinct addresses; any unused one will do.\<close>

definition alloc_buffer :: "nat \<Rightarrow> 'l server \<Rightarrow> (nat option \<times> nat) \<times> 'l server" where
  "alloc_buffer suggested_size w =
     (case next_malloc w of (ok, w) \<Rightarrow>
        if \<not> ok then ((None, 0), w)
        else let b = Suc (fold max (read_bufs w) 0) in
          ((Some b, if 65536 < suggested_size then suggested_size else 65536),
           w\<lparr>read_bufs := b # read_bufs w\<rparr>))"

section \<open>Closing\<close>

definition on_client_close :: "hid \<Rightarrow> 'l server \<Rightarrow> 'l server res" where
  "on_client_close handle w =
     deref (handles (uv w) handle) (\<lambda>x.
     then_do (data_client (hdata x)) (\<lambda>client.
     case client of
       None \<Rightarrow> Ret w
     | Some a \<Rightarrow>
       deref (client_mem w a) (\<lambda>c.
       then_do
         (if magic c = CLIENT_MAGIC
          then server_of c (call_lua (CallDisconnect a)
                 (map_option (\<lambda>f. f a) (on_client_disconnect (script w) (lua w))) w)
          else Ret w) (\<lambda>w.
       then_do (remove_client a w) (\<lambda>w.
       then_do (invalidate_client a w) (\<lambda>w.
       then_do (uv_is_closing (uv w) (IdleTimer a)) (\<lambda>closing.
       then_do (if \<not> closing then close_idle_timer a w else Ret w)
         (free_client a))))))))"

definition on_server_close :: "hid \<Rightarrow> 'l server \<Rightarrow> 'l server res" where
  "on_server_close handle w = Ret w"

definition run_callback :: "server_cb \<Rightarrow> hid \<Rightarrow> 'l server \<Rightarrow> 'l server res" where
  "run_callback cb h w =
     (case cb of
        On_idle_timeout \<Rightarrow> on_idle_timeout h w
      | On_client_close \<Rightarrow> on_client_close h w
      | On_server_close \<Rightarrow> on_server_close h w)"

section \<open>Starting and stopping\<close>

text \<open>The loop over the client array: slots 0 up to the count, which no round changes.\<close>

fun stop_clients :: "int list \<Rightarrow> 'l server \<Rightarrow> 'l server res" where
  "stop_clients [] w = Ret w"
| "stop_clients (i # is) w =
     then_do (read_slot i w) (\<lambda>a.
     then_do (is_client_valid w (Some a)) (\<lambda>v.
     then_do
       (if v then
          then_do (invalidate_client a w) (\<lambda>w.
          then_do (on_loop (\<lambda>L. uv_timer_stop L (IdleTimer a)) w) (close_client_handle a))
        else Ret w)
       (stop_clients is)))"

definition server_stop :: "'l server \<Rightarrow> 'l server res" where
  "server_stop w =
     then_do (uv_is_closing (uv w) ServerHandle) (\<lambda>closing.
     then_do (if \<not> closing
              then on_loop (\<lambda>L. uv_close L ServerHandle (Some On_server_close)) w else Ret w) (\<lambda>w.
     then_do (stop_clients [0..client_count w - 1] w) (\<lambda>w.
       call_lua CallStop (on_server_stop (script w) (lua w)) w)))"

text \<open>
  \<open>server_start\<close>: listen, tell the script, run the loop at time \<open>now\<close> on the given inputs. The
  result is \<open>Some (-1)\<close> when listening fails, \<open>Some r\<close> with the result of \<open>uv_run\<close> when the loop
  returned, \<open>None\<close> while it is still running when the inputs end.
\<close>

definition server_start ::
  "int \<Rightarrow> u64 \<Rightarrow> (('l server \<Rightarrow> 'l server res) \<times> u64) list \<Rightarrow> 'l server \<Rightarrow>
   (int option \<times> 'l server) res" where
  "server_start listen_rc now inputs w =
     then_do (on_loop_rc (\<lambda>L. uv_listen L ServerHandle listen_rc) w) (\<lambda>(r, w).
       if r \<noteq> 0 then Ret (Some (- 1), emit (Stderr ''Listen failed'') w)
       else
         then_do (call_lua CallStart (on_server_start (script w) (lua w)) w) (\<lambda>w.
         then_do (uv_run uv set_uv run_callback on_write_done now inputs w) (\<lambda>(returned, w).
           Ret (if returned then Some (if uv__loop_alive (uv w) then 1 else 0) else None, w))))"

section \<open>The server as a transition system\<close>

text \<open>
  What the loop runs of the server: an accepted connection, a poll of a readable client, a
  completed write, a pass over the closing handles, a pass over the timers at a new time, a stop
  by the signal handler.
\<close>

datatype server_event =
    Accept accept_env
  | Readable nat "kernel_read list"
  | WriteComplete nat int
  | RunClosing
  | RunTimers u64
  | Stop

definition handle_event :: "server_event \<Rightarrow> 'l server \<Rightarrow> 'l server res" where
  "handle_event e w =
     (case e of
        Accept env \<Rightarrow> on_new_connection env w
      | Readable a ks \<Rightarrow> uv__read uv set_uv (\<lambda>h. alloc_buffer) on_read (ClientHandle a) (take 32 ks) w
      | WriteComplete a status \<Rightarrow>
          uv__write_complete uv set_uv on_write_done status (ClientHandle a) w
      | RunClosing \<Rightarrow> uv__run_closing_handles uv set_uv run_callback on_write_done w
      | RunTimers now \<Rightarrow>
          uv__run_timers uv set_uv run_callback (set_uv (uv__update_time now (uv w)) w)
      | Stop \<Rightarrow> server_stop w)"

fun run_events :: "server_event list \<Rightarrow> 'l server \<Rightarrow> 'l server res" where
  "run_events [] w = Ret w"
| "run_events (e # es) w = then_do (handle_event e w) (run_events es)"

text \<open>
  When the loop delivers an event: reads and writes only for a live client whose stream is open,
  a connection only to an address \<open>malloc\<close> may return.
\<close>

fun enabled :: "server_event \<Rightarrow> 'l server \<Rightarrow> bool" where
  "enabled (Accept env) w =
     (case new_addr env of None \<Rightarrow> True | Some a \<Rightarrow> client_mem w a = None)"
| "enabled (Readable a ks) w =
     (case handles (uv w) (ClientHandle a) of None \<Rightarrow> False | Some x \<Rightarrow> fd_open x \<and> f_reading x)"
| "enabled (WriteComplete a st) w =
     (case handles (uv w) (ClientHandle a) of None \<Rightarrow> False | Some x \<Rightarrow> fd_open x)"
| "enabled RunClosing w = True"
| "enabled (RunTimers now) w = (loop_time (uv w) \<le> now)"
| "enabled Stop w = True"

inductive server_step :: "'l server \<Rightarrow> 'l server \<Rightarrow> bool" where
  step: "enabled e w \<Longrightarrow> handle_event e w = Ret w' \<Longrightarrow> server_step w w'"

inductive reachable :: "'l server \<Rightarrow> 'l server \<Rightarrow> bool" for w0 where
  reachable_init: "reachable w0 w0"
| reachable_step: "reachable w0 w \<Longrightarrow> server_step w w' \<Longrightarrow> reachable w0 w'"

inductive_cases server_stepE: "server_step w w'"

text \<open>The server just after \<open>server_init\<close>, before it listens.\<close>

definition initial_loop :: "u64 \<Rightarrow> server_loop" where
  "initial_loop now =
     \<lparr>handles = [ServerHandle \<mapsto> zero_handle\<lparr>htype := UV_TCP, f_ref := True, fd_open := True,
        hdata := Some CtxPtr\<rparr>], loop_time = now, timer_heap = [], timer_counter = 0,
      ready_queue = [], closing_handles = [], detached = [], handle_queue = [ServerHandle], active_handles = 0,
      active_reqs = 0, write_queue = [], stop_flag = False\<rparr>"

definition initial_server :: "u64 \<Rightarrow> bool \<Rightarrow> 'l script \<Rightarrow> 'l \<Rightarrow> 'l server" where
  "initial_server now le scr l =
     \<lparr>uv = initial_loop now, client_mem = Map.empty, clients = [], client_count = 0,
      client_capacity = 0, lua = l, script = scr, host_le = le, mallocs = [], live_writes = 0,
      read_bufs = [], trace = []\<rparr>"

end
