(* ===== verification/Server_Registry.thy ===== *)
theory Server_Registry
  imports Server
begin

text \<open>
  The client array of the server context as a set. A client remembers its slot in \<open>array_index\<close>, so
  removal takes constant time: the last client moves to the freed slot. \<open>registry_ok\<close> is the
  invariant that makes this work; the locale \<open>indexed_set\<close> states the contract, and the
  interpretation at the end discharges it for \<open>add_client\<close> and \<open>remove_client\<close>.
\<close>

section \<open>The contract\<close>

locale indexed_set =
  fixes add :: "'e \<Rightarrow> 's \<Rightarrow> 's res" and rem :: "'e \<Rightarrow> 's \<Rightarrow> 's res"
    and members :: "'s \<Rightarrow> 'e set" and inv :: "'s \<Rightarrow> bool" and room :: "'e \<Rightarrow> 's \<Rightarrow> bool"
  assumes add_law: "inv s \<Longrightarrow> room e s \<Longrightarrow>
      \<exists>s'. add e s = Ret s' \<and> inv s' \<and> members s' = insert e (members s)"
    and rem_law: "inv s \<Longrightarrow> e \<in> members s \<Longrightarrow>
      \<exists>s'. rem e s = Ret s' \<and> inv s' \<and> members s' = members s - {e}"
    and room_new: "inv s \<Longrightarrow> room e s \<Longrightarrow> e \<notin> members s"
begin

primrec rem_all :: "'e list \<Rightarrow> 's \<Rightarrow> 's res" where
  "rem_all [] s = Ret s"
| "rem_all (e # es) s = then_do (rem e s) (rem_all es)"

text \<open>Members leave in any order, and only they leave.\<close>

lemma rem_all_ok:
  "inv s \<Longrightarrow> distinct es \<Longrightarrow> set es \<subseteq> members s \<Longrightarrow>
     \<exists>s'. rem_all es s = Ret s' \<and> inv s' \<and> members s' = members s - set es"
proof (induction es arbitrary: s)
  case Nil
  then show ?case by simp
next
  case (Cons e es)
  obtain s1 where s1: "rem e s = Ret s1" "inv s1" "members s1 = members s - {e}"
    using rem_law [OF Cons.prems(1), of e] Cons.prems(3) by (metis insert_subset list.simps(15))
  have "set es \<subseteq> members s1" using Cons.prems s1(3) by auto
  then obtain s' where "rem_all es s1 = Ret s'" "inv s'" "members s' = members s1 - set es"
    using Cons.IH [OF s1(2)] Cons.prems(2) by auto
  then show ?case using s1 by auto
qed

text \<open>Removing the newest member undoes its addition.\<close>

lemma rem_add:
  assumes "inv s" and "room e s"
  shows "\<exists>s1 s2. add e s = Ret s1 \<and> rem e s1 = Ret s2 \<and> inv s2 \<and> members s2 = members s"
proof -
  obtain s1 where s1: "add e s = Ret s1" "inv s1" "members s1 = insert e (members s)"
    using add_law [OF assms] by blast
  then obtain s2 where "rem e s1 = Ret s2" "inv s2" "members s2 = members s1 - {e}"
    using rem_law [of s1 e] by auto
  then show ?thesis using s1 room_new [OF assms] by auto
qed

end

section \<open>The array\<close>

definition registry_ok :: "'l server \<Rightarrow> bool" where
  "registry_ok w \<longleftrightarrow>
     0 \<le> client_count w \<and> client_count w \<le> client_capacity w \<and>
     client_capacity w = int (length (clients w)) \<and>
     (\<forall>i < nat (client_count w). \<exists>a c. clients w ! i = Some a \<and> client_mem w a = Some c \<and>
        array_index c = int i)"

definition registered :: "'l server \<Rightarrow> nat set" where
  "registered w = {a. Some a \<in> set (take (nat (client_count w)) (clients w))}"

definition has_room :: "nat \<Rightarrow> 'l server \<Rightarrow> bool" where
  "has_room a w \<longleftrightarrow>
     client_mem w a \<noteq> None \<and> a \<notin> registered w \<and> client_count w < client_capacity w"

lemma registry_slot:
  assumes "registry_ok w" and "client_count w = int n" and "i < n"
  shows "\<exists>a c. clients w ! i = Some a \<and> client_mem w a = Some c \<and> array_index c = int i"
  using assms unfolding registry_ok_def by (simp only: nat_int)

text \<open>The registry only depends on the array, its bounds and the slots clients remember.\<close>

lemma registry_ok_frame:
  assumes "registry_ok w" and "clients w' = clients w" and "client_count w' = client_count w"
    and "client_capacity w' = client_capacity w"
    and "\<And>a c. a \<in> registered w \<Longrightarrow> client_mem w a = Some c \<Longrightarrow>
           \<exists>c'. client_mem w' a = Some c' \<and> array_index c' = array_index c"
  shows "registry_ok w'" and "registered w' = registered w"
proof -
  show "registered w' = registered w" using assms by (simp add: registered_def)
  have len: "nat (client_count w) \<le> length (clients w)"
    using assms(1) by (auto simp: registry_ok_def)
  have "\<exists>a c. clients w' ! i = Some a \<and> client_mem w' a = Some c \<and> array_index c = int i"
    if i: "i < nat (client_count w')" for i
  proof -
    obtain a c where a: "clients w ! i = Some a" "client_mem w a = Some c" "array_index c = int i"
      using assms(1,3) i unfolding registry_ok_def by auto
    have "i < length (take (nat (client_count w)) (clients w))" using i len assms(3) by simp
    then have "take (nat (client_count w)) (clients w) ! i \<in> set (take (nat (client_count w)) (clients w))"
      by (rule nth_mem)
    then have "a \<in> registered w" using a i assms(3) by (simp add: registered_def)
    then show ?thesis using assms(5) [OF _ a(2)] a assms(2) by metis
  qed
  then show "registry_ok w'" using assms(1-4) by (simp add: registry_ok_def)
qed

lemma registered_iff:
  assumes "registry_ok w"
  shows "a \<in> registered w \<longleftrightarrow> (\<exists>i < nat (client_count w). clients w ! i = Some a)"
proof -
  have "nat (client_count w) \<le> length (clients w)" using assms by (auto simp: registry_ok_def)
  then show ?thesis
    by (auto simp: registered_def in_set_conv_nth)
qed

lemma registered_slot:
  assumes "registry_ok w" and "a \<in> registered w"
  obtains c where "client_mem w a = Some c" and "0 \<le> array_index c"
    and "array_index c < client_count w" and "clients w ! nat (array_index c) = Some a"
proof -
  obtain i where i: "i < nat (client_count w)" "clients w ! i = Some a"
    using assms registered_iff by blast
  obtain a' c where "clients w ! i = Some a'" "client_mem w a' = Some c" "array_index c = int i"
    using assms(1) i(1) unfolding registry_ok_def by blast
  then show thesis using that [of c] i by auto
qed

section \<open>Growing\<close>

lemma grow_clients_fail: "grow_clients ok w = (False, w') \<Longrightarrow> w' = w \<and> \<not> ok"
  by (auto simp: grow_clients_def Let_def split: if_splits)

lemma grow_clients_succeeds:
  "ok \<or> client_count w < client_capacity w \<Longrightarrow> \<exists>w'. grow_clients ok w = (True, w')"
  by (auto simp: grow_clients_def Let_def)

text \<open>A successful growth leaves a free slot and keeps the clients that are there.\<close>

lemma grow_clients_ok:
  assumes ok: "registry_ok w" and g: "grow_clients r w = (True, w')"
  shows "registry_ok w'" and "registered w' = registered w"
    and "client_count w' < client_capacity w'" and "client_count w' = client_count w"
    and "\<exists>cs k. w' = w\<lparr>clients := cs, client_capacity := k\<rparr>"
proof -
  have len: "nat (client_count w) \<le> length (clients w)" "0 \<le> client_count w"
    using ok by (auto simp: registry_ok_def)
  define n where
    "n = (if client_capacity w \<noteq> 0 then client_capacity w * 2 else INITIAL_CLIENT_CAPACITY)"
  have "client_capacity w < n" if "0 \<le> client_capacity w"
    using that by (simp add: n_def INITIAL_CLIENT_CAPACITY_def)
  then have n: "client_capacity w < n" using ok by (simp add: registry_ok_def)
  consider (same) "client_count w < client_capacity w" "w' = w"
    | (grown) "client_capacity w \<le> client_count w"
        "w' = w\<lparr>clients := clients w @ replicate (nat n - length (clients w)) None,
                client_capacity := n\<rparr>"
  proof (cases "client_capacity w \<le> client_count w")
    case True
    then have "w' = w\<lparr>clients := clients w @ replicate (nat n - length (clients w)) None,
                client_capacity := n\<rparr>"
      using g unfolding grow_clients_def n_def Let_def by (auto split: if_splits)
    then show thesis by (rule that(2) [OF True])
  next
    case False
    then have "w' = w" using g by (simp add: grow_clients_def)
    then show thesis using False by (intro that(1)) simp
  qed
  then have "registry_ok w' \<and> registered w' = registered w \<and> client_count w' < client_capacity w' \<and>
      client_count w' = client_count w \<and> (\<exists>cs k. w' = w\<lparr>clients := cs, client_capacity := k\<rparr>)"
  proof cases
    case same
    have "w = w\<lparr>clients := clients w, client_capacity := client_capacity w\<rparr>" by simp
    then show ?thesis using ok same by blast
  next
    case grown
    have "nat (client_count w') = nat (client_count w)" by (simp add: grown(2))
    moreover have "registered w' = registered w" using len by (simp add: grown(2) registered_def)
    moreover have "registry_ok w'"
      using ok len n grown(1) by (simp add: registry_ok_def grown(2) nth_append)
    ultimately show ?thesis using n grown ok by (auto simp: registry_ok_def)
  qed
  then show "registry_ok w'" "registered w' = registered w" "client_count w' < client_capacity w'"
    "client_count w' = client_count w" "\<exists>cs k. w' = w\<lparr>clients := cs, client_capacity := k\<rparr>"
    by blast+
qed

section \<open>Adding and removing\<close>

lemma add_client_ok:
  assumes ok: "registry_ok w" and room: "has_room a w"
  shows "\<exists>w'. add_client a w = Ret w' \<and> registry_ok w' \<and> registered w' = insert a (registered w)"
proof -
  obtain c where c: "client_mem w a = Some c" using room by (auto simp: has_room_def)
  define n where "n = nat (client_count w)"
  have n: "client_count w = int n" "n < length (clients w)"
    using ok room by (auto simp: registry_ok_def has_room_def n_def)
  define w' where "w' = (set_client w a (c\<lparr>array_index := int n\<rparr>))
      \<lparr>clients := (clients w)[n := Some a], client_count := int (Suc n)\<rparr>"
  have run: "add_client a w = Ret w'"
    using c n by (simp add: add_client_def write_slot_def set_client_def w'_def)
  have other: "clients w ! i \<noteq> Some a" if "i < n" for i
    using room that registered_iff [OF ok, of a] n(1) by (auto simp: has_room_def)
  have slots: "\<exists>b d. clients w' ! i = Some b \<and> client_mem w' b = Some d \<and> array_index d = int i"
    if "i < Suc n" for i
  proof (cases "i = n")
    case True
    then show ?thesis using n(2) by (simp add: w'_def set_client_def)
  next
    case False
    then have i: "i < n" using that by simp
    then obtain b d where "clients w ! i = Some b" "client_mem w b = Some d" "array_index d = int i"
      using ok n(1) unfolding registry_ok_def by auto
    then show ?thesis using other [OF i] i by (auto simp: w'_def set_client_def)
  qed
  have "registry_ok w'"
    using ok n slots by (simp add: registry_ok_def w'_def nat_add_distrib set_client_def)
  moreover have "registered w' = insert a (registered w)"
  proof -
    have "nat (client_count w') = Suc n" by (simp add: w'_def)
    moreover have "take (Suc n) ((clients w)[n := Some a]) = take n (clients w) @ [Some a]"
      using n(2) by (simp add: take_Suc_conv_app_nth)
    ultimately show ?thesis by (auto simp: registered_def w'_def set_client_def n(1))
  qed
  ultimately show ?thesis using run by blast
qed

text \<open>Removal: the last client takes over the slot of the removed one, or is it.\<close>

lemma remove_client_last:
  assumes ok: "registry_ok w" and c: "client_mem w a = Some c" and "clients w ! n = Some a"
    and n: "client_count w = int (Suc n)" "array_index c = int n"
  shows "remove_client a w = Ret (w\<lparr>client_count := int n\<rparr>)"
    and "registry_ok (w\<lparr>client_count := int n\<rparr>)"
    and "registered (w\<lparr>client_count := int n\<rparr>) = registered w - {a}"
proof -
  have len: "Suc n \<le> length (clients w)" using ok n(1) by (auto simp: registry_ok_def)
  show "remove_client a w = Ret (w\<lparr>client_count := int n\<rparr>)"
    using c n by (simp add: remove_client_def)
  show ok': "registry_ok (w\<lparr>client_count := int n\<rparr>)"
    using ok n(1) by (simp add: registry_ok_def)
  have "i = n" if i: "clients w ! i = Some a" "i < Suc n" for i
  proof -
    obtain b d where "clients w ! i = Some b" "client_mem w b = Some d" "array_index d = int i"
      using registry_slot [OF ok n(1) i(2)] by blast
    then show ?thesis using i(1) c n(2) by simp
  qed
  then have "b \<in> registered (w\<lparr>client_count := int n\<rparr>) \<longleftrightarrow> b \<in> registered w - {a}" for b
    using registered_iff [OF ok, of b] registered_iff [OF ok', of b] assms(3)
    unfolding n(1) nat_int by (auto simp: less_Suc_eq)
  then show "registered (w\<lparr>client_count := int n\<rparr>) = registered w - {a}" by blast
qed

lemma remove_client_middle:
  assumes ok: "registry_ok w" and c: "client_mem w a = Some c" and a: "clients w ! k = Some a"
    and n: "client_count w = int (Suc n)" "array_index c = int k" "k < n"
    and b: "clients w ! n = Some b" "client_mem w b = Some d" "array_index d = int n"
    and w': "w' = (set_client w b (d\<lparr>array_index := int k\<rparr>))
        \<lparr>clients := (clients w)[k := Some b], client_count := int n\<rparr>"
  shows "remove_client a w = Ret w'" and "registry_ok w'" and "registered w' = registered w - {a}"
proof -
  have len: "Suc n \<le> length (clients w)" using ok n(1) by (auto simp: registry_ok_def)
  show "remove_client a w = Ret w'"
    using c n b len by (simp add: remove_client_def read_slot_def write_slot_def w' set_client_def)
  have slot: "\<exists>e f. clients w ! i = Some e \<and> client_mem w e = Some f \<and> array_index f = int i"
    if "i < Suc n" for i
    by (rule registry_slot [OF ok n(1) that])
  have uniq: "i = j" if "clients w ! i = clients w ! j" "i < Suc n" "j < Suc n" for i j
    using slot [OF that(2)] slot [OF that(3)] that(1) by auto
  have "\<exists>e f. clients w' ! i = Some e \<and> client_mem w' e = Some f \<and> array_index f = int i"
    if i: "i < n" for i
  proof (cases "i = k")
    case True
    then show ?thesis using len n(3) by (simp add: w' set_client_def)
  next
    case False
    then have "clients w ! i \<noteq> Some b" using uniq [of i n] b(1) i by auto
    then show ?thesis using slot [of i] i False by (auto simp: w' set_client_def)
  qed
  then show ok': "registry_ok w'" using ok n(1) by (simp add: registry_ok_def w' set_client_def)
  have sl: "clients w' ! i = (if i = k then Some b else clients w ! i)" if "i < n" for i
    using that len n(3) by (simp add: w')
  have "e \<in> registered w' \<longleftrightarrow> e \<in> registered w - {a}" for e
  proof -
    have "e \<in> registered w' \<longleftrightarrow> (\<exists>i<n. clients w' ! i = Some e)"
      using registered_iff [OF ok'] by (simp add: w')
    also have "\<dots> \<longleftrightarrow> (\<exists>i<n. i \<noteq> k \<and> clients w ! i = Some e) \<or> e = b"
      using sl n(3) by (metis option.inject)
    also have "\<dots> \<longleftrightarrow> (\<exists>i<Suc n. i \<noteq> k \<and> clients w ! i = Some e)"
      using b(1) n(3) by (auto simp: less_Suc_eq)
    also have "\<dots> \<longleftrightarrow> (\<exists>i<Suc n. clients w ! i = Some e) \<and> e \<noteq> a"
      using uniq a n(3) by (metis less_SucI option.inject)
    finally show ?thesis using registered_iff [OF ok, of e] unfolding n(1) nat_int by blast
  qed
  then show "registered w' = registered w - {a}" by blast
qed

lemma remove_client_ok:
  assumes ok: "registry_ok w" and a: "a \<in> registered w"
  shows "\<exists>w'. remove_client a w = Ret w' \<and> registry_ok w' \<and> registered w' = registered w - {a}"
proof -
  obtain c where c: "client_mem w a = Some c" "0 \<le> array_index c"
      "array_index c < client_count w" "clients w ! nat (array_index c) = Some a"
    using registered_slot [OF ok a] .
  define k where "k = nat (array_index c)"
  define n where "n = nat (client_count w) - 1"
  have n: "client_count w = int (Suc n)" "array_index c = int k" "k \<le> n" "clients w ! k = Some a"
    using c by (simp_all add: k_def n_def)
  show ?thesis
  proof (cases "k = n")
    case True
    then show ?thesis using remove_client_last [OF ok c(1), of n] n by blast
  next
    case False
    obtain b d where "clients w ! n = Some b" "client_mem w b = Some d" "array_index d = int n"
      using registry_slot [OF ok n(1), of n] by blast
    then show ?thesis
      using remove_client_middle [OF ok c(1) n(4,1,2)] n(3) False by (metis le_neq_implies_less)
  qed
qed

interpretation registry: indexed_set add_client remove_client registered registry_ok has_room
  by unfold_locales (simp_all add: add_client_ok remove_client_ok has_room_def)

end
