(* ===== verification/Uv_Timer_Facts.thy ===== *)
theory Uv_Timer_Facts
  imports Uv_Loop
begin

text \<open>
  Facts about timers: the comparison is a strict weak order, so the heap is a queue in the sense
  of \<open>min_queue\<close>; the invariant \<open>timers_ok\<close> ties the heap to the active flags of the timers, and
  every timer operation keeps it; one pass of \<open>uv__run_timers\<close> collects exactly the due timers,
  in the order of their due times.
\<close>

section \<open>The comparison\<close>

lemma timer_less_than_alt:
  "timer_less_than hs a b \<longleftrightarrow>
     fst (timer_key hs a) < fst (timer_key hs b) \<or>
     fst (timer_key hs a) = fst (timer_key hs b) \<and> snd (timer_key hs a) < snd (timer_key hs b)"
  unfolding timer_less_than_def by (auto simp: split_def Let_def)

interpretation timers: heap_order "timer_less_than hs" for hs
  by unfold_locales (auto simp: timer_less_than_alt)

lemma timer_less_than_cong:
  "timer_key hs a = timer_key hs' a \<Longrightarrow> timer_key hs b = timer_key hs' b \<Longrightarrow>
     timer_less_than hs a b = timer_less_than hs' a b"
  by (simp add: timer_less_than_alt)

lemma heap_ok_timers_cong:
  assumes "\<And>h. h \<in> set q \<Longrightarrow> timer_key hs h = timer_key hs' h"
    and "heap_ok (timer_less_than hs) q"
  shows "heap_ok (timer_less_than hs') q"
  unfolding heap_ok_def
proof (intro allI impI)
  fix i assume i: "0 < i \<and> i < length q"
  then have "parent_pos i < length q" using parent_pos_less [of i] by linarith
  then have "timer_less_than hs (q ! i) (q ! parent_pos i) =
      timer_less_than hs' (q ! i) (q ! parent_pos i)"
    using i assms(1) by (intro timer_less_than_cong) auto
  then show "\<not> timer_less_than hs' (q ! i) (q ! parent_pos i)"
    using assms(2) i by (simp add: heap_ok_def)
qed

lemma timer_key_set_handle [simp]:
  "timer_key (handles (set_handle L h x)) a =
     (if a = h then (timeout x, start_id x) else timer_key (handles L) a)"
  by (simp add: timer_key_def set_handle_def)

section \<open>The invariant\<close>

text \<open>
  The heap is a heap, holds a timer once, and holds exactly the active timers, all of them live
  and not closing; the ready queue holds live, inactive timers, once.
\<close>

definition is_active_timer :: "('cb, 'd) uv_handle option \<Rightarrow> bool" where
  "is_active_timer ox = (case ox of None \<Rightarrow> False | Some x \<Rightarrow> htype x = UV_TIMER \<and> f_active x)"

definition timers_ok :: "('h, 'cb, 'd) uv_loop \<Rightarrow> bool" where
  "timers_ok L \<longleftrightarrow>
     heap_ok (timer_less_than (handles L)) (timer_heap L) \<and>
     distinct (timer_heap L) \<and>
     (\<forall>h. h \<in> set (timer_heap L) \<longleftrightarrow> is_active_timer (handles L h))"

lemma timers_ok_heap [simp]: "timers_ok L \<Longrightarrow> heap_ok (timer_less_than (handles L)) (timer_heap L)"
  by (simp add: timers_ok_def)

lemma timers_ok_distinct: "timers_ok L \<Longrightarrow> distinct (timer_heap L)"
  by (simp add: timers_ok_def)

lemma timers_ok_mem_iff:
  "timers_ok L \<Longrightarrow> h \<in> set (timer_heap L) \<longleftrightarrow> is_active_timer (handles L h)"
  by (simp add: timers_ok_def)

lemma timers_okI:
  assumes "heap_ok (timer_less_than (handles L)) (timer_heap L)" and "distinct (timer_heap L)"
    and "\<And>h. h \<in> set (timer_heap L) \<longleftrightarrow> is_active_timer (handles L h)"
  shows "timers_ok L"
  using assms by (simp add: timers_ok_def)

text \<open>Updates that touch neither the heap nor a timer's key, type or active flag.\<close>

lemma timers_ok_frame:
  assumes "timers_ok L" and "timer_heap L' = timer_heap L"
    and "\<And>h. is_active_timer (handles L' h) = is_active_timer (handles L h)"
    and "\<And>h. is_active_timer (handles L h) \<Longrightarrow> timer_key (handles L') h = timer_key (handles L) h"
  shows "timers_ok L'"
proof (rule timers_okI)
  have "timer_key (handles L) h = timer_key (handles L') h" if "h \<in> set (timer_heap L)" for h
    using assms(1,4) that by (simp add: timers_ok_mem_iff)
  then show "heap_ok (timer_less_than (handles L')) (timer_heap L')"
    unfolding assms(2) using heap_ok_timers_cong timers_ok_heap [OF assms(1)] by blast
  show "distinct (timer_heap L')"
    unfolding assms(2) using assms(1) by (rule timers_ok_distinct)
  show "h \<in> set (timer_heap L') \<longleftrightarrow> is_active_timer (handles L' h)" for h
    unfolding assms(2,3) using assms(1) by (rule timers_ok_mem_iff)
qed

lemma is_active_timer_Some [simp]:
  "is_active_timer (Some x) = (htype x = UV_TIMER \<and> f_active x)"
  "is_active_timer None = False"
  by (simp_all add: is_active_timer_def)

lemma handles_set_handle [simp]:
  "handles (set_handle L h x) = (handles L)(h \<mapsto> x)"
  "timer_heap (set_handle L h x) = timer_heap L"
  "loop_time (set_handle L h x) = loop_time L"
  "timer_counter (set_handle L h x) = timer_counter L"
  "ready_queue (set_handle L h x) = ready_queue L"
  "closing_handles (set_handle L h x) = closing_handles L"
  "detached (set_handle L h x) = detached L"
  "handle_queue (set_handle L h x) = handle_queue L"
  "active_handles (set_handle L h x) = active_handles L"
  "active_reqs (set_handle L h x) = active_reqs L"
  "write_queue (set_handle L h x) = write_queue L"
  "stop_flag (set_handle L h x) = stop_flag L"
  by (simp_all add: set_handle_def)

section \<open>Stopping and starting\<close>

lemma heap_remove_set:
  assumes "distinct q" and "heap_remove lt q h = Ret q'" and "h \<in> set q"
  shows "distinct q'" and "set q' = set q - {h}" and "Suc (length q') = length q"
proof -
  obtain q'' where "heap_remove lt q h = Ret q''" and "mset q'' = mset q - {#h#}"
    using heap_remove_mem [OF assms(3)] by blast
  then have m: "mset q' = mset (remove1 h q)" using assms(2) by simp
  then show "distinct q'" using assms(1) by (metis distinct_remove1 mset_eq_imp_distinct_iff)
  show "set q' = set q - {h}" using m assms(1) by (metis set_mset_mset set_remove1_eq)
  show "Suc (length q') = length q"
    using m assms(3) by (metis One_nat_def Suc_pred length_pos_if_in_set length_remove1 mset_eq_length)
qed

text \<open>Stopping an active timer takes it out of the heap and clears its active flag.\<close>

lemma uv_timer_stop_active:
  assumes ok: "timers_ok L" and x: "handles L h = Some x" "htype x = UV_TIMER" "f_active x"
  obtains q where "heap_remove (timer_less_than (handles L)) (timer_heap L) h = Ret q"
    and "uv_timer_stop L h =
      Ret (set_handle (L\<lparr>timer_heap := q,
             active_handles := active_handles L - (if f_ref x then 1 else 0)\<rparr>) h
           (x\<lparr>f_active := False, node_linked := True\<rparr>))"
proof -
  have "h \<in> set (timer_heap L)" using ok x by (simp add: timers_ok_mem_iff)
  then obtain q where q: "heap_remove (timer_less_than (handles L)) (timer_heap L) h = Ret q"
    using heap_remove_mem by metis
  then show ?thesis
    using that x by (simp add: uv_timer_stop_def uv__handle_stop_def set_handle_def)
qed

lemma uv_timer_stop_inactive:
  assumes "handles L h = Some x" and "\<not> f_active x" and "node_linked x"
  shows "uv_timer_stop L h = Ret (L\<lparr>ready_queue := remove1 h (ready_queue L)\<rparr>)"
proof -
  have "x\<lparr>node_linked := True\<rparr> = x" using assms(3) by simp
  then show ?thesis
    using assms by (simp add: uv_timer_stop_def set_handle_def fun_upd_idem)
qed

lemma timers_ok_stop_active:
  assumes ok: "timers_ok L" and x: "handles L h = Some x" "htype x = UV_TIMER" "f_active x"
    and q: "heap_remove (timer_less_than (handles L)) (timer_heap L) h = Ret q"
    and L': "L' = set_handle (L\<lparr>timer_heap := q, active_handles := n\<rparr>) h
        (x\<lparr>f_active := False, node_linked := True\<rparr>)"
  shows "timers_ok L'"
proof (rule timers_okI)
  have h: "h \<in> set (timer_heap L)" using ok x by (simp add: timers_ok_mem_iff)
  note rem = heap_remove_set [OF timers_ok_distinct [OF ok] q h]
  have "heap_ok (timer_less_than (handles L)) q"
    using timers.inv_rem [OF timers_ok_heap [OF ok] q] .
  then show "heap_ok (timer_less_than (handles L')) (timer_heap L')"
    using heap_ok_timers_cong [of q "handles L" "handles L'"] rem x
    by (auto simp: timer_key_def L')
  show "distinct (timer_heap L')" using rem L' by simp
  show "a \<in> set (timer_heap L') \<longleftrightarrow> is_active_timer (handles L' a)" for a
    using rem ok by (simp add: L' timers_ok_mem_iff)
qed

text \<open>A live timer handle whose queue node is initialised or linked into the heap.\<close>

definition is_timer :: "('h, 'cb, 'd) uv_loop \<Rightarrow> 'h \<Rightarrow> bool" where
  "is_timer L h = (case handles L h of None \<Rightarrow> False | Some x \<Rightarrow> htype x = UV_TIMER \<and> (f_active x \<or> node_linked x))"

lemma is_timerE:
  assumes "is_timer L h"
  obtains x where "handles L h = Some x" and "htype x = UV_TIMER" and "f_active x \<or> node_linked x"
  using assms by (auto simp: is_timer_def split: option.splits)

text \<open>Stopping a timer never fails, keeps the invariant, and leaves the timer inactive.\<close>

lemma uv_timer_stop_ok:
  assumes ok: "timers_ok L" and t: "is_timer L h"
  obtains L' x' where "uv_timer_stop L h = Ret L'" and "timers_ok L'"
    and "handles L' = (handles L)(h \<mapsto> x')" and "\<not> f_active x'"
    and "\<exists>x. handles L h = Some x \<and> x' = x\<lparr>f_active := False, node_linked := True\<rparr>"
    and "set (timer_heap L') = set (timer_heap L) - {h}"
    and "loop_time L' = loop_time L" and "timer_counter L' = timer_counter L"
    and "closing_handles L' = closing_handles L" and "detached L' = detached L" and "write_queue L' = write_queue L"
    and "handle_queue L' = handle_queue L"
    and "ready_queue L' = (if h \<in> set (timer_heap L) then ready_queue L else remove1 h (ready_queue L))"
proof -
  obtain x where x: "handles L h = Some x" "htype x = UV_TIMER" "f_active x \<or> node_linked x"
    using t by (rule is_timerE)
  show thesis
  proof (cases "f_active x")
    case True
    obtain q where q: "heap_remove (timer_less_than (handles L)) (timer_heap L) h = Ret q"
      and stop: "uv_timer_stop L h =
        Ret (set_handle (L\<lparr>timer_heap := q,
               active_handles := active_handles L - (if f_ref x then 1 else 0)\<rparr>) h
             (x\<lparr>f_active := False, node_linked := True\<rparr>))"
      using uv_timer_stop_active [OF ok x(1,2) True] .
    have h: "h \<in> set (timer_heap L)" using ok x True by (simp add: timers_ok_mem_iff)
    show thesis
      using that [OF stop timers_ok_stop_active [OF ok x(1,2) True q refl]]
        heap_remove_set [OF timers_ok_distinct [OF ok] q h] x h by simp
  next
    case False
    have h: "h \<notin> set (timer_heap L)" using ok x False by (simp add: timers_ok_mem_iff)
    have linked: "node_linked x" using False x(3) by simp
    have same: "x\<lparr>f_active := False, node_linked := True\<rparr> = x" using False linked by simp
    have "timers_ok (L\<lparr>ready_queue := remove1 h (ready_queue L)\<rparr>)"
      by (rule timers_ok_frame [OF ok]) simp_all
    then show thesis
      using that [OF uv_timer_stop_inactive [OF x(1) False linked], of x] x same False h
      by (simp add: fun_upd_idem)
  qed
qed

lemma timers_ok_insert:
  assumes ok: "timers_ok L" and x: "handles L h = Some x" "htype x = UV_TIMER" "\<not> f_active x"
    and L1: "L1 = (set_handle L h (x\<lparr>timer_cb := cb, timeout := t, repeat := r, start_id := i\<rparr>))
        \<lparr>timer_counter := c\<rparr>"
    and L2: "L2 = L1\<lparr>timer_heap := heap_insert (timer_less_than (handles L1)) (timer_heap L1) h\<rparr>"
  obtains L3 where "uv__handle_start L2 h = Ret L3" and "timers_ok L3"
    and "handles L3 = (handles L)(h \<mapsto> x\<lparr>timer_cb := cb, timeout := t, repeat := r,
           start_id := i, f_active := True\<rparr>)"
    and "set (timer_heap L3) = insert h (set (timer_heap L))"
    and "loop_time L3 = loop_time L" and "closing_handles L3 = closing_handles L" and "detached L3 = detached L"
    and "ready_queue L3 = ready_queue L" and "write_queue L3 = write_queue L"
    and "timer_counter L3 = c" and "handle_queue L3 = handle_queue L"
proof -
  let ?x = "x\<lparr>timer_cb := cb, timeout := t, repeat := r, start_id := i\<rparr>"
  have h: "h \<notin> set (timer_heap L)" using ok x by (simp add: timers_ok_mem_iff)
  have "heap_ok (timer_less_than (handles L1)) (timer_heap L)"
    by (rule heap_ok_timers_cong [OF _ timers_ok_heap [OF ok]]) (use h L1 in \<open>auto simp: timer_key_def\<close>)
  then have heap: "heap_ok (timer_less_than (handles L1)) (timer_heap L2)"
    unfolding L2 using timers.inv_ins by (simp add: L1)
  have content: "mset (timer_heap L2) = add_mset h (mset (timer_heap L))" by (simp add: L1 L2)
  then have dist: "distinct (timer_heap L2)" and set: "set (timer_heap L2) = insert h (set (timer_heap L))"
    using h timers_ok_distinct [OF ok]
    by (metis distinct.simps(2) mset.simps(2) mset_eq_imp_distinct_iff)
      (metis content set_mset_add_mset_insert set_mset_mset)
  let ?L3 = "(set_handle L2 h (?x\<lparr>f_active := True\<rparr>))
      \<lparr>active_handles := active_handles L2 + (if f_ref ?x then 1 else 0)\<rparr>"
  have start: "uv__handle_start L2 h = Ret ?L3"
    using x by (simp add: uv__handle_start_def L1 L2)
  have "timers_ok ?L3"
  proof (rule timers_okI)
    show "heap_ok (timer_less_than (handles ?L3)) (timer_heap ?L3)"
      using heap_ok_timers_cong [OF _ heap, of "handles ?L3"] by (simp add: timer_key_def L1 L2)
    show "distinct (timer_heap ?L3)" using dist by simp
    show "a \<in> set (timer_heap ?L3) \<longleftrightarrow> is_active_timer (handles ?L3 a)" for a
      using set ok x by (auto simp: timers_ok_mem_iff L1 L2)
  qed
  then show thesis using that [OF start] set by (simp add: L1 L2)
qed

text \<open>Starting a timer that is not closing succeeds: it is active and due at the clamped time.\<close>

lemma uv_timer_start_ok:
  assumes ok: "timers_ok L" and t: "is_timer L h"
    and x: "handles L h = Some x" and nc: "\<not> uv__is_closing x"
  obtains L' where "uv_timer_start L h (Some cb) t r = Ret (0, L')" and "timers_ok L'"
    and "handles L' = (handles L)(h \<mapsto> x\<lparr>f_active := True, node_linked := True,
           timer_cb := Some cb, timeout := clamped_timeout (loop_time L) t, repeat := r,
           start_id := timer_counter L\<rparr>)"
    and "set (timer_heap L') = insert h (set (timer_heap L))"
    and "loop_time L' = loop_time L" and "closing_handles L' = closing_handles L" and "detached L' = detached L"
    and "write_queue L' = write_queue L" and "timer_counter L' = timer_counter L + 1"
    and "handle_queue L' = handle_queue L"
    and "ready_queue L' = (if h \<in> set (timer_heap L) then ready_queue L else remove1 h (ready_queue L))"
proof -
  obtain L1 x' where stop: "uv_timer_stop L h = Ret L1" "timers_ok L1"
      "handles L1 = (handles L)(h \<mapsto> x')" "\<not> f_active x'"
      "\<exists>x. handles L h = Some x \<and> x' = x\<lparr>f_active := False, node_linked := True\<rparr>"
      "set (timer_heap L1) = set (timer_heap L) - {h}" "loop_time L1 = loop_time L"
      "timer_counter L1 = timer_counter L" "closing_handles L1 = closing_handles L" "detached L1 = detached L"
      "write_queue L1 = write_queue L" "handle_queue L1 = handle_queue L"
      "ready_queue L1 = (if h \<in> set (timer_heap L) then ready_queue L else remove1 h (ready_queue L))"
    by (rule uv_timer_stop_ok [OF ok t]) blast
  have x': "x' = x\<lparr>f_active := False, node_linked := True\<rparr>" using stop(5) x by simp
  have type: "htype x' = UV_TIMER" using t x x' by (auto elim: is_timerE)
  have h1: "handles L1 h = Some x'" using stop(3) by simp
  obtain L3 where L3: "uv__handle_start ((set_handle L1 h (x'\<lparr>timer_cb := Some cb,
        timeout := clamped_timeout (loop_time L1) t, repeat := r, start_id := timer_counter L1\<rparr>))
      \<lparr>timer_counter := timer_counter L1 + 1,
       timer_heap := heap_insert (timer_less_than ((handles L1)(h \<mapsto> x'\<lparr>timer_cb := Some cb,
        timeout := clamped_timeout (loop_time L1) t, repeat := r, start_id := timer_counter L1\<rparr>)))
        (timer_heap L1) h\<rparr>) h = Ret L3"
      "timers_ok L3"
      "handles L3 = (handles L1)(h \<mapsto> x'\<lparr>timer_cb := Some cb,
        timeout := clamped_timeout (loop_time L1) t, repeat := r, start_id := timer_counter L1,
        f_active := True\<rparr>)"
      "set (timer_heap L3) = insert h (set (timer_heap L1))"
      "loop_time L3 = loop_time L1" "closing_handles L3 = closing_handles L1" "detached L3 = detached L1"
      "ready_queue L3 = ready_queue L1" "write_queue L3 = write_queue L1"
      "timer_counter L3 = timer_counter L1 + 1" "handle_queue L3 = handle_queue L1"
    by (rule timers_ok_insert [OF stop(2) h1 type stop(4) refl refl]) simp
  have run: "uv_timer_start L h (Some cb) t r = Ret (0, L3)"
    using L3(1) by (simp add: uv_timer_start_def x nc stop(1) h1 Let_def)
  show thesis
    by (rule that [OF run L3(2)]) (use L3 stop x' in \<open>auto simp: x' x\<close>)
qed

section \<open>Collecting the due timers\<close>

definition is_due :: "('h, 'cb, 'd) uv_loop \<Rightarrow> 'h \<Rightarrow> bool" where
  "is_due L h \<longleftrightarrow> fst (timer_key (handles L) h) \<le> loop_time L"

text \<open>What the first loop of \<open>uv__run_timers\<close> leaves, relative to the loop it starts from.\<close>

definition stopped :: "('cb, 'd) uv_handle \<Rightarrow> ('cb, 'd) uv_handle" where
  "stopped x = x\<lparr>f_active := False, node_linked := True\<rparr>"

definition collected ::
  "('h, 'cb, 'd) uv_loop \<Rightarrow> 'h list \<Rightarrow> ('h, 'cb, 'd) uv_loop \<Rightarrow> bool" where
  "collected L due L' \<longleftrightarrow>
     timers_ok L' \<and> ready_queue L' = ready_queue L @ due \<and> distinct due \<and>
     set due = {h \<in> set (timer_heap L). is_due L h} \<and>
     set (timer_heap L') = {h \<in> set (timer_heap L). \<not> is_due L h} \<and>
     sorted_wrt (\<lambda>a b. \<not> timer_less_than (handles L) b a) due \<and>
     (\<forall>h. timer_key (handles L') h = timer_key (handles L) h) \<and> loop_time L' = loop_time L \<and>
     (\<forall>h. handles L' h = (if h \<in> set due then map_option stopped (handles L h) else handles L h)) \<and>
     closing_handles L' = closing_handles L \<and> detached L' = detached L \<and>
     write_queue L' = write_queue L"

lemma collected_Nil:
  assumes "timers_ok L" and "\<And>h. h \<in> set (timer_heap L) \<Longrightarrow> \<not> is_due L h"
  shows "collected L [] L"
  using assms by (auto simp: collected_def)

lemma collected_step:
  assumes ok: "timers_ok L" and h: "h \<in> set (timer_heap L)" "is_due L h"
    and least: "\<And>y. y \<in> set (timer_heap L) \<Longrightarrow> \<not> timer_less_than (handles L) y h"
    and keys: "\<And>a. timer_key (handles L1) a = timer_key (handles L) a"
    and L1: "ready_queue L1 = ready_queue L @ [h]" "set (timer_heap L1) = set (timer_heap L) - {h}"
      "loop_time L1 = loop_time L" "closing_handles L1 = closing_handles L"
      "detached L1 = detached L" "write_queue L1 = write_queue L"
    and hs: "\<And>a. handles L1 a = (if a = h then map_option stopped (handles L a) else handles L a)"
    and IH: "collected L1 due L'"
  shows "collected L (h # due) L'"
proof -
  have due_eq: "is_due L1 a = is_due L a" for a by (simp add: is_due_def keys L1(3))
  have lt_eq: "timer_less_than (handles L1) a b = timer_less_than (handles L) a b" for a b
    by (rule timer_less_than_cong) (simp_all add: keys)
  show ?thesis
    using IH h least unfolding collected_def by (auto simp: due_eq lt_eq keys L1 hs)
qed

lemma collect_due_total:
  assumes "timers_ok L" and "length (timer_heap L) < n"
  obtains L' due where "collect_due n L = Ret L'" and "collected L due L'"
  using assms
proof (induction n arbitrary: L thesis)
  case 0
  then show ?case by simp
next
  case (Suc n)
  note ok = Suc.prems(2)
  show ?case
  proof (cases "heap_min (timer_heap L)")
    case None
    then show ?thesis
      using Suc.prems(1) [OF _ collected_Nil [OF ok]] by simp
  next
    case (Some h)
    have h: "h \<in> set (timer_heap L)" using timers.min_in [OF Some] by simp
    then obtain x where x: "handles L h = Some x" "htype x = UV_TIMER" "f_active x"
      using ok by (auto simp: timers_ok_mem_iff is_active_timer_def split: option.splits)
    have least: "\<not> timer_less_than (handles L) y h" if "y \<in> set (timer_heap L)" for y
      using timers.min_least [OF timers_ok_heap [OF ok] Some] that by simp
    show ?thesis
    proof (cases "loop_time L < timeout x")
      case True
      have "\<not> is_due L y" if "y \<in> set (timer_heap L)" for y
        using least [OF that] True x by (auto simp: timer_less_than_alt is_due_def timer_key_def)
      then show ?thesis
        using Suc.prems(1) [OF _ collected_Nil [OF ok]] Some x True by simp
    next
      case False
      have "is_timer L h" using x by (simp add: is_timer_def)
      then obtain L1 x' where stop: "uv_timer_stop L h = Ret L1" "timers_ok L1"
          "handles L1 = (handles L)(h \<mapsto> x')"
          "\<exists>x. handles L h = Some x \<and> x' = x\<lparr>f_active := False, node_linked := True\<rparr>"
          "set (timer_heap L1) = set (timer_heap L) - {h}" "loop_time L1 = loop_time L"
          "closing_handles L1 = closing_handles L" "detached L1 = detached L"
          "write_queue L1 = write_queue L"
          "ready_queue L1 = (if h \<in> set (timer_heap L) then ready_queue L else remove1 h (ready_queue L))"
        by (rule uv_timer_stop_ok [OF ok]) blast
      let ?L2 = "L1\<lparr>ready_queue := ready_queue L1 @ [h]\<rparr>"
      have keys: "timer_key (handles ?L2) a = timer_key (handles L) a" for a
        using stop(3,4) x by (auto simp: timer_key_def)
      have ok2: "timers_ok ?L2" by (rule timers_ok_frame [OF stop(2)]) simp_all
      have "length (timer_heap L1) < length (timer_heap L)"
        using stop(2,5) h timers_ok_distinct [OF ok]
        by (metis List.finite_set card_Diff1_less distinct_card timers_ok_distinct)
      then have short: "length (timer_heap ?L2) < n" using Suc.prems(3) by simp
      obtain L' due where r: "collect_due n ?L2 = Ret L'" "collected ?L2 due L'"
        using Suc.IH [OF _ ok2 short] by blast
      have "is_due L h" using False x by (simp add: is_due_def timer_key_def)
      moreover have "handles ?L2 a = (if a = h then map_option stopped (handles L a) else handles L a)"
        for a using stop(3,4) x by (auto simp: stopped_def)
      ultimately have "collected L (h # due) L'"
        using collected_step [OF ok h _ least keys _ _ _ _ _ _ _ r(2)] stop h by simp
      then show ?thesis
        using Suc.prems(1) [of L' "h # due"] r(1) Some x False stop(1) by simp
    qed
  qed
qed

section \<open>Closing\<close>

text \<open>
  The close protocol: the first \<open>uv_close\<close> of a timer or a TCP handle succeeds, marks it and
  puts it on the closing chain; a second one fails the assertion.
\<close>

lemma uv_close_twice:
  assumes "handles L h = Some x" and "uv__is_closing x"
  shows "uv_close L h cb = Fault AssertionFailure"
  using assms by (simp add: uv_close_def)

lemma uv_close_freed: "handles L h = None \<Longrightarrow> uv_close L h cb = Fault UseAfterFree"
  by (simp add: uv_close_def)

lemma uv_close_timer:
  assumes ok: "timers_ok L" and t: "is_timer L h"
    and x: "handles L h = Some x" and nc: "\<not> uv__is_closing x"
  obtains L' x' where "uv_close L h cb = Ret L'" and "timers_ok L'"
    and "handles L' = (handles L)(h \<mapsto> x')"
    and "x' = x\<lparr>f_closing := True, close_cb := cb, f_active := False, node_linked := True\<rparr>"
    and "closing_handles L' = h # closing_handles L" and "detached L' = detached L"
    and "loop_time L' = loop_time L" and "write_queue L' = write_queue L"
    and "handle_queue L' = handle_queue L" and "timer_counter L' = timer_counter L"
proof -
  let ?L1 = "set_handle L h (x\<lparr>f_closing := True, close_cb := cb\<rparr>)"
  have ty: "htype x = UV_TIMER" "f_active x \<or> node_linked x" using t x by (auto elim: is_timerE)
  have "timers_ok ?L1"
    by (rule timers_ok_frame [OF ok]) (use x in \<open>auto simp: timer_key_def\<close>)
  moreover have "is_timer ?L1 h" using ty by (simp add: is_timer_def)
  ultimately obtain L2 x2 where stop: "uv_timer_stop ?L1 h = Ret L2" "timers_ok L2"
      "handles L2 = (handles ?L1)(h \<mapsto> x2)"
      "\<exists>y. handles ?L1 h = Some y \<and> x2 = y\<lparr>f_active := False, node_linked := True\<rparr>"
      "loop_time L2 = loop_time ?L1" "timer_counter L2 = timer_counter ?L1"
      "closing_handles L2 = closing_handles ?L1" "detached L2 = detached ?L1" "write_queue L2 = write_queue ?L1"
      "handle_queue L2 = handle_queue ?L1"
    by (rule uv_timer_stop_ok) blast
  have x2: "x2 = x\<lparr>f_closing := True, close_cb := cb, f_active := False, node_linked := True\<rparr>"
    using stop(4) by simp
  have nclosed: "\<not> f_closed x" using nc by (simp add: uv__is_closing_def)
  let ?L3 = "L2\<lparr>closing_handles := h # closing_handles L2\<rparr>"
  have close: "uv_close L h cb = Ret ?L3"
    using x nc ty stop(1,3) x2 nclosed by (simp add: uv_close_def uv__make_close_pending_def)
  have "timers_ok ?L3" by (rule timers_ok_frame [OF stop(2)]) simp_all
  then show thesis
    by (rule that [OF close]) (use stop x2 in simp_all)
qed

text \<open>The record a TCP handle is left with by \<open>uv__stream_close\<close>.\<close>

lemma uv__stream_close_ok:
  assumes x: "handles L h = Some x" and ok: "timers_ok L" and ty: "htype x \<noteq> UV_TIMER"
  obtains L' where "uv__stream_close L h = Ret L'" and "timers_ok L'"
    and "handles L' = (handles L)(h \<mapsto> x\<lparr>f_active := False, f_reading := False,
           f_readable := False, f_writable := False, fd_open := False\<rparr>)"
    and "closing_handles L' = closing_handles L" and "detached L' = detached L" and "loop_time L' = loop_time L"
    and "write_queue L' = write_queue L" and "handle_queue L' = handle_queue L"
    and "timer_counter L' = timer_counter L" and "ready_queue L' = ready_queue L"
proof -
  let ?x = "x\<lparr>f_active := False, f_reading := False, f_readable := False, f_writable := False,
              fd_open := False\<rparr>"
  obtain n where run: "uv__stream_close L h = Ret ((set_handle L h ?x)\<lparr>active_handles := n\<rparr>)"
  proof (cases "f_active x")
    case True
    then have "uv__stream_close L h = Ret ((set_handle L h ?x)
        \<lparr>active_handles := active_handles L - (if f_ref x then 1 else 0)\<rparr>)"
      using x by (cases L, cases x)
        (auto simp: uv__stream_close_def uv_read_stop_def uv__handle_stop_def set_handle_def)
    then show ?thesis by (rule that)
  next
    case False
    then have "uv__stream_close L h = Ret ((set_handle L h ?x)\<lparr>active_handles := active_handles L\<rparr>)"
      using x by (cases L, cases x)
        (auto simp: uv__stream_close_def uv_read_stop_def uv__handle_stop_def set_handle_def)
    then show ?thesis by (rule that)
  qed
  have "timers_ok ((set_handle L h ?x)\<lparr>active_handles := n\<rparr>)"
    by (rule timers_ok_frame [OF ok]) (use x ty in \<open>auto simp: timer_key_def\<close>)
  then show thesis by (rule that [OF run]) simp_all
qed

lemma uv_close_stream:
  assumes ok: "timers_ok L" and x: "handles L h = Some x" and ty: "htype x = UV_TCP \<or> htype x = UV_TTY"
    and nc: "\<not> uv__is_closing x"
  obtains L' x' where "uv_close L h cb = Ret L'" and "timers_ok L'"
    and "handles L' = (handles L)(h \<mapsto> x')"
    and "x' = x\<lparr>f_closing := True, close_cb := cb, f_active := False, f_reading := False,
           f_readable := False, f_writable := False, fd_open := False\<rparr>"
    and "closing_handles L' = h # closing_handles L" and "detached L' = detached L"
    and "loop_time L' = loop_time L" and "write_queue L' = write_queue L"
    and "handle_queue L' = handle_queue L" and "timer_counter L' = timer_counter L"
    and "ready_queue L' = ready_queue L"
proof -
  let ?L1 = "set_handle L h (x\<lparr>f_closing := True, close_cb := cb\<rparr>)"
  have "timers_ok ?L1"
    by (rule timers_ok_frame [OF ok]) (use x ty in \<open>auto simp: timer_key_def\<close>)
  then obtain L2 where sc: "uv__stream_close ?L1 h = Ret L2" "timers_ok L2"
      "handles L2 = (handles ?L1)(h \<mapsto> x\<lparr>f_closing := True, close_cb := cb, f_active := False,
          f_reading := False, f_readable := False, f_writable := False, fd_open := False\<rparr>)"
      "closing_handles L2 = closing_handles ?L1" "detached L2 = detached ?L1" "loop_time L2 = loop_time ?L1"
      "write_queue L2 = write_queue ?L1" "handle_queue L2 = handle_queue ?L1"
      "timer_counter L2 = timer_counter ?L1" "ready_queue L2 = ready_queue ?L1"
    by - (rule uv__stream_close_ok [of ?L1 h "x\<lparr>f_closing := True, close_cb := cb\<rparr>"],
      use ty in auto)
  let ?L3 = "L2\<lparr>closing_handles := h # closing_handles L2\<rparr>"
  have nclosed: "\<not> f_closed x" using nc by (simp add: uv__is_closing_def)
  have close: "uv_close L h cb = Ret ?L3"
    using x nc ty sc(1,3) nclosed by (auto simp: uv_close_def uv__make_close_pending_def Let_def)
  have "timers_ok ?L3" by (rule timers_ok_frame [OF sc(2)]) simp_all
  then show thesis
    by (rule that [OF close]) (use sc in simp_all)
qed

lemma handle_stop_flags:
  assumes "handles L h = Some x"
  obtains n where "uv__handle_stop (set_handle L h (x\<lparr>f_reading := False\<rparr>)) h =
      Ret (L\<lparr>handles := (handles L)(h \<mapsto> x\<lparr>f_reading := False, f_active := False\<rparr>),
             active_handles := n\<rparr>)"
proof (cases "f_active x")
  case True
  then show thesis
    using that [of "active_handles L - (if f_ref x then 1 else 0)"] assms True
    by (simp add: uv__handle_stop_def set_handle_def)
next
  case False
  have run: "uv__handle_stop (set_handle L h (x\<lparr>f_reading := False\<rparr>)) h =
      Ret (L\<lparr>handles := (handles L)(h \<mapsto> x\<lparr>f_reading := False\<rparr>), active_handles := active_handles L\<rparr>)"
    using False by (simp add: uv__handle_stop_def set_handle_def)
  have "x\<lparr>f_reading := False\<rparr> = x\<lparr>f_reading := False, f_active := False\<rparr>"
    using False by (cases x) simp
  then show thesis using that run by metis
qed

end
