(* ===== verification/Wire_Facts.thy ===== *)
theory Wire_Facts
  imports Wire
begin

text \<open>
  The receive loop implements the abstract decoder: whatever way a byte stream is cut into reads,
  the loop hands on the messages \<open>decode\<close> finds in it, and stops at the same bad length. On the
  sending side, a frame decodes to its payload exactly on a big-endian host.
\<close>

section \<open>Integer layout\<close>

lemma unat_byte_less: "unat (b :: byte) < 256"
  by (rule order.strict_trans2 [OF unsigned_less]) simp

lemma le_value_less: "le_value bs < 256 ^ length bs"
proof (induction bs)
  case (Cons b bs)
  have "unat b < 256" by (rule unat_byte_less)
  then show ?case using Cons by simp
qed simp

lemma be_value_less: "be_value bs < 256 ^ length bs"
  using le_value_less [of "rev bs"] by (simp add: be_value_def)

text \<open>The four bytes of a number, by division.\<close>

definition four_bytes :: "nat \<Rightarrow> byte list" where
  "four_bytes v =
     [word_of_nat v, word_of_nat (v div 256), word_of_nat (v div 65536), word_of_nat (v div 16777216)]"

lemma le_bytes_four: "le_bytes x = four_bytes (unat x)"
  by (simp add: le_bytes_def four_bytes_def)

lemma unat_byte_of_nat: "unat (word_of_nat n :: byte) = n mod 256"
  by (simp add: unat_of_nat)

lemma div_256_div: "v div 65536 = v div 256 div 256" "v div 16777216 = v div 256 div 256 div 256"
  for v :: nat
  by (simp_all add: div_mult2_eq [symmetric])

lemma digit_256: "a < 256 \<Longrightarrow> (a + 256 * r) mod 256 = a" "a < 256 \<Longrightarrow> (a + 256 * r) div 256 = r"
  for a :: nat
  by simp_all

lemma le_value_four_bytes:
  assumes "v < 2 ^ 32"
  shows "le_value (four_bytes v) = v"
proof -
  have "v div 256 div 256 div 256 < 256" using assms by (simp add: div_less_iff_less_mult)
  then show ?thesis
    by (simp only: four_bytes_def le_value.simps unat_byte_of_nat div_256_div) (simp add: mod_mult_div_eq)
qed

lemma byte_eqI: "n mod 256 = unat y \<Longrightarrow> (word_of_nat n :: byte) = y"
  by (simp only: word_unat_eq_iff unat_byte_of_nat)

lemma four_bytes_le_value:
  assumes "length bs = 4"
  shows "four_bytes (le_value bs) = bs"
proof -
  obtain a b c d where bs: "bs = [a, b, c, d]"
    using assms by (auto simp: length_Suc_conv eval_nat_numeral)
  define v where "v = unat a + 256 * (unat b + 256 * (unat c + 256 * unat d))"
  have "v mod 256 = unat a" "v div 256 mod 256 = unat b" "v div 65536 mod 256 = unat c"
    "v div 16777216 mod 256 = unat d"
    unfolding div_256_div v_def by (simp_all only: digit_256 unat_byte_less mod_less)
  moreover have "le_value bs = v" by (simp add: bs v_def)
  ultimately show ?thesis by (simp only: four_bytes_def bs byte_eqI)
qed

lemma le_value_le_bytes: "le_value (le_bytes x) = unat x"
proof -
  have "unat x < 2 ^ 32" by (rule order.strict_trans2 [OF unsigned_less]) simp
  then show ?thesis by (simp only: le_bytes_four le_value_four_bytes)
qed

lemma be_value_be_bytes: "be_value (be_bytes x) = unat x"
  by (simp add: be_value_def be_bytes_def le_value_le_bytes)

lemma length_le_bytes [simp]: "length (le_bytes x) = 4"
  by (simp add: le_bytes_def)

lemma length_be_bytes [simp]: "length (be_bytes x) = 4"
  by (simp add: be_bytes_def)

lemma length_store_u32 [simp]: "length (store_u32 le x) = 4"
  by (simp add: store_u32_def)

lemma le_bytes_le_value:
  assumes "length bs = 4"
  shows "le_bytes (word_of_nat (le_value bs)) = bs"
proof -
  have "le_value bs < 2 ^ 32" using le_value_less [of bs] assms by simp
  then have "unat (word_of_nat (le_value bs) :: u32) = le_value bs" by (simp add: unat_of_nat)
  then show ?thesis using four_bytes_le_value [OF assms] by (simp add: le_bytes_four)
qed

text \<open>Whatever the host, the header is read as a big-endian number.\<close>

lemma ntohl_load:
  assumes "length bs = 4"
  shows "unat (ntohl le (load_u32 le bs)) = be_value bs"
proof -
  have "be_value bs < 2 ^ 32" using be_value_less [of bs] assms by simp
  then show ?thesis
    using le_bytes_le_value [OF assms] by (simp add: ntohl_def load_u32_def unat_of_nat)
qed

section \<open>The state of the buffer between reads\<close>

definition pending :: "'a rx_scheme \<Rightarrow> byte list" where
  "pending c = take (buffer_used c) (buffer c)"

definition rx_inv :: "'a rx_scheme \<Rightarrow> bool" where
  "rx_inv c \<longleftrightarrow> length (buffer c) = CLIENT_BUFFER_SIZE \<and>
     (if buffer_used c < MESSAGE_HEADER_SIZE then expected_length c = 0
      else expected_length c = be_value (take 4 (buffer c)) \<and> 0 < expected_length c \<and>
        expected_length c \<le> CLIENT_BUFFER_SIZE - MESSAGE_HEADER_SIZE \<and>
        buffer_used c < MESSAGE_HEADER_SIZE + expected_length c)"

lemmas wire_consts = CLIENT_BUFFER_SIZE_def MESSAGE_HEADER_SIZE_def

text \<open>Copying within the buffer appends to the pending bytes.\<close>

lemma copy_to_buffer_ok:
  assumes "length (buffer c) = CLIENT_BUFFER_SIZE" and "buffer_used c + length src \<le> CLIENT_BUFFER_SIZE"
  obtains c' where "copy_to_buffer c src = Ret c'"
    and "c' = c\<lparr>buffer := buffer c', buffer_used := buffer_used c + length src\<rparr>"
    and "pending c' = pending c @ src" and "length (buffer c') = CLIENT_BUFFER_SIZE"
proof -
  let ?b = "take (buffer_used c) (buffer c) @ src @ drop (buffer_used c + length src) (buffer c)"
  have "copy_to_buffer c src = Ret (c\<lparr>buffer := ?b, buffer_used := buffer_used c + length src\<rparr>)"
    using assms by (simp add: copy_to_buffer_def Let_def)
  then show thesis
    by (rule that) (use assms in \<open>simp_all add: pending_def\<close>)
qed

text \<open>What one round does to a buffer that satisfies the invariant.\<close>

definition rx_round_ok :: "'a rx_scheme \<Rightarrow> byte list \<Rightarrow> 'a rx_scheme \<Rightarrow> nat \<Rightarrow> rx_event \<Rightarrow> bool" where
  "rx_round_ok c data c' n ev \<longleftrightarrow>
     0 < n \<and> n \<le> length data \<and>
     c' = c\<lparr>buffer := buffer c', buffer_used := buffer_used c', expected_length := expected_length c'\<rparr> \<and>
     length (buffer c') = CLIENT_BUFFER_SIZE \<and>
     (let f = pending c @ take n data in
      case ev of
        RxContinue \<Rightarrow> rx_inv c' \<and> pending c' = f
      | RxBadLength k \<Rightarrow> length f = 4 \<and> k = be_value f \<and> (k = 0 \<or> 4092 < k)
      | RxMessage m \<Rightarrow> length f = 4 + length m \<and> length m = be_value (take 4 f) \<and>
          0 < length m \<and> length m \<le> 4092 \<and> m = drop 4 f)"

lemma rx_header_ok:
  assumes inv: "rx_inv c" and data: "data \<noteq> []" and used: "buffer_used c < MESSAGE_HEADER_SIZE"
  obtains c' n ev where "rx_header le c data = Ret (c', n, ev)" and "rx_round_ok c data c' n ev"
proof -
  let ?n = "min (MESSAGE_HEADER_SIZE - buffer_used c) (length data)"
  have buf: "length (buffer c) = CLIENT_BUFFER_SIZE" and e0: "expected_length c = 0"
    using inv used by (simp_all add: rx_inv_def)
  have "buffer_used c + length (take ?n data) \<le> CLIENT_BUFFER_SIZE"
    using used by (simp add: wire_consts)
  then obtain c1 where c1: "copy_to_buffer c (take ?n data) = Ret c1"
      "c1 = c\<lparr>buffer := buffer c1, buffer_used := buffer_used c + length (take ?n data)\<rparr>"
      "pending c1 = pending c @ take ?n data" "length (buffer c1) = CLIENT_BUFFER_SIZE"
    by (rule copy_to_buffer_ok [OF buf])
  have n: "0 < ?n" "?n \<le> length data" "length (take ?n data) = ?n"
    using data used by auto
  have u1: "buffer_used c1 = buffer_used c + ?n" and e1: "expected_length c1 = 0"
    using n e0 by (subst c1(2), simp)+
  have lp: "length (pending c) = buffer_used c"
    using buf used by (simp add: pending_def wire_consts)
  show thesis
  proof (cases "buffer_used c1 = MESSAGE_HEADER_SIZE")
    case False
    then have "rx_inv c1" using u1 e1 used c1(4) by (auto simp: rx_inv_def)
    moreover have "rx_header le c data = Ret (c1, ?n, RxContinue)"
      using c1(1) False by (simp add: rx_header_def Let_def)
    moreover have "c1 = c\<lparr>buffer := buffer c1, buffer_used := buffer_used c1,
        expected_length := expected_length c1\<rparr>"
      using c1(2) e0 e1 by (metis rx.update_convs(3) rx.surjective rx.ext_inject u1 n(3))
    ultimately show thesis
      using that [of c1 ?n RxContinue] n c1(3,4) by (simp add: rx_round_ok_def)
  next
    case True
    let ?k = "be_value (take 4 (buffer c1))"
    have f: "take 4 (buffer c1) = pending c @ take ?n data"
      using c1(3) True by (simp add: pending_def wire_consts)
    have l4: "length (take 4 (buffer c1)) = 4" using c1(4) by (simp add: wire_consts)
    have k: "unat (ntohl le (load_u32 le (take 4 (buffer c1)))) = ?k"
      by (rule ntohl_load [OF l4])
    then have k0: "ntohl le (load_u32 le (take 4 (buffer c1))) = 0 \<longleftrightarrow> ?k = 0"
      by (metis unat_eq_0)
    show thesis
    proof (cases "?k = 0 \<or> CLIENT_BUFFER_SIZE - MESSAGE_HEADER_SIZE < ?k")
      case bad: True
      then have "rx_header le c data = Ret (c1, ?n, RxBadLength ?k)"
        using c1(1) True k k0 by (auto simp: rx_header_def Let_def)
      moreover have "c1 = c\<lparr>buffer := buffer c1, buffer_used := buffer_used c1,
          expected_length := expected_length c1\<rparr>"
        using c1(2) e0 e1 by (metis rx.update_convs(3) rx.surjective rx.ext_inject u1 n(3))
      ultimately show thesis
        using that [of c1 ?n "RxBadLength ?k"] n c1(4) bad f l4
        by (auto simp: rx_round_ok_def Let_def wire_consts simp del: take_append)
    next
      case good: False
      let ?c2 = "c1\<lparr>expected_length := ?k\<rparr>"
      have "rx_header le c data = Ret (?c2, ?n, RxContinue)"
        using c1(1) True k k0 good by (auto simp: rx_header_def Let_def)
      moreover have "rx_inv ?c2" using good True c1(4) by (auto simp: rx_inv_def wire_consts)
      moreover have "pending ?c2 = pending c @ take ?n data" using c1(3) by (simp add: pending_def)
      moreover have "?c2 = c\<lparr>buffer := buffer ?c2, buffer_used := buffer_used ?c2,
          expected_length := expected_length ?c2\<rparr>"
        by (subst c1(2)) (simp add: u1 n(3))
      ultimately show thesis
        using that [of ?c2 ?n RxContinue] n c1(4) by (simp add: rx_round_ok_def)
    qed
  qed
qed

lemma rx_body_ok:
  assumes inv: "rx_inv c" and data: "data \<noteq> []" and used: "\<not> buffer_used c < MESSAGE_HEADER_SIZE"
  obtains c' n ev where "rx_body c data = Ret (c', n, ev)" and "rx_round_ok c data c' n ev"
proof -
  let ?t = "MESSAGE_HEADER_SIZE + expected_length c"
  let ?n = "min (?t - buffer_used c) (length data)"
  have buf: "length (buffer c) = CLIENT_BUFFER_SIZE"
    and e: "expected_length c = be_value (take 4 (buffer c))" "0 < expected_length c"
      "expected_length c \<le> 4092" and u: "buffer_used c < ?t"
    using inv used by (simp_all add: rx_inv_def wire_consts)
  have sub: "size_sub ?t (buffer_used c) = ?t - buffer_used c" using u by (simp add: size_sub_def)
  have "buffer_used c + length (take ?n data) \<le> CLIENT_BUFFER_SIZE"
    using u e(3) by (simp add: wire_consts)
  then obtain c1 where c1: "copy_to_buffer c (take ?n data) = Ret c1"
      "c1 = c\<lparr>buffer := buffer c1, buffer_used := buffer_used c + length (take ?n data)\<rparr>"
      "pending c1 = pending c @ take ?n data" "length (buffer c1) = CLIENT_BUFFER_SIZE"
    by (rule copy_to_buffer_ok [OF buf])
  have n: "0 < ?n" "?n \<le> length data" "length (take ?n data) = ?n"
    using data u by auto
  have u1: "buffer_used c1 = buffer_used c + ?n" and e1: "expected_length c1 = expected_length c"
    using n by (subst c1(2), simp)+
  have le: "buffer_used c1 \<le> ?t" using u u1 by linarith
  have shape: "c1 = c\<lparr>buffer := buffer c1, buffer_used := buffer_used c1,
        expected_length := expected_length c1\<rparr>"
    using c1(2) e1 by (metis rx.update_convs(3) rx.surjective rx.ext_inject u1 n(3))
  have used4: "4 \<le> buffer_used c" using used by (simp add: wire_consts)
  have "take 4 (pending c) = take 4 (buffer c)" using used4 by (simp add: pending_def min_def)
  moreover have "length (pending c) \<ge> 4"
    using used4 u e(3) buf by (simp add: pending_def wire_consts)
  ultimately have head: "take 4 (pending c @ take ?n data) = take 4 (buffer c)" by simp
  have head1: "take 4 (buffer c1) = take 4 (buffer c)"
  proof -
    have "take 4 (buffer c1) = take 4 (pending c1)"
      using used4 u1 by (simp add: pending_def min_def)
    then show ?thesis using head c1(3) by simp
  qed
  show thesis
  proof (cases "buffer_used c1 = ?t")
    case False
    then have "rx_inv c1"
      using le e e1 c1(4) used u1 head1 by (simp add: rx_inv_def wire_consts)
    moreover have "rx_body c data = Ret (c1, ?n, RxContinue)"
      using c1(1) False by (simp add: rx_body_def Let_def sub)
    ultimately show thesis
      using that [of c1 ?n RxContinue] n c1(3,4) shape by (simp add: rx_round_ok_def)
  next
    case True
    define m where "m = take (expected_length c1) (drop MESSAGE_HEADER_SIZE (buffer c1))"
    define f where "f = pending c @ take ?n data"
    have run: "rx_body c data = Ret (c1, ?n, RxMessage m)"
      using c1(1) True by (simp add: rx_body_def Let_def sub m_def)
    have lm: "length m = expected_length c"
      using e(3) c1(4) e1 by (simp add: wire_consts m_def)
    have "m = drop 4 (pending c1)"
      using True e1 by (simp add: pending_def wire_consts drop_take m_def)
    moreover have "length (pending c1) = 4 + expected_length c"
      using True e(3) c1(4) by (simp add: pending_def wire_consts)
    ultimately have f: "m = drop 4 f" "length f = 4 + length m" "length m = be_value (take 4 f)"
      using c1(3) lm head e(1) by (simp_all only: f_def)
    have "rx_round_ok c data c1 ?n (RxMessage m)"
      unfolding rx_round_ok_def Let_def rx_event.case f_def [symmetric]
      using n(1,2) shape c1(4) f lm e(2,3) by (intro conjI) simp_all
    with run show thesis by (rule that)
  qed
qed

lemma rx_iter_ok:
  assumes "rx_inv c" and "data \<noteq> []"
  obtains c' n ev where "rx_iter le c data = Ret (c', n, ev)" and "rx_round_ok c data c' n ev"
proof (cases "buffer_used c < MESSAGE_HEADER_SIZE")
  case True
  show thesis by (rule rx_header_ok [OF assms True, of le], rule that) (simp_all add: rx_iter_def True)
next
  case False
  show thesis by (rule rx_body_ok [OF assms False], rule that [of _ _ _]) (simp_all add: rx_iter_def False)
qed

lemma rx_inv_reset: "length (buffer c) = CLIENT_BUFFER_SIZE \<Longrightarrow> rx_inv (rx_reset c)"
  by (simp add: rx_inv_def rx_reset_def MESSAGE_HEADER_SIZE_def)

lemma pending_reset [simp]: "pending (rx_reset c) = []"
  by (simp add: pending_def rx_reset_def)

section \<open>The decoder\<close>

lemma be_value_nil [simp]: "be_value [] = 0"
  by (simp add: be_value_def)

lemma decode_pending:
  assumes "rx_inv c"
  shows "decode (pending c) = ([], Incomplete (pending c))"
proof (cases "buffer_used c < MESSAGE_HEADER_SIZE")
  case True
  then have "length (pending c) < 4" by (simp add: pending_def MESSAGE_HEADER_SIZE_def)
  then show ?thesis by (simp add: decode.simps [of "pending c"])
next
  case False
  then have l: "length (pending c) = buffer_used c" and h: "take 4 (pending c) = take 4 (buffer c)"
    and e: "expected_length c = be_value (take 4 (buffer c))"
      "buffer_used c < 4 + expected_length c" "expected_length c \<le> 4092" "0 < expected_length c"
    using assms by (auto simp: pending_def rx_inv_def wire_consts min_def)
  show ?thesis
    using l h e False by (subst decode.simps) (simp add: Let_def MESSAGE_HEADER_SIZE_def)
qed

lemma decode_bad:
  assumes "length f = 4" and "be_value f = 0 \<or> 4092 < be_value f"
  shows "decode (f @ rest) = ([], BadLength (be_value f))"
  using assms by (subst decode.simps) (auto simp: Let_def)

lemma decode_message:
  assumes "length f = 4 + length m" and "length m = be_value (take 4 f)"
    and "0 < length m" and "length m \<le> 4092" and "m = drop 4 f"
  shows "decode (f @ rest) = (m # fst (decode rest), snd (decode rest))"
proof -
  have "take 4 (f @ rest) = take 4 f" and "drop (4 + length m) (f @ rest) = rest"
    and "take (length m) (drop 4 (f @ rest)) = m"
    using assms(1,5) by simp_all
  then show ?thesis
    using assms(1-4) by (subst decode.simps) (simp add: Let_def split_def)
qed

text \<open>The messages and the stop of the loop, as the decoder states them.\<close>

definition feed_matches ::
  "byte list \<Rightarrow> 'a rx_scheme \<times> byte list list \<times> nat option \<Rightarrow> bool" where
  "feed_matches stream r \<longleftrightarrow>
     (case r of (c', ms, bad) \<Rightarrow>
        length (buffer c') = CLIENT_BUFFER_SIZE \<and>
        (case bad of
           None \<Rightarrow> rx_inv c' \<and> decode stream = (ms, Incomplete (pending c'))
         | Some k \<Rightarrow> decode stream = (ms, BadLength k)))"

lemma rx_feed_decode:
  "rx_inv c \<Longrightarrow> \<exists>r. rx_feed le c data = Ret r \<and> feed_matches (pending c @ data) r"
proof (induction le c data rule: rx_feed.induct)
  case (1 le c data)
  show ?case
  proof (cases "data = []")
    case True
    then show ?thesis
      using "1.prems" decode_pending
      by (subst rx_feed.simps) (auto simp: feed_matches_def rx_inv_def)
  next
    case False
    obtain c' n ev where it: "rx_iter le c data = Ret (c', n, ev)" "rx_round_ok c data c' n ev"
      using rx_iter_ok [OF "1.prems" False] .
    have split: "pending c @ data = (pending c @ take n data) @ drop n data" by simp
    have buf: "length (buffer c') = CLIENT_BUFFER_SIZE" using it(2) by (simp add: rx_round_ok_def)
    show ?thesis
    proof (cases ev)
      case RxContinue
      then have "rx_inv c'" "pending c' @ drop n data = pending c @ data"
        using it(2) by (simp_all add: rx_round_ok_def)
      then show ?thesis
        using "1.IH"(1) [OF False it(1) refl refl RxContinue] False it(1) RxContinue
        by (subst rx_feed.simps) simp
    next
      case (RxBadLength k)
      then have "decode (pending c @ data) = ([], BadLength k)"
        using it(2) decode_bad [of "pending c @ take n data" "drop n data"]
        by (auto simp: rx_round_ok_def Let_def min_def)
      then show ?thesis
        using False it(1) RxBadLength buf by (subst rx_feed.simps) (simp add: feed_matches_def)
    next
      case (RxMessage m)
      define f where "f = pending c @ take n data"
      have m: "length f = 4 + length m" "length m = be_value (take 4 f)" "0 < length m"
        "length m \<le> 4092" "m = drop 4 f"
        using it(2) unfolding rx_round_ok_def RxMessage Let_def rx_event.case f_def [symmetric]
        by blast+
      have "pending c @ data = f @ drop n data" by (simp add: f_def)
      then have d: "decode (pending c @ data) =
          (m # fst (decode (drop n data)), snd (decode (drop n data)))"
        using decode_message [OF m, of "drop n data"] by simp
      obtain c'' ms bad where IH: "rx_feed le (rx_reset c') (drop n data) = Ret (c'', ms, bad)"
        "feed_matches (drop n data) (c'', ms, bad)"
        using "1.IH"(2) [OF False it(1) refl refl RxMessage] rx_inv_reset [OF buf] by auto
      have "feed_matches (pending c @ data) (c'', m # ms, bad)"
        using IH(2) d by (auto simp: feed_matches_def split: option.splits)
      then show ?thesis
        using IH(1) False it(1) RxMessage by (subst rx_feed.simps) simp
    qed
  qed
qed

text \<open>Cutting the stream differently does not change what is decoded.\<close>

lemma decode_append:
  "snd (decode xs) = Incomplete r \<Longrightarrow>
     decode (xs @ ys) = (fst (decode xs) @ fst (decode (r @ ys)), snd (decode (r @ ys)))"
proof (induction xs rule: decode.induct)
  case (1 bs)
  let ?n = "be_value (take 4 bs)"
  consider (short) "length bs < 4" | (bad) "4 \<le> length bs" "?n = 0 \<or> 4092 < ?n"
    | (part) "4 \<le> length bs" "\<not> (?n = 0 \<or> 4092 < ?n)" "length bs < 4 + ?n"
    | (full) "4 \<le> length bs" "\<not> (?n = 0 \<or> 4092 < ?n)" "4 + ?n \<le> length bs"
    by linarith
  then show ?case
  proof cases
    case short
    then have "decode bs = ([], Incomplete bs)" by (simp add: decode.simps [of bs])
    then show ?thesis using "1.prems" by simp
  next
    case bad
    then have "decode bs = ([], BadLength ?n)" by (simp add: decode.simps [of bs] Let_def)
    then show ?thesis using "1.prems" by simp
  next
    case part
    then have "decode bs = ([], Incomplete bs)" by (simp add: decode.simps [of bs] Let_def)
    then show ?thesis using "1.prems" by simp
  next
    case full
    have d: "decode bs = (take ?n (drop 4 bs) # fst (decode (drop (4 + ?n) bs)),
        snd (decode (drop (4 + ?n) bs)))"
      using full by (subst decode.simps) (simp add: Let_def split_def)
    have h: "take 4 (bs @ ys) = take 4 bs" using full(1) by simp
    have d2: "decode (bs @ ys) = (take ?n (drop 4 bs) # fst (decode (drop (4 + ?n) bs @ ys)),
        snd (decode (drop (4 + ?n) bs @ ys)))"
      using full by (subst decode.simps) (simp add: Let_def split_def h)
    have IH: "decode (drop (4 + ?n) bs @ ys) =
        (fst (decode (drop (4 + ?n) bs)) @ fst (decode (r @ ys)), snd (decode (r @ ys)))"
      using "1.IH" full "1.prems" d by simp
    show ?thesis by (simp add: d d2 IH)
  qed
qed

lemma decode_bad_append:
  "snd (decode xs) = BadLength k \<Longrightarrow> decode (xs @ ys) = decode xs"
proof (induction xs rule: decode.induct)
  case (1 bs)
  let ?n = "be_value (take 4 bs)"
  have l: "4 \<le> length bs" using "1.prems" by (subst (asm) decode.simps) (auto split: if_splits)
  have h: "take 4 (bs @ ys) = take 4 bs" using l by simp
  show ?case
  proof (cases "?n = 0 \<or> 4092 < ?n")
    case True
    then show ?thesis using l h by (simp add: decode.simps [of bs] decode.simps [of "bs @ ys"] Let_def)
  next
    case False
    then have full: "4 + ?n \<le> length bs"
      using "1.prems" l by (subst (asm) decode.simps) (auto simp: Let_def split: if_splits)
    have "snd (decode (drop (4 + ?n) bs)) = BadLength k"
      using "1.prems" l False full by (subst (asm) decode.simps) (simp add: Let_def split_def)
    then have "decode (drop (4 + ?n) bs @ ys) = decode (drop (4 + ?n) bs)"
      using "1.IH" l False full by simp
    then show ?thesis
      using l False full h
      by (simp add: decode.simps [of bs] decode.simps [of "bs @ ys"] Let_def split_def)
  qed
qed

section \<open>Frames as sent\<close>

lemma length_frame_bytes [simp]: "length (frame_bytes le data) = 4 + length data"
  by (simp add: frame_bytes_def)

lemma frame_header [simp]: "take 4 (frame_bytes le data) = store_u32 le (word_of_nat (length data))"
  by (simp add: frame_bytes_def)

lemma unat_frame_length: "length data \<le> 4092 \<Longrightarrow> unat (word_of_nat (length data) :: u32) = length data"
  by (simp add: unat_of_nat)

text \<open>On a big-endian host a frame decodes to its payload.\<close>

lemma decode_frame_be:
  assumes "0 < length data" and "length data \<le> 4092"
  shows "decode (frame_bytes False data @ rest) = (data # fst (decode rest), snd (decode rest))"
proof (rule decode_message)
  show "length data = be_value (take 4 (frame_bytes False data))"
    using assms by (simp add: store_u32_def be_value_be_bytes unat_frame_length)
qed (use assms in \<open>simp_all add: frame_bytes_def\<close>)

text \<open>
  On a little-endian host the length arrives byte-swapped, which no valid length survives: 1 to
  4092 becomes at least 65536.
\<close>

lemma be_value_le_length:
  assumes "0 < n" and "n \<le> 4092"
  shows "4092 < be_value (le_bytes (word_of_nat n))"
proof -
  have n: "unat (word_of_nat n :: u32) = n" using assms by (simp add: unat_of_nat)
  have "be_value (four_bytes n) = (n mod 256) * 2 ^ 24 + (n div 256) * 2 ^ 16"
    using assms unfolding four_bytes_def be_value_def
    by (simp only: rev.simps append.simps le_value.simps unat_byte_of_nat) simp
  moreover have "0 < n mod 256 \<or> 0 < n div 256"
    using assms(1) by (metis div_mult_mod_eq gr0I mult_zero_left plus_nat.add_0)
  ultimately show ?thesis by (auto simp: le_bytes_four n)
qed

lemma decode_frame_le:
  assumes "0 < length data" and "length data \<le> 4092"
  shows "decode (frame_bytes True data @ rest) =
           ([], BadLength (be_value (le_bytes (word_of_nat (length data)))))"
proof -
  let ?h = "le_bytes (word_of_nat (length data))"
  have "frame_bytes True data @ rest = ?h @ (data @ rest)"
    by (simp add: frame_bytes_def store_u32_def)
  then show ?thesis
    using decode_bad [of ?h "data @ rest"] be_value_le_length [OF assms] by simp
qed

text \<open>
  Bytes that are no frame: if the first byte is not zero, the big-endian length is at least
  16777216, so any text of four bytes or more is a bad length.
\<close>

lemma decode_text:
  assumes "4 \<le> length bs" and "hd bs \<noteq> 0"
  shows "decode bs = ([], BadLength (be_value (take 4 bs)))"
proof -
  obtain a b c d rest where bs: "bs = [a, b, c, d] @ rest"
    using assms(1) by (auto simp: eval_nat_numeral Suc_le_length_iff)
  have "0 < unat a" using assms(2) bs by (simp add: unat_gt_0)
  then have "4092 < be_value [a, b, c, d]" by (simp add: be_value_def)
  then show ?thesis using decode_bad [of "[a, b, c, d]" rest] bs by simp
qed

end
