(* ===== verification/Server_Inv.thy ===== *)
theory Server_Inv
  imports Server_Registry Uv_Timer_Facts Wire_Facts
begin

text \<open>
  The invariant of the server between two callbacks. \<open>server_core\<close> says what holds of the loop and
  of every live client: the timer heap is sound, the client array lists exactly the live clients,
  each client has its own open or closing TCP handle and its own idle timer, the closing chain
  holds live handles once, and every queued write belongs to a live client and is counted once.
  The lemmas show that each primitive step of the handlers keeps it.
\<close>

section \<open>The invariant\<close>

text \<open>
  The handles waiting for their close callback: the closing chain, and the part of it that a
  running \<open>uv__run_closing_handles\<close> has not got to yet.
\<close>

definition chain :: "server_loop \<Rightarrow> hid list" where
  "chain L = closing_handles L @ detached L"

lemma chain_updates [simp]:
  "chain (L\<lparr>handles := hs\<rparr>) = chain L" "chain (L\<lparr>active_reqs := n\<rparr>) = chain L"
  "chain (L\<lparr>write_queue := q\<rparr>) = chain L" "chain (L\<lparr>active_handles := n\<rparr>) = chain L"
  "chain (L\<lparr>ready_queue := r\<rparr>) = chain L" "chain (L\<lparr>loop_time := t\<rparr>) = chain L"
  "chain (L\<lparr>handle_queue := r\<rparr>) = chain L" "chain (L\<lparr>timer_heap := r\<rparr>) = chain L"
  "chain (set_handle L h x) = chain L"
  by (simp_all add: chain_def set_handle_def)

definition tcp_ok :: "(server_cb, udata) uv_handle option \<Rightarrow> bool \<Rightarrow> nat \<Rightarrow> bool" where
  "tcp_ok ox closing a \<longleftrightarrow>
     (\<exists>x. ox = Some x \<and> htype x = UV_TCP \<and> hdata x = Some (ClientPtr a) \<and> \<not> f_closed x \<and>
        f_closing x = closing \<and>
        (closing \<longrightarrow> close_cb x = Some On_client_close \<and> \<not> f_reading x \<and> \<not> fd_open x))"

definition idle_ok :: "(server_cb, udata) uv_handle option \<Rightarrow> nat \<Rightarrow> bool" where
  "idle_ok ot a \<longleftrightarrow>
     (\<exists>t. ot = Some t \<and> htype t = UV_TIMER \<and> (f_active t \<or> node_linked t) \<and>
        hdata t = Some (ClientPtr a) \<and> \<not> f_closing t \<and> \<not> f_closed t \<and>
        timer_cb t = Some On_idle_timeout \<and> repeat t = 60000)"

definition client_fields_ok :: "client_t \<Rightarrow> bool" where
  "client_fields_ok c \<longleftrightarrow>
     length (buffer c) = CLIENT_BUFFER_SIZE \<and> server_set c \<and> (is_valid c \<longrightarrow> magic c = CLIENT_MAGIC)"

definition clients_ok :: "'l server \<Rightarrow> bool" where
  "clients_ok w \<longleftrightarrow>
     (\<forall>a c. client_mem w a = Some c \<longrightarrow>
        client_fields_ok c \<and>
        tcp_ok (handles (uv w) (ClientHandle a)) (ClientHandle a \<in> set (chain (uv w))) a \<and>
        idle_ok (handles (uv w) (IdleTimer a)) a)"

definition no_stale_handles :: "'l server \<Rightarrow> bool" where
  "no_stale_handles w \<longleftrightarrow>
     (\<forall>a. a \<notin> dom (client_mem w) \<longrightarrow>
        handles (uv w) (ClientHandle a) = None \<and> handles (uv w) (IdleTimer a) = None)"

definition closing_ok :: "'l server \<Rightarrow> bool" where
  "closing_ok w \<longleftrightarrow>
     distinct (chain (uv w)) \<and>
     (\<forall>h \<in> set (chain (uv w)).
        h = ServerHandle \<or> h \<in> ClientHandle ` dom (client_mem w)) \<and>
     (\<exists>x. handles (uv w) ServerHandle = Some x \<and> htype x = UV_TCP \<and>
        (f_closing x \<and> \<not> f_closed x \<longleftrightarrow> ServerHandle \<in> set (chain (uv w))) \<and>
        (f_closing x \<longrightarrow> close_cb x = Some On_server_close))"

definition writes_ok :: "'l server \<Rightarrow> bool" where
  "writes_ok w \<longleftrightarrow>
     fst ` set (write_queue (uv w)) \<subseteq> ClientHandle ` dom (client_mem w) \<and>
     live_writes w = int (length (write_queue (uv w)))"

text \<open>Timers waiting in the ready queue of a running \<open>uv__run_timers\<close>.\<close>

definition ready_ok :: "'l server \<Rightarrow> bool" where
  "ready_ok w \<longleftrightarrow>
     distinct (ready_queue (uv w)) \<and>
     (\<forall>h \<in> set (ready_queue (uv w)). h \<in> IdleTimer ` dom (client_mem w) \<and>
        (\<exists>t. handles (uv w) h = Some t \<and> \<not> f_active t))"

definition server_core :: "'l server \<Rightarrow> bool" where
  "server_core w \<longleftrightarrow>
     timers_ok (uv w) \<and> registry_ok w \<and> registered w = dom (client_mem w) \<and> clients_ok w \<and>
     no_stale_handles w \<and> closing_ok w \<and> writes_ok w \<and> ready_ok w"

text \<open>
  Between two events of the loop no buffer of a read is alive, no timer is pending, and the
  receive buffer of a client in use is in order, which it is not while a complete message is
  being handled.
\<close>

definition rx_ok :: "nat set \<Rightarrow> 'l server \<Rightarrow> bool" where
  "rx_ok A w \<longleftrightarrow>
     (\<forall>a c. a \<notin> A \<longrightarrow> client_mem w a = Some c \<longrightarrow> magic c = CLIENT_MAGIC \<longrightarrow> rx_inv c)"

definition server_inv :: "'l server \<Rightarrow> bool" where
  "server_inv w \<longleftrightarrow>
     server_core w \<and> rx_ok {} w \<and> read_bufs w = [] \<and> ready_queue (uv w) = [] \<and>
     detached (uv w) = []"

lemmas core_defs = server_core_def clients_ok_def no_stale_handles_def closing_ok_def writes_ok_def
  ready_ok_def

subsection \<open>Reading the invariant off\<close>

lemma core_timers: "server_core w \<Longrightarrow> timers_ok (uv w)"
  and core_registry: "server_core w \<Longrightarrow> registry_ok w"
  and core_registered: "server_core w \<Longrightarrow> registered w = dom (client_mem w)"
  by (simp_all add: server_core_def)

lemma core_fields: "server_core w \<Longrightarrow> client_mem w a = Some c \<Longrightarrow> client_fields_ok c"
  by (simp add: server_core_def clients_ok_def)

lemma core_tcpE:
  assumes "server_core w" and "client_mem w a = Some c"
  obtains x where "handles (uv w) (ClientHandle a) = Some x" and "htype x = UV_TCP"
    and "hdata x = Some (ClientPtr a)" and "\<not> f_closed x"
    and "f_closing x \<longleftrightarrow> ClientHandle a \<in> set (chain (uv w))"
    and "f_closing x \<longrightarrow> close_cb x = Some On_client_close \<and> \<not> f_reading x \<and> \<not> fd_open x"
proof -
  have "tcp_ok (handles (uv w) (ClientHandle a)) (ClientHandle a \<in> set (chain (uv w))) a"
    using assms by (simp add: server_core_def clients_ok_def)
  then show thesis unfolding tcp_ok_def using that by blast
qed

lemma core_idleE:
  assumes "server_core w" and "client_mem w a = Some c"
  obtains t where "handles (uv w) (IdleTimer a) = Some t" and "htype t = UV_TIMER"
    and "f_active t \<or> node_linked t" and "hdata t = Some (ClientPtr a)" and "\<not> f_closing t"
    and "\<not> f_closed t" and "timer_cb t = Some On_idle_timeout" and "repeat t = 60000"
proof -
  have "idle_ok (handles (uv w) (IdleTimer a)) a"
    using assms by (simp add: server_core_def clients_ok_def)
  then show thesis unfolding idle_ok_def using that by blast
qed

lemma core_is_timer: "server_core w \<Longrightarrow> client_mem w a = Some c \<Longrightarrow> is_timer (uv w) (IdleTimer a)"
  by (rule core_idleE) (auto simp: is_timer_def)

lemma core_is_closing:
  assumes "server_core w" and "client_mem w a = Some c"
  shows "uv_is_closing (uv w) (ClientHandle a) =
           Ret (ClientHandle a \<in> set (chain (uv w)))"
  by (rule core_tcpE [OF assms]) (simp add: uv_is_closing_def uv__is_closing_def)

lemma client_valid_iff:
  assumes "server_core w" and "client_mem w a = Some c"
  shows "is_client_valid w (Some a) = Ret (is_valid c)"
  using core_fields [OF assms] assms by (auto simp: is_client_valid_def client_fields_ok_def)

subsection \<open>Updates that do not matter\<close>

lemma core_ignores [simp]:
  "server_core (w\<lparr>trace := tr\<rparr>) = server_core w"
  "server_core (w\<lparr>lua := l\<rparr>) = server_core w"
  "server_core (w\<lparr>mallocs := ms\<rparr>) = server_core w"
  "server_core (w\<lparr>read_bufs := bs\<rparr>) = server_core w"
  "server_core (emit e w) = server_core w"
  "server_core (w\<lparr>trace := tr, live_writes := n\<rparr>) = server_core (w\<lparr>live_writes := n\<rparr>)"
  by (simp_all add: core_defs registry_ok_def registered_def emit_def)

lemma emit_simps [simp]:
  "uv (emit e w) = uv w" "client_mem (emit e w) = client_mem w" "clients (emit e w) = clients w"
  "client_count (emit e w) = client_count w" "client_capacity (emit e w) = client_capacity w"
  "lua (emit e w) = lua w" "script (emit e w) = script w" "host_le (emit e w) = host_le w"
  "mallocs (emit e w) = mallocs w" "live_writes (emit e w) = live_writes w"
  "read_bufs (emit e w) = read_bufs w" "trace (emit e w) = trace w @ [e]"
  by (simp_all add: emit_def)

lemma set_uv_simps [simp]:
  "uv (set_uv L w) = L" "client_mem (set_uv L w) = client_mem w" "clients (set_uv L w) = clients w"
  "client_count (set_uv L w) = client_count w" "client_capacity (set_uv L w) = client_capacity w"
  "lua (set_uv L w) = lua w" "script (set_uv L w) = script w" "host_le (set_uv L w) = host_le w"
  "mallocs (set_uv L w) = mallocs w" "live_writes (set_uv L w) = live_writes w"
  "read_bufs (set_uv L w) = read_bufs w" "trace (set_uv L w) = trace w"
  by (simp_all add: set_uv_def)

lemma set_client_simps [simp]:
  "uv (set_client w a c) = uv w" "client_mem (set_client w a c) = (client_mem w)(a \<mapsto> c)"
  "clients (set_client w a c) = clients w" "client_count (set_client w a c) = client_count w"
  "client_capacity (set_client w a c) = client_capacity w" "lua (set_client w a c) = lua w"
  "script (set_client w a c) = script w" "host_le (set_client w a c) = host_le w"
  "mallocs (set_client w a c) = mallocs w" "live_writes (set_client w a c) = live_writes w"
  "read_bufs (set_client w a c) = read_bufs w" "trace (set_client w a c) = trace w"
  by (simp_all add: set_client_def)

text \<open>The receive state is in three fields of the client.\<close>

lemma rx_inv_updates [simp]:
  "rx_inv (c\<lparr>is_valid := b\<rparr>) = rx_inv c" "rx_inv (c\<lparr>magic := m\<rparr>) = rx_inv c"
  "rx_inv (c\<lparr>last_activity := t\<rparr>) = rx_inv c" "rx_inv (c\<lparr>array_index := i\<rparr>) = rx_inv c"
  "rx_inv (c\<lparr>server_set := b\<rparr>) = rx_inv c"
  by (simp_all add: rx_inv_def)

lemma rx_ok_ignores [simp]:
  "rx_ok A (emit e w) = rx_ok A w" "rx_ok A (set_uv L w) = rx_ok A w"
  "rx_ok A (w\<lparr>read_bufs := bs\<rparr>) = rx_ok A w" "rx_ok A (w\<lparr>mallocs := ms\<rparr>) = rx_ok A w"
  by (simp_all add: rx_ok_def)

lemma rx_ok_set_client:
  "rx_ok A w \<Longrightarrow> a \<in> A \<or> (magic c = CLIENT_MAGIC \<longrightarrow> rx_inv c) \<Longrightarrow> rx_ok A (set_client w a c)"
  by (auto simp: rx_ok_def)

section \<open>Primitive steps\<close>

text \<open>Most of the invariant depends on the loop and the set of live clients only.\<close>

lemma parts_cong:
  assumes "uv w' = uv w" and "dom (client_mem w') = dom (client_mem w)"
    and "live_writes w' = live_writes w"
  shows "no_stale_handles w' = no_stale_handles w" and "closing_ok w' = closing_ok w"
    and "writes_ok w' = writes_ok w" and "ready_ok w' = ready_ok w"
  using assms by (simp_all add: no_stale_handles_def closing_ok_def writes_ok_def ready_ok_def)

text \<open>Changing fields of a client other than its slot.\<close>

lemma core_set_client:
  assumes core: "server_core w" and c: "client_mem w a = Some c"
    and "client_fields_ok c'" and idx: "array_index c' = array_index c"
  shows "server_core (set_client w a c')"
proof -
  have "\<exists>d'. client_mem (set_client w a c') b = Some d' \<and> array_index d' = array_index d"
    if "client_mem w b = Some d" for b d
    using that c idx by (cases "b = a") simp_all
  then have "registry_ok (set_client w a c') \<and> registered (set_client w a c') = registered w"
    using registry_ok_frame [OF core_registry [OF core], of "set_client w a c'"] by simp
  moreover have dom: "dom (client_mem (set_client w a c')) = dom (client_mem w)" using c by auto
  moreover have "clients_ok (set_client w a c')"
    using assms by (simp add: server_core_def clients_ok_def)
  ultimately show ?thesis
    using core parts_cong [of "set_client w a c'" w, OF _ dom] by (simp add: server_core_def)
qed

text \<open>
  A change of the loop that only touches handles of live clients keeps the invariant, when it
  keeps what the invariant says of these handles.
\<close>

lemma core_set_uv:
  assumes core: "server_core w" and "timers_ok L"
    and "\<And>a c. client_mem w a = Some c \<Longrightarrow>
           tcp_ok (handles L (ClientHandle a)) (ClientHandle a \<in> set (chain L)) a \<and>
           idle_ok (handles L (IdleTimer a)) a"
    and "\<And>h. handles (uv w) h = None \<Longrightarrow> handles L h = None"
    and "closing_ok (set_uv L w)" and "writes_ok (set_uv L w)" and "ready_ok (set_uv L w)"
  shows "server_core (set_uv L w)"
  using assms by (simp add: server_core_def clients_ok_def no_stale_handles_def registry_ok_def
      registered_def)

lemma core_timer_stop:
  assumes core: "server_core w" and c: "client_mem w a = Some c"
  obtains L where "uv_timer_stop (uv w) (IdleTimer a) = Ret L" and "server_core (set_uv L w)"
    and "chain L = chain (uv w)" and "detached L = detached (uv w)"
    and "\<And>h. h \<noteq> IdleTimer a \<Longrightarrow> handles L h = handles (uv w) h"
    and "loop_time L = loop_time (uv w)" and "write_queue L = write_queue (uv w)"
    and "IdleTimer a \<notin> set (ready_queue L)" and "set (ready_queue L) \<subseteq> set (ready_queue (uv w))"
    and "IdleTimer a \<notin> set (ready_queue (uv w)) \<longrightarrow> ready_queue L = ready_queue (uv w)"
proof -
  obtain t where t: "handles (uv w) (IdleTimer a) = Some t" "htype t = UV_TIMER"
      "f_active t \<or> node_linked t" "hdata t = Some (ClientPtr a)" "\<not> f_closing t" "\<not> f_closed t"
      "timer_cb t = Some On_idle_timeout" "repeat t = 60000"
    using core_idleE [OF core c] .
  obtain L x' where L: "uv_timer_stop (uv w) (IdleTimer a) = Ret L" "timers_ok L"
      "handles L = (handles (uv w))(IdleTimer a \<mapsto> x')"
      "\<exists>x. handles (uv w) (IdleTimer a) = Some x \<and> x' = x\<lparr>f_active := False, node_linked := True\<rparr>"
      "loop_time L = loop_time (uv w)" "closing_handles L = closing_handles (uv w)"
      "write_queue L = write_queue (uv w)" "detached L = detached (uv w)"
      "ready_queue L = (if IdleTimer a \<in> set (timer_heap (uv w)) then ready_queue (uv w)
                        else remove1 (IdleTimer a) (ready_queue (uv w)))"
    by (rule uv_timer_stop_ok [OF core_timers [OF core] core_is_timer [OF core c]]) blast
  have ch: "chain L = chain (uv w)" using L(6,8) by (simp add: chain_def)
  have x': "x' = t\<lparr>f_active := False, node_linked := True\<rparr>" using L(4) t(1) by simp
  have ready: "ready_ok w" using core by (simp add: server_core_def)
  have out: "IdleTimer a \<notin> set (ready_queue L) \<and> set (ready_queue L) \<subseteq> set (ready_queue (uv w)) \<and>
      distinct (ready_queue L) \<and>
      (IdleTimer a \<notin> set (ready_queue (uv w)) \<longrightarrow> ready_queue L = ready_queue (uv w))"
  proof (cases "f_active t")
    case True
    then have "IdleTimer a \<notin> set (ready_queue (uv w))" using ready t(1) by (auto simp: ready_ok_def)
    then show ?thesis using L(9) ready by (auto simp: ready_ok_def remove1_idem dest: in_set_remove1)
  next
    case False
    then have "IdleTimer a \<notin> set (timer_heap (uv w))"
      using timers_ok_mem_iff [OF core_timers [OF core]] t(1) by simp
    then show ?thesis
      using L(9) ready by (auto simp: ready_ok_def remove1_idem dest: notin_set_remove1)
  qed
  have "server_core (set_uv L w)"
  proof (rule core_set_uv [OF core L(2)])
    show "tcp_ok (handles L (ClientHandle b)) (ClientHandle b \<in> set (chain L)) b \<and>
        idle_ok (handles L (IdleTimer b)) b" if "client_mem w b = Some d" for b d
      using core that t by (auto simp: server_core_def clients_ok_def L(3) ch x' idle_ok_def)
    show "ready_ok (set_uv L w)"
      using ready out by (auto simp: ready_ok_def L(3))
  qed (use core t in \<open>auto simp: core_defs L(3,7) ch\<close>)
  then show thesis using that [OF L(1)] L out ch by simp
qed

text \<open>Closing the connection of a client that is not closing yet.\<close>

lemma core_close:
  assumes core: "server_core w" and c: "client_mem w a = Some c"
    and nc: "ClientHandle a \<notin> set (chain (uv w))"
  obtains L where "uv_close (uv w) (ClientHandle a) (Some On_client_close) = Ret L"
    and "server_core (set_uv L w)"
    and "chain L = ClientHandle a # chain (uv w)" and "detached L = detached (uv w)"
    and "loop_time L = loop_time (uv w)" and "write_queue L = write_queue (uv w)"
    and "ready_queue L = ready_queue (uv w)"
    and "\<And>h. h \<noteq> ClientHandle a \<Longrightarrow> handles L h = handles (uv w) h"
proof -
  obtain x where x: "handles (uv w) (ClientHandle a) = Some x" "htype x = UV_TCP"
      "hdata x = Some (ClientPtr a)" "\<not> f_closed x" "\<not> f_closing x"
    using core_tcpE [OF core c] nc by metis
  obtain L x' where L: "uv_close (uv w) (ClientHandle a) (Some On_client_close) = Ret L" "timers_ok L"
      "handles L = (handles (uv w))(ClientHandle a \<mapsto> x')"
      "x' = x\<lparr>f_closing := True, close_cb := Some On_client_close, f_active := False,
         f_reading := False, f_readable := False, f_writable := False, fd_open := False\<rparr>"
      "closing_handles L = ClientHandle a # closing_handles (uv w)" "detached L = detached (uv w)"
      "loop_time L = loop_time (uv w)" "write_queue L = write_queue (uv w)"
      "ready_queue L = ready_queue (uv w)"
    by (rule uv_close_stream [OF core_timers [OF core] x(1) disjI1 [OF x(2)],
          of "Some On_client_close"]) (use x in \<open>simp_all add: uv__is_closing_def\<close>)
  have ch: "chain L = ClientHandle a # chain (uv w)" using L(5,6) by (simp add: chain_def)
  have "server_core (set_uv L w)"
  proof (rule core_set_uv [OF core L(2)])
    show "tcp_ok (handles L (ClientHandle b)) (ClientHandle b \<in> set (chain L)) b \<and>
        idle_ok (handles L (IdleTimer b)) b" if "client_mem w b = Some d" for b d
    proof (cases "b = a")
      case True
      then show ?thesis
        using core x c by (auto simp: server_core_def clients_ok_def L(3,4) ch tcp_ok_def)
    next
      case False
      then show ?thesis
        using core that by (auto simp: server_core_def clients_ok_def L(3) ch)
    qed
  qed (use core nc x c in \<open>auto simp: core_defs L(3,8,9) ch\<close>)
  then show thesis using that [OF L(1)] L ch by simp
qed

lemma core_close_again:
  assumes core: "server_core w" and c: "client_mem w a = Some c"
    and "ClientHandle a \<in> set (chain (uv w))"
  shows "uv_close (uv w) (ClientHandle a) cb = Fault AssertionFailure"
proof -
  obtain x where "handles (uv w) (ClientHandle a) = Some x" "f_closing x"
    using core_tcpE [OF core c] assms(3) by metis
  then show ?thesis by (simp add: uv_close_twice uv__is_closing_def)
qed

text \<open>Replacing the queue of writes, with the count of live requests.\<close>

lemma core_queue:
  assumes core: "server_core w"
    and q: "fst ` set q \<subseteq> ClientHandle ` dom (client_mem w)"
  shows "server_core ((set_uv ((uv w)\<lparr>write_queue := q, active_reqs := n\<rparr>) w)
           \<lparr>live_writes := int (length q)\<rparr>)" (is "server_core ?w")
proof -
  have "timers_ok (uv ?w)" by (rule timers_ok_frame [OF core_timers [OF core]]) simp_all
  moreover have "registry_ok ?w" "registered ?w = registered w"
    using core by (simp_all add: server_core_def registry_ok_def registered_def)
  ultimately show ?thesis using core q by (simp add: core_defs)
qed

end
