(* ===== verification/Server_Lua.thy ===== *)
theory Server_Lua
  imports Server_Inv
begin

text \<open>
  What a Lua callback can do to the server. A script that only passes client pointers it may
  still use never stops the process, whatever it computes from the results; it keeps the
  invariant, and it changes nothing of a client but to clear \<open>is_valid\<close> (\<open>lua_frame\<close>). A script
  that closes no client leaves clients and handles alone altogether (\<open>no_close\<close>).
\<close>

section \<open>Scripts\<close>

primrec uses :: "nat set \<Rightarrow> 'l lua_act \<Rightarrow> bool" where
  "uses A (LuaReturn l) = True"
| "uses A (LuaError l m) = True"
| "uses A (SendData p bs k) = (set_option p \<subseteq> A \<and> (\<forall>r. uses A (k r)))"
| "uses A (SendBson p bs k) = (set_option p \<subseteq> A \<and> (\<forall>r. uses A (k r)))"
| "uses A (CloseClient p k) = (set_option p \<subseteq> A \<and> (\<forall>r. uses A (k r)))"
| "uses A (IsClosing p k) = (set_option p \<subseteq> A \<and> (\<forall>r. uses A (k r)))"
| "uses A (GetClientCount k) = (\<forall>n. uses A (k n))"
| "uses A (Log level msg k) = uses A k"

primrec no_close :: "'l lua_act \<Rightarrow> bool" where
  "no_close (LuaReturn l) = True"
| "no_close (LuaError l m) = True"
| "no_close (SendData p bs k) = (\<forall>r. no_close (k r))"
| "no_close (SendBson p bs k) = (\<forall>r. no_close (k r))"
| "no_close (CloseClient p k) = False"
| "no_close (IsClosing p k) = (\<forall>r. no_close (k r))"
| "no_close (GetClientCount k) = (\<forall>n. no_close (k n))"
| "no_close (Log level msg k) = no_close k"

section \<open>Frames\<close>

definition only_invalidated :: "client_t \<Rightarrow> client_t \<Rightarrow> bool" where
  "only_invalidated c c' \<longleftrightarrow> c' = c \<or> c' = c\<lparr>is_valid := False\<rparr>"

definition quiet :: "event \<Rightarrow> bool" where
  "quiet e \<longleftrightarrow> (case e of LogLine l m \<Rightarrow> True | Queued a bs \<Rightarrow> True | Stderr m \<Rightarrow> True | _ \<Rightarrow> False)"

definition lua_frame :: "'l server \<Rightarrow> 'l server \<Rightarrow> bool" where
  "lua_frame w w' \<longleftrightarrow>
     script w' = script w \<and> host_le w' = host_le w \<and> clients w' = clients w \<and>
     client_count w' = client_count w \<and> client_capacity w' = client_capacity w \<and>
     read_bufs w' = read_bufs w \<and> loop_time (uv w') = loop_time (uv w) \<and>
     detached (uv w') = detached (uv w) \<and> set (ready_queue (uv w')) \<subseteq> set (ready_queue (uv w)) \<and>
     (mallocs w = [] \<longrightarrow> mallocs w' = []) \<and>
     (\<forall>a. rel_option only_invalidated (client_mem w a) (client_mem w' a)) \<and>
     (\<exists>es. trace w' = trace w @ es \<and> list_all quiet es)"

text \<open>What stays the same when no client is closed.\<close>

definition same_clients :: "'l server \<Rightarrow> 'l server \<Rightarrow> bool" where
  "same_clients w w' \<longleftrightarrow>
     client_mem w' = client_mem w \<and> handles (uv w') = handles (uv w) \<and>
     chain (uv w') = chain (uv w)"

lemma only_invalidated_refl [simp]: "only_invalidated c c"
  by (simp add: only_invalidated_def)

lemma only_invalidated_trans:
  "only_invalidated a b \<Longrightarrow> only_invalidated b c \<Longrightarrow> only_invalidated a c"
  by (auto simp: only_invalidated_def)

lemma rel_only_invalidated_trans:
  "rel_option only_invalidated x y \<Longrightarrow> rel_option only_invalidated y z \<Longrightarrow>
     rel_option only_invalidated x z"
  by (cases x; cases y; cases z) (auto intro: only_invalidated_trans)

lemma lua_frame_refl [simp]: "lua_frame w w"
  by (auto simp: lua_frame_def option.rel_refl)

lemma lua_frame_trans [trans]:
  assumes "lua_frame w w'" and "lua_frame w' w''"
  shows "lua_frame w w''"
proof -
  have "rel_option only_invalidated (client_mem w a) (client_mem w'' a)" for a
    using assms rel_only_invalidated_trans [of "client_mem w a" "client_mem w' a"]
    by (simp add: lua_frame_def)
  moreover have "\<exists>es. trace w'' = trace w @ es \<and> list_all quiet es"
  proof -
    obtain es es' where "trace w' = trace w @ es" "list_all quiet es"
        "trace w'' = trace w' @ es'" "list_all quiet es'"
      using assms by (auto simp: lua_frame_def)
    then show ?thesis by (intro exI [of _ "es @ es'"]) simp
  qed
  moreover have "set (ready_queue (uv w'')) \<subseteq> set (ready_queue (uv w))"
    using assms by (auto simp: lua_frame_def)
  ultimately show ?thesis using assms by (simp add: lua_frame_def)
qed

lemma lua_frame_quiet:
  "quiet e \<Longrightarrow> lua_frame w (emit e w)"
  "lua_frame w (w\<lparr>lua := l\<rparr>)"
  "(mallocs w = [] \<longrightarrow> ms = []) \<Longrightarrow> lua_frame w (w\<lparr>mallocs := ms\<rparr>)"
  by (auto simp: lua_frame_def option.rel_refl)

lemma quiet_simps [simp]: "quiet (LogLine l m)" "quiet (Queued a bs)" "quiet (Stderr m)"
  by (simp_all add: quiet_def)

lemma same_clients_refl [simp]: "same_clients w w"
  by (simp add: same_clients_def)

lemma same_clients_trans [trans]: "same_clients w w' \<Longrightarrow> same_clients w' w'' \<Longrightarrow> same_clients w w''"
  by (simp add: same_clients_def)

lemma lua_frame_dom: "lua_frame w w' \<Longrightarrow> dom (client_mem w') = dom (client_mem w)"
proof -
  assume "lua_frame w w'"
  then have "rel_option only_invalidated (client_mem w a) (client_mem w' a)" for a
    by (simp add: lua_frame_def)
  then have "client_mem w' a \<noteq> None \<longleftrightarrow> client_mem w a \<noteq> None" for a
    by (metis option.rel_distinct(1,2) option.collapse)
  then show ?thesis by (simp only: dom_def)
qed

lemma lua_frame_client:
  assumes "lua_frame w w'" and "client_mem w a = Some c"
  obtains c' where "client_mem w' a = Some c'" and "only_invalidated c c'"
  using assms by (auto simp: lua_frame_def option_rel_Some1 dest!: spec [of _ a])

lemma only_invalidated_fields:
  assumes "only_invalidated c c'"
  shows "magic c' = magic c" "rx_inv c' = rx_inv c" "buffer c' = buffer c"
    "buffer_used c' = buffer_used c" "expected_length c' = expected_length c"
  using assms by (auto simp: only_invalidated_def)

lemma lua_frame_rx_ok:
  assumes "lua_frame w w'" and "rx_ok A w"
  shows "rx_ok A w'"
  unfolding rx_ok_def
proof (intro allI impI)
  fix a c' assume a: "a \<notin> A" "client_mem w' a = Some c'" "magic c' = CLIENT_MAGIC"
  have "rel_option only_invalidated (client_mem w a) (client_mem w' a)"
    using assms(1) by (simp add: lua_frame_def)
  then obtain c where "client_mem w a = Some c" "only_invalidated c c'"
    using a(2) by (auto simp: option_rel_Some2)
  then show "rx_inv c'" using assms(2) a by (auto simp: rx_ok_def only_invalidated_fields)
qed

section \<open>The \<open>gear\<close> functions\<close>

lemma next_malloc_simps:
  assumes "next_malloc w = (ok, w')"
  shows "\<exists>ms. w' = w\<lparr>mallocs := ms\<rparr> \<and> (mallocs w = [] \<longrightarrow> ms = [])"
proof (cases "mallocs w")
  case Nil
  have "w\<lparr>mallocs := mallocs w\<rparr> = w" by simp
  then have same: "w\<lparr>mallocs := []\<rparr> = w" by (simp only: Nil)
  have "w' = w" using assms by (simp add: next_malloc_def Nil)
  then have "w' = w\<lparr>mallocs := []\<rparr>" by (rule trans [OF _ same [symmetric]])
  then show ?thesis by blast
next
  case (Cons b bs)
  moreover have "mallocs w = [] \<longrightarrow> bs = []" using Cons by simp
  ultimately have "w' = w\<lparr>mallocs := bs\<rparr> \<and> (mallocs w = [] \<longrightarrow> bs = [])"
    using assms by (simp add: next_malloc_def)
  then show ?thesis by (rule exI)
qed

text \<open>Queueing a write on the stream of a live client.\<close>

lemma uv_write_ok:
  assumes core: "server_core w" and c: "client_mem w a = Some c"
  shows "uv_write (uv w) (ClientHandle a) bs = Ret (UV_EBADF, uv w) \<or>
    uv_write (uv w) (ClientHandle a) bs = Ret (UV_EPIPE, uv w) \<or>
    uv_write (uv w) (ClientHandle a) bs = Ret (0, (uv w)\<lparr>active_reqs := active_reqs (uv w) + 1,
        write_queue := write_queue (uv w) @ [(ClientHandle a, bs)]\<rparr>)"
proof -
  obtain x where "handles (uv w) (ClientHandle a) = Some x" "htype x = UV_TCP"
    using core_tcpE [OF core c] .
  then show ?thesis by (simp add: uv_write_def)
qed

lemma core_write:
  assumes core: "server_core w" and c: "client_mem w a = Some c"
  shows "server_core (emit (Queued a bs) ((set_uv ((uv w)\<lparr>active_reqs := n,
      write_queue := write_queue (uv w) @ [(ClientHandle a, bs)]\<rparr>) w)
      \<lparr>live_writes := live_writes w + 1\<rparr>))"
  (is "server_core (emit ?e (?w\<lparr>live_writes := _\<rparr>))")
proof -
  have "timers_ok (uv ?w)" by (rule timers_ok_frame [OF core_timers [OF core]]) simp_all
  then show ?thesis
    using core c by (auto simp: core_defs registry_ok_def registered_def emit_def set_uv_def)
qed

definition good_run :: "'l server \<Rightarrow> 'l server \<Rightarrow> bool" where
  "good_run w w' \<longleftrightarrow> server_core w' \<and> lua_frame w w'"

lemma send_buffer_ok:
  assumes core: "server_core w" and p: "set_option p \<subseteq> dom (client_mem w)"
  shows "\<exists>r w'. send_buffer w p data = Ret (r, w') \<and> good_run w w' \<and> same_clients w w'"
proof (cases p)
  case None
  then show ?thesis using core by (simp add: send_buffer_def is_client_valid_def good_run_def)
next
  case (Some a)
  then obtain c where c: "client_mem w a = Some c" using p by auto
  show ?thesis
  proof (cases "is_valid c \<and> ClientHandle a \<notin> set (chain (uv w)) \<and>
      length data \<le> CLIENT_BUFFER_SIZE - MESSAGE_HEADER_SIZE \<and> data \<noteq> []")
    case False
    then show ?thesis
      using core c
      by (auto simp: send_buffer_def Some client_valid_iff [OF core c] core_is_closing [OF core c]
          good_run_def)
  next
    case True
    obtain ok1 w1 where m1: "next_malloc w = (ok1, w1)" by fastforce
    obtain ok2 w2 where m2: "next_malloc w1 = (ok2, w2)" by fastforce
    obtain ms1 where w1: "w1 = w\<lparr>mallocs := ms1\<rparr>" "mallocs w = [] \<longrightarrow> ms1 = []"
      using next_malloc_simps [OF m1] by blast
    obtain ms2 where w2: "w2 = w\<lparr>mallocs := ms2\<rparr>" "mallocs w = [] \<longrightarrow> ms2 = []"
      using next_malloc_simps [OF m2] w1 by auto
    let ?f = "frame_bytes (host_le w) data"
    let ?q = "(set_uv ((uv w)\<lparr>active_reqs := active_reqs (uv w) + 1,
        write_queue := write_queue (uv w) @ [(ClientHandle a, ?f)]\<rparr>) w2)"
    have g1: "good_run w w1 \<and> same_clients w w1" and g2: "good_run w w2 \<and> same_clients w w2"
      using core by (simp_all add: good_run_def w1 w2 same_clients_def lua_frame_quiet)
    have c2: "client_mem w2 a = Some c" and core2: "server_core w2"
      using c core by (simp_all add: w2)
    have "server_core (emit (Queued a ?f) (?q\<lparr>live_writes := live_writes w + 1\<rparr>))"
      using core_write [OF core2 c2, of ?f "active_reqs (uv w) + 1"] by (simp add: w2)
    moreover have "lua_frame w (emit (Queued a ?f) (?q\<lparr>live_writes := live_writes w + 1\<rparr>))"
      by (auto simp: lua_frame_def option.rel_refl w2 set_uv_def)
    moreover have "same_clients w (emit (Queued a ?f) (?q\<lparr>live_writes := live_writes w + 1\<rparr>))"
      by (simp add: same_clients_def w2)
    ultimately have g3: "good_run w (emit (Queued a ?f) (?q\<lparr>live_writes := live_writes w + 1\<rparr>)) \<and>
        same_clients w (emit (Queued a ?f) (?q\<lparr>live_writes := live_writes w + 1\<rparr>))"
      by (simp add: good_run_def)
    have same: "set_uv (uv w) w2 = w2" "uv w2 = uv w" "host_le w2 = host_le w"
        "live_writes w2 = live_writes w"
      by (simp_all add: w2 set_uv_def)
    show ?thesis
      using True g1 g2 g3 uv_write_ok [OF core c, of ?f]
      by (auto simp: send_buffer_def Some client_valid_iff [OF core c] core_is_closing [OF core c]
          m1 m2 Let_def on_loop_rc_def same UV_EBADF_def UV_EPIPE_def)
  qed
qed

lemma lua_close_client_ok:
  assumes core: "server_core w" and p: "set_option p \<subseteq> dom (client_mem w)"
  shows "\<exists>r w'. lua_close_client w p = Ret (r, w') \<and> good_run w w'"
proof (cases p)
  case None
  then show ?thesis using core by (simp add: lua_close_client_def is_client_valid_def good_run_def)
next
  case (Some a)
  then obtain c where c: "client_mem w a = Some c" using p by auto
  show ?thesis
  proof (cases "is_valid c \<and> ClientHandle a \<notin> set (chain (uv w))")
    case False
    then show ?thesis
      using core c
      by (auto simp: lua_close_client_def Some client_valid_iff [OF core c]
          core_is_closing [OF core c] good_run_def)
  next
    case True
    let ?w1 = "set_client w a (c\<lparr>is_valid := False\<rparr>)"
    have core1: "server_core ?w1"
      by (rule core_set_client [OF core c])
        (use core_fields [OF core c] in \<open>simp_all add: client_fields_ok_def\<close>)
    have c1: "client_mem ?w1 a = Some (c\<lparr>is_valid := False\<rparr>)" by simp
    obtain L2 where L2: "uv_timer_stop (uv ?w1) (IdleTimer a) = Ret L2" "server_core (set_uv L2 ?w1)"
        "chain L2 = chain (uv ?w1)" "detached L2 = detached (uv ?w1)" "loop_time L2 = loop_time (uv ?w1)"
        "set (ready_queue L2) \<subseteq> set (ready_queue (uv ?w1))"
      by (rule core_timer_stop [OF core1 c1]) blast
    have c2: "client_mem (set_uv L2 ?w1) a = Some (c\<lparr>is_valid := False\<rparr>)" by simp
    obtain L3 where L3: "uv_close L2 (ClientHandle a) (Some On_client_close) = Ret L3"
        "server_core (set_uv L3 (set_uv L2 ?w1))" "loop_time L3 = loop_time L2" "detached L3 = detached L2"
        "ready_queue L3 = ready_queue L2"
      by (rule core_close [OF L2(2) c2]) (use True L2(3) in simp_all)
    have "lua_frame w (set_uv L3 (set_uv L2 ?w1))"
      using L2 L3 c by (auto simp: lua_frame_def option.rel_refl only_invalidated_def)
    then show ?thesis
      using True L2(1) L3(1,2)
      by (simp add: lua_close_client_def Some client_valid_iff [OF core c]
          core_is_closing [OF core c] c on_loop_def good_run_def)
  qed
qed

lemma lua_is_closing_ok:
  assumes core: "server_core w" and p: "set_option p \<subseteq> dom (client_mem w)"
  shows "\<exists>b. lua_is_closing_client w p = Ret b"
proof (cases p)
  case (Some a)
  then obtain c where c: "client_mem w a = Some c" using p by auto
  show ?thesis
    by (cases "is_valid c") (auto simp: lua_is_closing_client_def Some
        client_valid_iff [OF core c] core_is_closing [OF core c])
qed (auto simp: lua_is_closing_client_def is_client_valid_def)

section \<open>Callbacks\<close>

lemma good_run_trans: "good_run w w' \<Longrightarrow> good_run w' w'' \<Longrightarrow> good_run w w''"
  by (auto simp: good_run_def intro: lua_frame_trans)

lemma good_runD:
  "good_run w w' \<Longrightarrow> server_core w'" "good_run w w' \<Longrightarrow> lua_frame w w'"
  "good_run w w' \<Longrightarrow> dom (client_mem w') = dom (client_mem w)"
  by (auto simp: good_run_def lua_frame_dom)

text \<open>One call and the rest of the script.\<close>

lemma run_lua_call:
  assumes "\<exists>r w1. f = Ret (r, w1) \<and> good_run w w1 \<and> (nc \<longrightarrow> same_clients w w1)"
    and "\<And>r w1. good_run w w1 \<Longrightarrow> \<exists>ok w'. run_lua (k r) w1 = Ret (ok, w') \<and> good_run w1 w' \<and>
           (nc \<longrightarrow> same_clients w1 w')"
  shows "\<exists>ok w'. then_do f (\<lambda>(r, w). run_lua (k r) w) = Ret (ok, w') \<and> good_run w w' \<and>
           (nc \<longrightarrow> same_clients w w')"
proof -
  obtain r w1 where 1: "f = Ret (r, w1)" "good_run w w1" "nc \<longrightarrow> same_clients w w1"
    using assms(1) by blast
  obtain ok w' where "run_lua (k r) w1 = Ret (ok, w')" "good_run w1 w'" "nc \<longrightarrow> same_clients w1 w'"
    using assms(2) [OF 1(2)] by blast
  then show ?thesis using 1 by (auto intro: good_run_trans same_clients_trans)
qed

lemma run_lua_ok:
  "server_core w \<Longrightarrow> uses (dom (client_mem w)) act \<Longrightarrow> nc \<longrightarrow> no_close act \<Longrightarrow>
     \<exists>ok w'. run_lua act w = Ret (ok, w') \<and> good_run w w' \<and> (nc \<longrightarrow> same_clients w w')"
proof (induction act arbitrary: w)
  case (LuaReturn l)
  then show ?case by (auto simp: good_run_def lua_frame_quiet same_clients_def)
next
  case (LuaError l m)
  then show ?case by (auto simp: good_run_def lua_frame_quiet same_clients_def)
next
  case (SendData p bs k)
  show ?case unfolding run_lua.simps
  proof (rule run_lua_call)
    show "\<exists>r w1. send_buffer w p bs = Ret (r, w1) \<and> good_run w w1 \<and> (nc \<longrightarrow> same_clients w w1)"
      using send_buffer_ok [OF SendData.prems(1)] SendData.prems(2) by (metis uses.simps(3))
  qed (rule SendData.IH, use SendData.prems in \<open>auto simp: good_runD\<close>)
next
  case (SendBson p bs k)
  show ?case unfolding run_lua.simps
  proof (rule run_lua_call)
    show "\<exists>r w1. send_buffer w p bs = Ret (r, w1) \<and> good_run w w1 \<and> (nc \<longrightarrow> same_clients w w1)"
      using send_buffer_ok [OF SendBson.prems(1)] SendBson.prems(2) by (metis uses.simps(4))
  qed (rule SendBson.IH, use SendBson.prems in \<open>auto simp: good_runD\<close>)
next
  case (CloseClient p k)
  show ?case unfolding run_lua.simps
  proof (rule run_lua_call)
    show "\<exists>r w1. lua_close_client w p = Ret (r, w1) \<and> good_run w w1 \<and> (nc \<longrightarrow> same_clients w w1)"
      using lua_close_client_ok [OF CloseClient.prems(1)] CloseClient.prems(2,3)
      by (metis uses.simps(5) no_close.simps(5))
  qed (rule CloseClient.IH, use CloseClient.prems in \<open>auto simp: good_runD\<close>)
next
  case (IsClosing p k)
  then show ?case using lua_is_closing_ok [OF IsClosing.prems(1), of p] by auto
next
  case (GetClientCount k)
  then show ?case by auto
next
  case (Log level msg k)
  have "server_core (emit (LogLine level msg) w)" using Log.prems by simp
  then obtain ok w' where "run_lua k (emit (LogLine level msg) w) = Ret (ok, w')"
      "good_run (emit (LogLine level msg) w) w'" "nc \<longrightarrow> same_clients (emit (LogLine level msg) w) w'"
    using Log.IH [of "emit (LogLine level msg) w"] Log.prems by auto
  moreover have "good_run w (emit (LogLine level msg) w)"
    using Log.prems by (simp add: good_run_def lua_frame_quiet)
  ultimately show ?case by (auto intro: good_run_trans simp: same_clients_def)
qed

text \<open>
  A callback as the handlers run it: the event of the call, then a run of the script. \<open>after_call\<close>
  is what the handlers may rely on afterwards.
\<close>

definition after_call :: "event \<Rightarrow> 'l lua_act option \<Rightarrow> 'l server \<Rightarrow> 'l server \<Rightarrow> bool" where
  "after_call e act w w' \<longleftrightarrow>
     server_core w' \<and> lua_frame (if act = None then w else emit e w) w' \<and>
     ((\<forall>p. act = Some p \<longrightarrow> no_close p) \<longrightarrow> same_clients w w')"

lemma call_lua_ok:
  assumes core: "server_core w" and "\<And>p. act = Some p \<Longrightarrow> uses (dom (client_mem w)) p"
  shows "\<exists>w'. call_lua e act w = Ret w' \<and> after_call e act w w'"
proof (cases act)
  case None
  then show ?thesis using core by (simp add: call_lua_def after_call_def)
next
  case (Some p)
  have core': "server_core (emit e w)" using core by simp
  obtain ok w1 where r: "run_lua p (emit e w) = Ret (ok, w1)" "good_run (emit e w) w1"
      "no_close p \<longrightarrow> same_clients (emit e w) w1"
    using run_lua_ok [OF core', of p "no_close p"] assms(2) [OF Some] by auto
  let ?w2 = "if ok then w1 else emit (Stderr ''Lua error'') w1"
  have "server_core ?w2" "lua_frame (emit e w) ?w2"
    using r(2) lua_frame_trans [OF _ lua_frame_quiet(1) [of "Stderr ''Lua error''" w1]]
    by (auto simp: good_run_def)
  moreover have "no_close p \<longrightarrow> same_clients w ?w2" using r(3) by (simp add: same_clients_def)
  ultimately show ?thesis using r(1) Some by (simp add: call_lua_def after_call_def)
qed

end
