(* ===== verification/Server_Read.thy ===== *)
theory Server_Read
  imports Server_Lua "HOL-Library.Sublist"
begin

text \<open>
  The read callback. One call of \<open>on_read\<close> hands the script exactly the messages the abstract
  decoder finds in the buffered bytes and the new ones, as long as the script leaves the client
  open; a bad length ends the connection. Every receive buffer is freed once.
\<close>

section \<open>Scripts that keep to live clients\<close>

definition script_safe :: "'l script \<Rightarrow> nat set \<Rightarrow> bool" where
  "script_safe S A \<longleftrightarrow>
     (\<forall>l p. on_server_start S l = Some p \<longrightarrow> uses A p) \<and>
     (\<forall>l f. on_client_connect S l = Some f \<longrightarrow> (\<forall>a \<in> A. uses A (f a))) \<and>
     (\<forall>l f. on_client_data S l = Some f \<longrightarrow> (\<forall>a \<in> A. \<forall>m. uses A (f a m))) \<and>
     (\<forall>l f. on_client_disconnect S l = Some f \<longrightarrow> (\<forall>a \<in> A. uses A (f a))) \<and>
     (\<forall>l p. on_server_stop S l = Some p \<longrightarrow> uses A p)"

definition keeps_clients_open :: "'l script \<Rightarrow> bool" where
  "keeps_clients_open S \<longleftrightarrow> (\<forall>l f a m. on_client_data S l = Some f \<longrightarrow> no_close (f a m))"

definition handles_data :: "'l script \<Rightarrow> bool" where
  "handles_data S \<longleftrightarrow> (\<forall>l. on_client_data S l \<noteq> None)"

text \<open>The messages a script got for one client.\<close>

definition delivered :: "nat \<Rightarrow> event list \<Rightarrow> byte list list" where
  "delivered a tr =
     concat (map (\<lambda>e. case e of CallData b m \<Rightarrow> if b = a then [m] else [] | _ \<Rightarrow> []) tr)"

lemma delivered_append [simp]: "delivered a (xs @ ys) = delivered a xs @ delivered a ys"
  by (simp add: delivered_def)

lemma delivered_quiet: "list_all quiet es \<Longrightarrow> delivered a es = []"
  by (induction es) (auto simp: delivered_def quiet_def split: event.splits)

lemma delivered_call [simp]: "delivered a [CallData b m] = (if b = a then [m] else [])"
  by (simp add: delivered_def)

lemma lua_frame_delivered: "lua_frame w w' \<Longrightarrow> delivered a (trace w') = delivered a (trace w)"
  by (auto simp: lua_frame_def delivered_quiet)

section \<open>The pieces of \<open>on_read\<close>\<close>

lemma update_activity_ok:
  assumes core: "server_core w" and c: "client_mem w a = Some c"
  shows "update_client_activity a w =
      Ret (set_client w a (if is_valid c then c\<lparr>last_activity := uv_now (uv w)\<rparr> else c))"
proof -
  have "set_client w a c = w" using c by (simp add: set_client_def fun_upd_idem)
  then show ?thesis
    using core_fields [OF core c] c
    by (simp add: update_client_activity_def client_valid_iff [OF core c] client_fields_ok_def)
qed

lemma fields_ok_updates [simp]:
  "client_fields_ok (c\<lparr>last_activity := t\<rparr>) = client_fields_ok c"
  "client_fields_ok (c\<lparr>array_index := i\<rparr>) = client_fields_ok c"
  by (simp_all add: client_fields_ok_def)

lemma fields_ok_invalid:
  "client_fields_ok c \<Longrightarrow> client_fields_ok (c\<lparr>is_valid := False, magic := 0\<rparr>)"
  "client_fields_ok c \<Longrightarrow> client_fields_ok (c\<lparr>is_valid := False\<rparr>)"
  by (simp_all add: client_fields_ok_def CLIENT_MAGIC_def)

text \<open>What a handler of one client leaves alone.\<close>

definition same_world :: "'l server \<Rightarrow> 'l server \<Rightarrow> bool" where
  "same_world w w' \<longleftrightarrow>
     script w' = script w \<and> host_le w' = host_le w \<and>
     dom (client_mem w') = dom (client_mem w) \<and> loop_time (uv w') = loop_time (uv w) \<and>
     detached (uv w') = detached (uv w) \<and>
     set (ready_queue (uv w')) \<subseteq> set (ready_queue (uv w)) \<and>
     (mallocs w = [] \<longrightarrow> mallocs w' = [])"

definition same_handles :: "'l server \<Rightarrow> 'l server \<Rightarrow> bool" where
  "same_handles w w' \<longleftrightarrow>
     handles (uv w') = handles (uv w) \<and> chain (uv w') = chain (uv w)"

lemma same_handles_trans: "same_handles w w' \<Longrightarrow> same_handles w' w'' \<Longrightarrow> same_handles w w''"
  by (simp add: same_handles_def)

lemma same_world_refl [simp]: "same_world w w"
  by (simp add: same_world_def)

lemma same_world_trans [trans]: "same_world w w' \<Longrightarrow> same_world w' w'' \<Longrightarrow> same_world w w''"
  by (auto simp: same_world_def)

lemma same_world_frame: "lua_frame w w' \<Longrightarrow> same_world w w'"
  using lua_frame_dom [of w w'] by (simp add: same_world_def lua_frame_def)

lemma same_world_set_client: "client_mem w a = Some c \<Longrightarrow> same_world w (set_client w a c')"
  by (auto simp: same_world_def)

lemma same_world_simps [simp]:
  "same_world w (emit e w') = same_world w w'" "same_world (emit e w) w' = same_world w w'"
  "same_world w (w'\<lparr>read_bufs := bs\<rparr>) = same_world w w'"
  by (simp_all add: same_world_def)

text \<open>A buffer of \<open>alloc_buffer\<close> that is still alive, or none.\<close>

definition buf_alive :: "nat option \<Rightarrow> 'l server \<Rightarrow> bool" where
  "buf_alive buf w \<longleftrightarrow> set_option buf \<subseteq> set (read_bufs w)"

definition without_buf :: "nat option \<Rightarrow> nat list \<Rightarrow> nat list" where
  "without_buf buf bs = (case buf of None \<Rightarrow> bs | Some b \<Rightarrow> remove1 b bs)"

lemma free_buf_ok:
  "buf_alive buf w \<Longrightarrow> free_buf buf w = Ret (w\<lparr>read_bufs := without_buf buf (read_bufs w)\<rparr>)"
  by (cases buf) (simp_all add: buf_alive_def free_buf_def without_buf_def)

text \<open>Ending a connection that is not closing yet.\<close>

lemma drop_connection_ok:
  assumes core: "server_core w" and c: "client_mem w a = Some c" and buf: "buf_alive buf w"
    and nc: "ClientHandle a \<notin> set (chain (uv w))"
  obtains w' where "drop_connection (ClientHandle a) a buf w = Ret w'" and "server_core w'"
    and "client_mem w' = (client_mem w)(a \<mapsto> c\<lparr>is_valid := False, magic := 0\<rparr>)"
    and "chain (uv w') = ClientHandle a # chain (uv w)"
    and "read_bufs w' = without_buf buf (read_bufs w)" and "trace w' = trace w"
    and "same_world w w'" and "clients w' = clients w" and "client_count w' = client_count w"
    and "lua w' = lua w" and "write_queue (uv w') = write_queue (uv w)"
    and "handles (uv w') ServerHandle = handles (uv w) ServerHandle"
proof -
  let ?c = "c\<lparr>is_valid := False, magic := 0\<rparr>"
  let ?w1 = "set_client w a ?c"
  have core1: "server_core ?w1"
    by (rule core_set_client [OF core c])
      (use fields_ok_invalid [OF core_fields [OF core c]] in simp_all)
  have c1: "client_mem ?w1 a = Some ?c" by simp
  obtain L2 where L2: "uv_timer_stop (uv ?w1) (IdleTimer a) = Ret L2" "server_core (set_uv L2 ?w1)"
      "chain L2 = chain (uv ?w1)" "detached L2 = detached (uv ?w1)" "loop_time L2 = loop_time (uv ?w1)"
      "write_queue L2 = write_queue (uv ?w1)" "handles L2 ServerHandle = handles (uv w) ServerHandle"
      "set (ready_queue L2) \<subseteq> set (ready_queue (uv ?w1))"
    by (rule core_timer_stop [OF core1 c1]) auto
  have c2: "client_mem (set_uv L2 ?w1) a = Some ?c" by simp
  have nc2: "ClientHandle a \<notin> set (chain (uv (set_uv L2 ?w1)))"
    using nc L2(3) by simp
  obtain L3 where L3: "uv_close L2 (ClientHandle a) (Some On_client_close) = Ret L3"
      "server_core (set_uv L3 (set_uv L2 ?w1))"
      "chain L3 = ClientHandle a # chain L2" "detached L3 = detached L2"
      "loop_time L3 = loop_time L2" "write_queue L3 = write_queue L2"
      "handles L3 ServerHandle = handles L2 ServerHandle" "ready_queue L3 = ready_queue L2"
    by (rule core_close [OF L2(2) c2 nc2]) simp
  let ?w' = "(set_uv L3 (set_uv L2 ?w1))\<lparr>read_bufs := without_buf buf (read_bufs w)\<rparr>"
  have run: "drop_connection (ClientHandle a) a buf w = Ret ?w'"
    using c L2(1) L3(1) buf free_buf_ok [of buf "set_uv L3 (set_uv L2 ?w1)"]
    by (simp add: drop_connection_def invalidate_client_def on_loop_def buf_alive_def)
  have "same_world w ?w'" using c L2 L3 by (auto simp: same_world_def)
  then show thesis using that [OF run] L3 L2 by simp
qed

lemma drop_connection_again:
  assumes core: "server_core w" and c: "client_mem w a = Some c"
    and cl: "ClientHandle a \<in> set (chain (uv w))"
  shows "drop_connection (ClientHandle a) a buf w = Fault AssertionFailure"
proof -
  let ?c = "c\<lparr>is_valid := False, magic := 0\<rparr>"
  let ?w1 = "set_client w a ?c"
  have core1: "server_core ?w1"
    by (rule core_set_client [OF core c])
      (use fields_ok_invalid [OF core_fields [OF core c]] in simp_all)
  have c1: "client_mem ?w1 a = Some ?c" by simp
  obtain L2 where L2: "uv_timer_stop (uv ?w1) (IdleTimer a) = Ret L2" "server_core (set_uv L2 ?w1)"
      "chain L2 = chain (uv ?w1)"
    by (rule core_timer_stop [OF core1 c1]) blast
  have "uv_close L2 (ClientHandle a) (Some On_client_close) = Fault AssertionFailure"
    using core_close_again [OF L2(2), of a ?c] cl L2(3) by simp
  then show ?thesis
    using c L2(1) by (simp add: drop_connection_def invalidate_client_def on_loop_def)
qed

text \<open>Handing one message to the script.\<close>

definition after_message :: "bool \<Rightarrow> nat \<Rightarrow> byte list \<Rightarrow> 'l server \<Rightarrow> client_t \<Rightarrow> 'l server \<Rightarrow> bool" where
  "after_message nc a m w c w' \<longleftrightarrow>
     server_core w' \<and> same_world w w' \<and> read_bufs w' = read_bufs w \<and>
     delivered a (trace w') = delivered a (trace w) @ (if is_valid c then [m] else []) \<and>
     (\<exists>v t. client_mem w' a = Some (c\<lparr>is_valid := v, last_activity := t\<rparr>) \<and> (v \<longrightarrow> is_valid c) \<and>
        (nc \<longrightarrow> v = is_valid c)) \<and>
     (nc \<longrightarrow> same_handles w w') \<and>
     (rx_ok {a} w \<longrightarrow> rx_ok {a} w')"

lemma process_message_ok:
  assumes core: "server_core w" and c: "client_mem w a = Some c"
    and safe: "script_safe (script w) (dom (client_mem w))" and hd: "handles_data (script w)"
    and nc: "nc \<longrightarrow> keeps_clients_open (script w)"
  shows "\<exists>w'. process_message a m w = Ret w' \<and> after_message nc a m w c w'"
proof (cases "is_valid c")
  case False
  have "client_mem w a = Some (c\<lparr>is_valid := False, last_activity := last_activity c\<rparr>) \<and>
      (False \<longrightarrow> is_valid c) \<and> (nc \<longrightarrow> False = is_valid c)"
    using False c by simp
  then have "\<exists>v t. client_mem w a = Some (c\<lparr>is_valid := v, last_activity := t\<rparr>) \<and>
      (v \<longrightarrow> is_valid c) \<and> (nc \<longrightarrow> v = is_valid c)"
    by blast
  then have "after_message nc a m w c w"
    using core False by (simp add: after_message_def same_handles_def)
  then show ?thesis using False by (simp add: process_message_def client_valid_iff [OF core c])
next
  case True
  let ?c = "c\<lparr>last_activity := uv_now (uv w)\<rparr>"
  let ?w1 = "set_client w a ?c"
  have core1: "server_core ?w1"
    by (rule core_set_client [OF core c]) (use core_fields [OF core c] in simp_all)
  obtain f where f: "on_client_data (script w) (lua w) = Some f" using hd by (auto simp: handles_data_def)
  have dom1: "dom (client_mem ?w1) = dom (client_mem w)" using c by auto
  have "uses (dom (client_mem ?w1)) (f a m)"
    unfolding dom1 using safe f c unfolding script_safe_def by blast
  then obtain w' where w': "call_lua (CallData a m) (Some (f a m)) ?w1 = Ret w'"
      "after_call (CallData a m) (Some (f a m)) ?w1 w'"
    using call_lua_ok [OF core1, of "Some (f a m)"] by blast
  then have fr: "server_core w'" "lua_frame (emit (CallData a m) ?w1) w'"
      "no_close (f a m) \<longrightarrow> same_clients ?w1 w'"
    by (simp_all add: after_call_def)
  have run: "process_message a m w = Ret w'"
    using True core_fields [OF core c] c w'(1) f
    by (simp add: process_message_def client_valid_iff [OF core c] update_activity_ok [OF core c]
        server_of_def client_fields_ok_def)
  obtain c' where c': "client_mem w' a = Some c'" "only_invalidated ?c c'"
    using lua_frame_client [OF fr(2), of a ?c] by auto
  have cl: "nc \<longrightarrow> same_clients ?w1 w'"
    using nc fr(3) f by (auto simp: keeps_clients_open_def)
  have "c' = c\<lparr>is_valid := is_valid c', last_activity := uv_now (uv w)\<rparr>" "is_valid c' \<longrightarrow> is_valid c"
    using c'(2) by (auto simp: only_invalidated_def)
  moreover have "nc \<longrightarrow> is_valid c'" using cl c'(1) True by (auto simp: same_clients_def)
  ultimately have "\<exists>v t. client_mem w' a = Some (c\<lparr>is_valid := v, last_activity := t\<rparr>) \<and>
      (v \<longrightarrow> is_valid c) \<and> (nc \<longrightarrow> v = is_valid c)"
    using c'(1) True by metis
  moreover have "same_world w w'"
    using same_world_trans [OF same_world_set_client [OF c, of ?c], of w']
      same_world_frame [OF fr(2)] by simp
  moreover have "delivered a (trace w') = delivered a (trace w) @ [m]"
    using lua_frame_delivered [OF fr(2), of a] by simp
  moreover have "read_bufs w' = read_bufs w" using fr(2) by (simp add: lua_frame_def)
  moreover have "rx_ok {a} w \<longrightarrow> rx_ok {a} w'"
    using lua_frame_rx_ok [OF fr(2), of "{a}"] rx_ok_set_client [of "{a}" w a ?c] by simp
  ultimately have "after_message nc a m w c w'"
    using fr(1) cl True by (simp add: after_message_def same_clients_def same_handles_def)
  then show ?thesis using run by blast
qed

section \<open>The loop\<close>

text \<open>
  What the loop leaves when it returns: \<open>S\<close> is the byte stream from the start of the message in the
  buffer, \<open>c\<close> the client at the start.
\<close>

definition read_outcome ::
  "bool \<Rightarrow> nat \<Rightarrow> byte list \<Rightarrow> nat option \<Rightarrow> 'l server \<Rightarrow> client_t \<Rightarrow> 'l server \<Rightarrow> bool" where
  "read_outcome nc a S buf w c w' \<longleftrightarrow>
     server_core w' \<and> same_world w w' \<and> read_bufs w' = without_buf buf (read_bufs w) \<and>
     (rx_ok {a} w \<longrightarrow> rx_ok {a} w') \<and>
     (\<exists>c' ms. client_mem w' a = Some c' \<and> (magic c' = CLIENT_MAGIC \<longrightarrow> rx_inv c') \<and>
        delivered a (trace w') = delivered a (trace w) @ ms \<and> prefix ms (fst (decode S)) \<and>
        (\<not> is_valid c \<longrightarrow> ms = [] \<and> \<not> is_valid c') \<and>
        (is_valid c' \<longrightarrow> decode S = (ms, Incomplete (pending c'))) \<and>
        (nc \<and> is_valid c \<longrightarrow> ms = fst (decode S) \<and>
           (case snd (decode S) of
              Incomplete r \<Rightarrow> is_valid c' \<and> same_handles w w'
            | BadLength k \<Rightarrow> magic c' = 0 \<and>
                chain (uv w') = ClientHandle a # chain (uv w))))"

lemma client_rx_shape:
  assumes "rx_round_ok c data c' n ev"
  shows "is_valid c' = is_valid c" "magic c' = magic c" "server_set c' = server_set c"
    "array_index c' = array_index c" "length (buffer c') = CLIENT_BUFFER_SIZE"
proof -
  have "c' = c\<lparr>buffer := buffer c', buffer_used := buffer_used c', expected_length := expected_length c'\<rparr>"
    and b: "length (buffer c') = CLIENT_BUFFER_SIZE"
    using assms by (simp_all add: rx_round_ok_def)
  then obtain bs u e where "c' = c\<lparr>buffer := bs, buffer_used := u, expected_length := e\<rparr>" by blast
  then show "is_valid c' = is_valid c" "magic c' = magic c" "server_set c' = server_set c"
    "array_index c' = array_index c"
    by simp_all
  show "length (buffer c') = CLIENT_BUFFER_SIZE" by (rule b)
qed

lemma core_rx_update:
  assumes core: "server_core w" and c: "client_mem w a = Some c" and r: "rx_round_ok c data c' n ev"
  shows "server_core (set_client w a c')"
proof (rule core_set_client [OF core c])
  show "client_fields_ok c'"
    using core_fields [OF core c] client_rx_shape [OF r] by (simp add: client_fields_ok_def)
qed (simp add: client_rx_shape [OF r])

lemma rx_reset_simps [simp]:
  "is_valid (rx_reset c) = is_valid c" "magic (rx_reset c) = magic c"
  "server_set (rx_reset c) = server_set c" "array_index (rx_reset c) = array_index c"
  "buffer (rx_reset c) = buffer c"
  by (simp_all add: rx_reset_def)

lemma reset_client_ok:
  assumes core: "server_core w" and c: "client_mem w a = Some c"
  shows "reset_client a w = Ret (set_client w a (rx_reset c))"
    and "server_core (set_client w a (rx_reset c))"
proof -
  show "reset_client a w = Ret (set_client w a (rx_reset c))" using c by (simp add: reset_client_def)
  show "server_core (set_client w a (rx_reset c))"
    by (rule core_set_client [OF core c])
      (use core_fields [OF core c] in \<open>simp_all add: client_fields_ok_def\<close>)
qed

text \<open>The end of the input.\<close>

lemma outcome_end:
  assumes core: "server_core w" and c: "client_mem w a = Some c" and inv: "rx_inv c"
  shows "read_outcome nc a (pending c) buf w c (w\<lparr>read_bufs := without_buf buf (read_bufs w)\<rparr>)"
  using assms by (simp add: read_outcome_def decode_pending same_handles_def)

text \<open>A bad length.\<close>

lemma outcome_bad:
  assumes d: "decode S = ([], BadLength k)" and w0: "same_world w w0" "read_bufs w0 = read_bufs w"
      "trace w0 = trace w" "chain (uv w0) = chain (uv w)"
      "rx_ok {a} w \<longrightarrow> rx_ok {a} w0"
    and w': "server_core w'" "client_mem w' = (client_mem w0)(a \<mapsto> c0\<lparr>is_valid := False, magic := 0\<rparr>)"
      "chain (uv w') = ClientHandle a # chain (uv w0)"
      "read_bufs w' = without_buf buf (read_bufs w0)" "trace w' = trace w0 @ [Stderr e]"
      "same_world w0 w'"
  shows "read_outcome nc a S buf w c w'"
proof -
  have "rx_ok {a} w \<longrightarrow> rx_ok {a} w'" using w0(5) w'(2) by (auto simp: rx_ok_def)
  moreover have "delivered a (trace w') = delivered a (trace w)"
    using w'(5) w0(3) delivered_quiet [of "[Stderr e]" a] by simp
  ultimately show ?thesis
    using assms same_world_trans [OF w0(1) w'(6)] by (simp add: read_outcome_def CLIENT_MAGIC_def)
qed

text \<open>A round in front of the rest of the loop, without and with a message.\<close>

lemma outcome_continue:
  assumes "read_outcome nc a S buf w1 c1 w'" and "same_world w w1" "read_bufs w1 = read_bufs w"
    "trace w1 = trace w" "same_handles w w1"
    "rx_ok {a} w \<longrightarrow> rx_ok {a} w1" and "is_valid c1 = is_valid c"
  shows "read_outcome nc a S buf w c w'"
  using assms same_world_trans [OF assms(2)] unfolding read_outcome_def
  by (simp add: same_handles_def cong: stream_rest.case_cong)

lemma outcome_message:
  assumes rest: "read_outcome nc a S buf w1 c1 w'"
    and d: "decode S' = (m # fst (decode S), snd (decode S))"
    and w1: "same_world w w1" "read_bufs w1 = read_bufs w" "rx_ok {a} w \<longrightarrow> rx_ok {a} w1"
      "nc \<longrightarrow> same_handles w w1"
      "delivered a (trace w1) = delivered a (trace w) @ (if is_valid c then [m] else [])"
    and v: "is_valid c1 \<longrightarrow> is_valid c" "nc \<longrightarrow> is_valid c1 = is_valid c"
  shows "read_outcome nc a S' buf w c w'"
proof -
  obtain c' ms where r: "server_core w'" "same_world w1 w'" "read_bufs w' = without_buf buf (read_bufs w1)"
      "rx_ok {a} w1 \<longrightarrow> rx_ok {a} w'" "client_mem w' a = Some c'" "magic c' = CLIENT_MAGIC \<longrightarrow> rx_inv c'"
      "delivered a (trace w') = delivered a (trace w1) @ ms" "prefix ms (fst (decode S))"
      "\<not> is_valid c1 \<longrightarrow> ms = [] \<and> \<not> is_valid c'"
      "is_valid c' \<longrightarrow> decode S = (ms, Incomplete (pending c'))"
      "nc \<and> is_valid c1 \<longrightarrow> ms = fst (decode S) \<and>
         (case snd (decode S) of
            Incomplete r \<Rightarrow> is_valid c' \<and> same_handles w1 w'
          | BadLength k \<Rightarrow> magic c' = 0 \<and>
              chain (uv w') = ClientHandle a # chain (uv w1))"
    using rest unfolding read_outcome_def by blast
  have sw: "same_world w w'" using same_world_trans [OF w1(1) r(2)] .
  show ?thesis
  proof (cases "is_valid c")
    case True
    then have "delivered a (trace w') = delivered a (trace w) @ (m # ms)"
      using r(7) w1(5) by simp
    then show ?thesis
      using r w1 sw True v d unfolding read_outcome_def
      by (intro conjI exI [of _ c'] exI [of _ "m # ms"]) (auto simp: same_handles_def split: stream_rest.splits)
  next
    case False
    then show ?thesis
      using r w1 sw v d unfolding read_outcome_def
      by (intro conjI exI [of _ c'] exI [of _ "[]"]) auto
  qed
qed

text \<open>The rounds of the loop.\<close>

lemma set_client_twice [simp]: "set_client (set_client w a c) a c' = set_client w a c'"
  by (simp add: set_client_def)

definition reads_well :: "bool \<Rightarrow> nat \<Rightarrow> byte list \<Rightarrow> nat option \<Rightarrow> 'l server \<Rightarrow> client_t \<Rightarrow> 'l server res \<Rightarrow> bool" where
  "reads_well nc a S buf w c r \<longleftrightarrow>
     (\<exists>w'. r = Ret w' \<and> read_outcome nc a S buf w c w') \<or> \<not> nc \<and> r = Fault AssertionFailure"

definition read_ready :: "bool \<Rightarrow> nat \<Rightarrow> nat option \<Rightarrow> 'l server \<Rightarrow> bool" where
  "read_ready nc a buf w \<longleftrightarrow>
     server_core w \<and> script_safe (script w) (dom (client_mem w)) \<and> handles_data (script w) \<and>
     (nc \<longrightarrow> keeps_clients_open (script w) \<and> ClientHandle a \<notin> set (chain (uv w))) \<and>
     buf_alive buf w"

lemma read_ready_step:
  assumes "read_ready nc a buf w" and "server_core w'" and "same_world w w'"
    and "read_bufs w' = read_bufs w" and "nc \<longrightarrow> same_handles w w'"
  shows "read_ready nc a buf w'"
  using assms by (simp add: read_ready_def same_world_def same_handles_def buf_alive_def)

lemma on_read_loop_ok:
  "read_ready nc a buf w \<Longrightarrow> client_mem w a = Some c \<Longrightarrow> magic c = CLIENT_MAGIC \<Longrightarrow> rx_inv c \<Longrightarrow>
     reads_well nc a (pending c @ data) buf w c (on_read_loop (ClientHandle a) a buf data w)"
proof (induction "ClientHandle a" a buf data w arbitrary: c rule: on_read_loop.induct)
  case (1 a buf data w)
  note ready = "1.prems"(1) and c = "1.prems"(2) and mg = "1.prems"(3) and inv = "1.prems"(4)
  have core: "server_core w" and buf: "buf_alive buf w" using ready by (simp_all add: read_ready_def)
  show ?case
  proof (cases "data = []")
    case True
    then show ?thesis
      using outcome_end [OF core c inv] free_buf_ok [OF buf]
      by (simp add: on_read_loop.simps [of _ a buf "[]" w] reads_well_def)
  next
    case False
    obtain c' n ev where it: "rx_iter (host_le w) c data = Ret (c', n, ev)" "rx_round_ok c data c' n ev"
      using rx_iter_ok [OF inv False] .
    let ?w1 = "set_client w a c'"
    note shape = client_rx_shape [OF it(2)]
    have core1: "server_core ?w1" by (rule core_rx_update [OF core c it(2)])
    have c1: "client_mem ?w1 a = Some c'" by simp
    have sw1: "same_world w ?w1" by (rule same_world_set_client [OF c])
    have rx1: "rx_ok {a} w \<longrightarrow> rx_ok {a} ?w1" by (simp add: rx_ok_set_client)
    have ready1: "read_ready nc a buf ?w1"
      by (rule read_ready_step [OF ready core1 sw1]) (simp_all add: same_handles_def)
    have split: "pending c @ data = (pending c @ take n data) @ drop n data" by simp
    show ?thesis
    proof (cases ev)
      case RxContinue
      then have inv': "rx_inv c'" and p: "pending c' @ drop n data = pending c @ data"
        using it(2) by (simp_all add: rx_round_ok_def)
      have run: "on_read_loop (ClientHandle a) a buf data w =
          on_read_loop (ClientHandle a) a buf (drop n data) ?w1"
        using False c it(1) RxContinue by (simp add: on_read_loop.simps [of _ a buf data w])
      have "reads_well nc a (pending c @ data) buf ?w1 c' (on_read_loop (ClientHandle a) a buf (drop n data) ?w1)"
        using "1.hyps"(1) [OF False c it(1) refl refl RxContinue ready1 c1] mg shape inv' p by simp
      then show ?thesis
        unfolding run reads_well_def using outcome_continue [OF _ sw1 _ _ _ rx1] shape
        by (auto simp: same_handles_def)
    next
      case (RxBadLength k)
      then have d: "decode (pending c @ data) = ([], BadLength k)"
        using it(2) decode_bad [of "pending c @ take n data" "drop n data"]
        by (auto simp: rx_round_ok_def Let_def min_def)
      let ?w2 = "emit (Stderr ''Invalid message length'') ?w1"
      have run: "on_read_loop (ClientHandle a) a buf data w = drop_connection (ClientHandle a) a buf ?w2"
        using False c it(1) RxBadLength by (simp add: on_read_loop.simps [of _ a buf data w])
      have c2: "client_mem ?w2 a = Some c'" and core2: "server_core ?w2" using core1 by simp_all
      show ?thesis
      proof (cases "ClientHandle a \<in> set (chain (uv w))")
        case True
        then have "\<not> nc" using ready by (auto simp: read_ready_def)
        then show ?thesis
          using run drop_connection_again [OF core2 c2] True by (simp add: reads_well_def)
      next
        case nc: False
        then have nc2: "ClientHandle a \<notin> set (chain (uv ?w2))" by simp
        have buf2: "buf_alive buf ?w2" using buf by (simp add: buf_alive_def)
        obtain w' where w': "drop_connection (ClientHandle a) a buf ?w2 = Ret w'" "server_core w'"
            "client_mem w' = (client_mem ?w2)(a \<mapsto> c'\<lparr>is_valid := False, magic := 0\<rparr>)"
            "chain (uv w') = ClientHandle a # chain (uv ?w2)"
            "read_bufs w' = without_buf buf (read_bufs ?w2)" "trace w' = trace ?w2" "same_world ?w2 w'"
          by (rule drop_connection_ok [OF core2 c2 buf2 nc2])
        have "read_outcome nc a (pending c @ data) buf w c w'"
          by (rule outcome_bad [OF d sw1 _ _ _ rx1 w'(2)]) (use w' in simp_all)
        then show ?thesis using run w'(1) by (simp add: reads_well_def)
      qed
    next
      case (RxMessage m)
      define f where "f = pending c @ take n data"
      have m: "length f = 4 + length m" "length m = be_value (take 4 f)" "0 < length m"
        "length m \<le> 4092" "m = drop 4 f"
        using it(2) unfolding rx_round_ok_def RxMessage Let_def rx_event.case f_def [symmetric]
        by blast+
      have "pending c @ data = f @ drop n data" by (simp add: f_def)
      then have d: "decode (pending c @ data) =
          (m # fst (decode (drop n data)), snd (decode (drop n data)))"
        using decode_message [OF m, of "drop n data"] by simp
      obtain w2 where w2: "process_message a m ?w1 = Ret w2" "after_message nc a m ?w1 c' w2"
        using process_message_ok [OF core1 c1] ready1 by (auto simp: read_ready_def)
      then obtain v t where c2: "client_mem w2 a = Some (c'\<lparr>is_valid := v, last_activity := t\<rparr>)"
          and v: "v \<longrightarrow> is_valid c'" "nc \<longrightarrow> v = is_valid c'"
        by (auto simp: after_message_def)
      define c3 where "c3 = rx_reset (c'\<lparr>is_valid := v, last_activity := t\<rparr>)"
      have core2: "server_core w2" using w2(2) by (simp add: after_message_def)
      note reset = reset_client_ok [OF core2 c2, folded c3_def]
      let ?w3 = "set_client w2 a c3"
      have c3: "client_mem ?w3 a = Some c3" "magic c3 = CLIENT_MAGIC" "rx_inv c3" "pending c3 = []"
          "is_valid c3 = v"
        using mg shape rx_inv_reset [of "c'\<lparr>is_valid := v, last_activity := t\<rparr>"]
        by (simp_all add: c3_def)
      have sw3: "same_world w ?w3"
        using same_world_trans [OF sw1, of ?w3] same_world_trans [of ?w1 w2 ?w3]
          same_world_set_client [OF c2] w2(2) by (simp add: after_message_def)
      have rx3: "rx_ok {a} w \<longrightarrow> rx_ok {a} ?w3"
        using rx1 w2(2) by (simp add: after_message_def rx_ok_set_client)
      have w3: "read_bufs ?w3 = read_bufs w"
          "nc \<longrightarrow> same_handles w ?w3"
          "delivered a (trace ?w3) = delivered a (trace w) @ (if is_valid c then [m] else [])"
        using w2(2) shape by (simp_all add: after_message_def same_handles_def)
      have ready3: "read_ready nc a buf ?w3"
        by (rule read_ready_step [OF ready reset(2) sw3 w3(1,2)])
      have run: "on_read_loop (ClientHandle a) a buf data w =
          on_read_loop (ClientHandle a) a buf (drop n data) ?w3"
        using False c it(1) RxMessage w2(1) reset(1) by (simp add: on_read_loop.simps [of _ a buf data w])
      have "reads_well nc a (drop n data) buf ?w3 c3 (on_read_loop (ClientHandle a) a buf (drop n data) ?w3)"
        using "1.hyps"(2) [OF False c it(1) refl refl RxMessage w2(1) reset(1) ready3 c3(1-3)] c3(4) by simp
      then show ?thesis
        unfolding run reads_well_def using outcome_message [OF _ d sw3 w3(1) rx3 w3(2,3)] v c3(5) shape
        by auto
    qed
  qed
qed

end
