(* ===== verification/Server_Events.thy ===== *)
theory Server_Events
  imports Server_Read
begin

text \<open>
  The events of the loop, one by one: each keeps the server invariant, or the text says what goes
  wrong. Reading, the idle timers, writes, new connections, stopping; closing is in
  \<open>Server_Close\<close>.
\<close>

section \<open>Reading\<close>

text \<open>The state inside a read: like between two events, with the buffer of this read alive.\<close>

definition holding :: "nat option \<Rightarrow> 'l server \<Rightarrow> bool" where
  "holding buf w \<longleftrightarrow>
     server_core w \<and> rx_ok {} w \<and> ready_queue (uv w) = [] \<and> detached (uv w) = [] \<and>
     read_bufs w = (case buf of None \<Rightarrow> [] | Some b \<Rightarrow> [b])"

lemma holding_None [simp]: "holding None w = server_inv w"
  by (auto simp: holding_def server_inv_def)

lemma holding_buf_alive: "holding buf w \<Longrightarrow> buf_alive buf w"
  by (auto simp: holding_def buf_alive_def split: option.splits)

lemma holding_without: "holding buf w \<Longrightarrow> without_buf buf (read_bufs w) = []"
  by (auto simp: holding_def without_buf_def split: option.splits)

lemma holding_freed:
  assumes "holding buf w" and "server_core w'" and "same_world w w'"
    and "read_bufs w' = without_buf buf (read_bufs w)" and "rx_ok {} w'"
  shows "server_inv w'"
  using assms holding_without [OF assms(1)]
  by (auto simp: server_inv_def holding_def same_world_def)

lemma rx_ok_insert:
  assumes "rx_ok {a} w" and "\<And>c. client_mem w a = Some c \<Longrightarrow> magic c = CLIENT_MAGIC \<Longrightarrow> rx_inv c"
  shows "rx_ok {} w"
  using assms unfolding rx_ok_def by (metis singletonD)

lemma rx_ok_weaken: "rx_ok {} w \<Longrightarrow> rx_ok A w"
  by (simp add: rx_ok_def)

text \<open>Scripts, and the connection being read.\<close>

definition may_read :: "bool \<Rightarrow> nat \<Rightarrow> 'l server \<Rightarrow> bool" where
  "may_read nc a w \<longleftrightarrow>
     script_safe (script w) (dom (client_mem w)) \<and> handles_data (script w) \<and>
     (nc \<longrightarrow> keeps_clients_open (script w)) \<and> ClientHandle a \<notin> set (chain (uv w))"

definition read_done :: "bool \<Rightarrow> 'l server \<Rightarrow> 'l server res \<Rightarrow> bool" where
  "read_done nc w r \<longleftrightarrow>
     (\<exists>w'. r = Ret w' \<and> server_inv w' \<and> same_world w w') \<or> \<not> nc \<and> r = Fault AssertionFailure"

lemma on_read_prelude:
  assumes core: "server_core w" and c: "client_mem w a = Some c"
  shows "on_read (ClientHandle a) r buf w =
     (if \<not> is_valid c then free_buf buf w
      else case r of
        ReadError e \<Rightarrow> drop_connection (ClientHandle a) a buf
          (if e \<noteq> UV_EOF then emit (Stderr ''Read error'') w else w)
      | ReadData data \<Rightarrow>
          if data = [] then free_buf buf w
          else on_read_loop (ClientHandle a) a buf data
            (set_client w a (c\<lparr>last_activity := uv_now (uv w)\<rparr>)))"
  by (rule core_tcpE [OF core c])
    (simp add: on_read_def data_client_def client_valid_iff [OF core c]
      update_activity_ok [OF core c] split: read_result.split)

text \<open>An error or the end of the stream closes a valid client; an invalid one is left alone.\<close>

lemma on_read_error:
  assumes h: "holding buf w" and c: "client_mem w a = Some c"
    and open_: "ClientHandle a \<notin> set (chain (uv w))"
  shows "\<exists>w'. on_read (ClientHandle a) (ReadError e) buf w = Ret w' \<and> server_inv w' \<and>
    same_world w w' \<and> delivered a (trace w') = delivered a (trace w) \<and>
    (is_valid c \<longrightarrow> chain (uv w') = ClientHandle a # chain (uv w) \<and>
       (\<exists>c'. client_mem w' a = Some c' \<and> magic c' = 0))"
proof -
  have core: "server_core w" using h by (simp add: holding_def)
  show ?thesis
  proof (cases "is_valid c")
    case False
    let ?w' = "w\<lparr>read_bufs := without_buf buf (read_bufs w)\<rparr>"
    have "server_inv ?w'" by (rule holding_freed [OF h]) (use h in \<open>simp_all add: holding_def\<close>)
    then show ?thesis
      using False free_buf_ok [OF holding_buf_alive [OF h]] on_read_prelude [OF core c] by simp
  next
    case True
    let ?w1 = "if e \<noteq> UV_EOF then emit (Stderr ''Read error'') w else w"
    have 1: "server_core ?w1" "client_mem ?w1 a = Some c" "buf_alive buf ?w1"
      "ClientHandle a \<notin> set (chain (uv ?w1))"
      using core c open_ holding_buf_alive [OF h] by (simp_all add: buf_alive_def)
    obtain w' where w': "drop_connection (ClientHandle a) a buf ?w1 = Ret w'" "server_core w'"
        "client_mem w' = (client_mem ?w1)(a \<mapsto> c\<lparr>is_valid := False, magic := 0\<rparr>)"
        "chain (uv w') = ClientHandle a # chain (uv ?w1)"
        "read_bufs w' = without_buf buf (read_bufs ?w1)" "trace w' = trace ?w1" "same_world ?w1 w'"
      by (rule drop_connection_ok [OF 1])
    have sw: "same_world w w'" using w'(7) by (simp split: if_splits)
    have "rx_ok {} w'" using h w'(3) by (auto simp: rx_ok_def holding_def CLIENT_MAGIC_def split: if_splits)
    then have "server_inv w'"
      by (intro holding_freed [OF h w'(2) sw]) (use w' in \<open>simp_all split: if_splits\<close>)
    moreover have "delivered a (trace w') = delivered a (trace w)"
      using w'(6) delivered_quiet [of "[Stderr ''Read error'']" a] by simp
    ultimately show ?thesis
      using w' True sw on_read_prelude [OF core c] by (simp split: if_splits)
  qed
qed

text \<open>Data: the loop of \<open>on_read\<close>, from a valid client.\<close>

lemma on_read_data:
  assumes h: "holding buf w" and c: "client_mem w a = Some c" and v: "is_valid c"
    and may: "may_read nc a w" and ne: "data \<noteq> []"
  shows "reads_well nc a (pending c @ data) buf w c (on_read (ClientHandle a) (ReadData data) buf w)"
proof -
  let ?c = "c\<lparr>last_activity := uv_now (uv w)\<rparr>"
  let ?w1 = "set_client w a ?c"
  have core: "server_core w" using h by (simp add: holding_def)
  have mg: "magic c = CLIENT_MAGIC" using core_fields [OF core c] v by (simp add: client_fields_ok_def)
  then have inv: "rx_inv ?c" using h c by (simp add: holding_def rx_ok_def)
  have core1: "server_core ?w1"
    by (rule core_set_client [OF core c]) (use core_fields [OF core c] in simp_all)
  have sw: "same_world w ?w1" by (rule same_world_set_client [OF c])
  have "read_ready nc a buf w"
    using core may holding_buf_alive [OF h] by (simp add: read_ready_def may_read_def)
  then have "read_ready nc a buf ?w1"
    by (rule read_ready_step [OF _ core1 sw]) (simp_all add: same_handles_def)
  then have "reads_well nc a (pending ?c @ data) buf ?w1 ?c (on_read_loop (ClientHandle a) a buf data ?w1)"
    by (rule on_read_loop_ok) (use mg inv in simp_all)
  moreover have "pending ?c = pending c" by (simp add: pending_def)
  moreover have "on_read (ClientHandle a) (ReadData data) buf w = on_read_loop (ClientHandle a) a buf data ?w1"
    using on_read_prelude [OF core c] v ne by simp
  ultimately show ?thesis
    unfolding reads_well_def using outcome_continue [OF _ sw, of nc a _ buf ?c _ c]
    by (auto simp: same_handles_def rx_ok_set_client)
qed

lemma outcome_inv:
  assumes h: "holding buf w" and o: "read_outcome nc a S buf w c w'"
  shows "server_inv w'"
proof (rule holding_freed [OF h])
  show "rx_ok {} w'"
    using o h by (intro rx_ok_insert [of a]) (auto simp: read_outcome_def holding_def rx_ok_weaken)
qed (use o in \<open>simp_all add: read_outcome_def\<close>)

lemma reads_well_done:
  assumes h: "holding buf w" and r: "reads_well nc a S buf w c r"
  shows "read_done nc w r"
proof -
  have "server_inv w' \<and> same_world w w'" if "read_outcome nc a S buf w c w'" for w'
    using outcome_inv [OF h that] that by (simp add: read_outcome_def)
  then show ?thesis using r unfolding reads_well_def read_done_def by blast
qed

lemma on_read_done:
  assumes h: "holding buf w" and c: "client_mem w a = Some c" and may: "may_read nc a w"
  shows "read_done nc w (on_read (ClientHandle a) r buf w)"
proof -
  have core: "server_core w" using h by (simp add: holding_def)
  have freed: "server_inv (w\<lparr>read_bufs := without_buf buf (read_bufs w)\<rparr>)"
    by (rule holding_freed [OF h]) (use h in \<open>simp_all add: holding_def\<close>)
  show ?thesis
  proof (cases r)
    case (ReadError e)
    have "ClientHandle a \<notin> set (chain (uv w))" using may by (simp add: may_read_def)
    then show ?thesis using on_read_error [OF h c, of e] ReadError by (auto simp: read_done_def)
  next
    case (ReadData data)
    show ?thesis
    proof (cases "is_valid c \<and> data \<noteq> []")
      case True
      then have "reads_well nc a (pending c @ data) buf w c (on_read (ClientHandle a) r buf w)"
        using on_read_data [OF h c _ may, of data] ReadData by simp
      then show ?thesis by (rule reads_well_done [OF h])
    next
      case False
      then have "on_read (ClientHandle a) r buf w =
          Ret (w\<lparr>read_bufs := without_buf buf (read_bufs w)\<rparr>)"
        using free_buf_ok [OF holding_buf_alive [OF h]] ReadData
        by (auto simp: on_read_prelude [OF core c])
      moreover have "same_world w (w\<lparr>read_bufs := without_buf buf (read_bufs w)\<rparr>)" by simp
      ultimately show ?thesis using freed unfolding read_done_def by blast
    qed
  qed
qed

subsection \<open>The read loop of the stream\<close>

text \<open>Changing the flags of an open stream does not matter to the invariant.\<close>

lemma core_stream_flags:
  assumes core: "server_core w" and c: "client_mem w a = Some c"
    and x: "handles (uv w) (ClientHandle a) = Some x" "\<not> f_closing x"
    and L: "handles L = (handles (uv w))(ClientHandle a \<mapsto> x\<lparr>f_active := p, f_reading := q,
        f_readable := r, f_writable := s\<rparr>)" "timer_heap L = timer_heap (uv w)"
      "ready_queue L = ready_queue (uv w)" "detached L = detached (uv w)" "chain L = chain (uv w)"
      "write_queue L = write_queue (uv w)" "loop_time L = loop_time (uv w)"
  shows "server_core (set_uv L w)" and "same_world w (set_uv L w)"
proof -
  have ty: "htype x = UV_TCP" "ClientHandle a \<notin> set (chain (uv w))"
      "hdata x = Some (ClientPtr a)" "\<not> f_closed x"
    using core_tcpE [OF core c] x by (metis option.inject)+
  have "timers_ok L"
    by (rule timers_ok_frame [OF core_timers [OF core]]) (use x ty L in \<open>auto simp: timer_key_def\<close>)
  then show "server_core (set_uv L w)"
  proof (rule core_set_uv [OF core])
    show "tcp_ok (handles L (ClientHandle b)) (ClientHandle b \<in> set (chain L)) b \<and>
        idle_ok (handles L (IdleTimer b)) b" if "client_mem w b = Some d" for b d
    proof (cases "b = a")
      case True
      then show ?thesis
        using core that x ty by (simp add: server_core_def clients_ok_def L tcp_ok_def)
    next
      case False
      then show ?thesis using core that by (simp add: server_core_def clients_ok_def L)
    qed
  qed (use core x ty c in \<open>auto simp: core_defs L\<close>)
  show "same_world w (set_uv L w)" by (simp add: same_world_def L)
qed

text \<open>Stopping to read, as \<open>uv__read\<close> does at the end of the stream.\<close>

lemma stop_reading:
  assumes core: "server_core w" and c: "client_mem w a = Some c"
    and x: "handles (uv w) (ClientHandle a) = Some x" "f_reading x"
  obtains L where "uv__handle_stop (set_handle (uv w) (ClientHandle a) (x\<lparr>f_reading := False\<rparr>))
      (ClientHandle a) = Ret L"
    and "server_core (set_uv L w)" and "same_world w (set_uv L w)"
    and "chain L = chain (uv w)" and "ready_queue L = ready_queue (uv w)"
    and "detached L = detached (uv w)"
proof -
  have nc: "\<not> f_closing x" using core_tcpE [OF core c] x by (metis option.inject)
  obtain n where run: "uv__handle_stop (set_handle (uv w) (ClientHandle a) (x\<lparr>f_reading := False\<rparr>))
      (ClientHandle a) = Ret ((uv w)\<lparr>handles := (handles (uv w))
        (ClientHandle a \<mapsto> x\<lparr>f_reading := False, f_active := False\<rparr>), active_handles := n\<rparr>)"
    using handle_stop_flags [OF x(1)] .
  have same: "x\<lparr>f_active := False, f_reading := False, f_readable := f_readable x,
      f_writable := f_writable x\<rparr> = x\<lparr>f_reading := False, f_active := False\<rparr>" by (cases x) simp
  note fl = core_stream_flags [OF core c x(1) nc, where p = False and q = False
      and r = "f_readable x" and s = "f_writable x", unfolded same]
  show thesis by (rule that [OF run]) (use fl in simp_all)
qed

lemma reading_open:
  assumes "server_core w" and "client_mem w a = Some c"
    and "handles (uv w) (ClientHandle a) = Some x" and "f_reading x"
  shows "ClientHandle a \<notin> set (chain (uv w))" and "\<not> f_closing x"
  using core_tcpE [OF assms(1,2)] assms(3,4) by (metis option.inject)+

definition scripts_ok :: "bool \<Rightarrow> 'l server \<Rightarrow> bool" where
  "scripts_ok nc w \<longleftrightarrow>
     script_safe (script w) (dom (client_mem w)) \<and> handles_data (script w) \<and>
     (nc \<longrightarrow> keeps_clients_open (script w))"

lemma may_read_scripts:
  "may_read nc a w \<longleftrightarrow> scripts_ok nc w \<and> ClientHandle a \<notin> set (chain (uv w))"
  by (auto simp: may_read_def scripts_ok_def)

lemma scripts_ok_same: "scripts_ok nc w \<Longrightarrow> same_world w w' \<Longrightarrow> scripts_ok nc w'"
  by (simp add: scripts_ok_def same_world_def)

text \<open>Getting a buffer.\<close>

lemma alloc_buffer_ok:
  assumes inv: "server_inv w"
  obtains base len w1 where "alloc_buffer 65536 w = ((base, len), w1)" and "holding base w1"
    and "uv w1 = uv w" and "client_mem w1 = client_mem w" and "trace w1 = trace w"
    and "same_world w w1" and "base = None \<or> len = 65536" and "mallocs w = [] \<longrightarrow> base \<noteq> None"
proof -
  obtain ok w0 where m: "next_malloc w = (ok, w0)" by fastforce
  obtain ms where w0: "w0 = w\<lparr>mallocs := ms\<rparr>" "mallocs w = [] \<longrightarrow> ms = []"
    using next_malloc_simps [OF m] by blast
  have ok: "mallocs w = [] \<longrightarrow> ok" using m by (auto simp: next_malloc_def split: list.splits)
  have inv': "server_core w" "rx_ok {} w" "ready_queue (uv w) = []" "read_bufs w = []"
      "detached (uv w) = []"
    using inv by (simp_all add: server_inv_def)
  show thesis
  proof (cases ok)
    case True
    show thesis
      by (rule that [of "Some 1" 65536 "w0\<lparr>read_bufs := [1]\<rparr>"])
        (use True m inv' w0 in \<open>simp_all add: alloc_buffer_def holding_def same_world_def\<close>)
  next
    case False
    show thesis
      by (rule that [of None 0 w0])
        (use False m inv' w0 ok in \<open>simp_all add: alloc_buffer_def server_inv_def same_world_def\<close>)
  qed
qed

abbreviation server_read :: "nat \<Rightarrow> kernel_read list \<Rightarrow> 'l server \<Rightarrow> 'l server res" where
  "server_read a \<equiv> uv__read uv set_uv (\<lambda>h. alloc_buffer) on_read (ClientHandle a)"

lemma read_done_trans:
  assumes "same_world w w1" and "read_done nc w1 r"
  shows "read_done nc w r"
  using assms unfolding read_done_def by (blast intro: same_world_trans)

lemma read_done_bind:
  assumes r: "read_done nc w r"
    and f: "\<And>w'. server_inv w' \<Longrightarrow> same_world w w' \<Longrightarrow> read_done nc w (f w')"
  shows "read_done nc w (then_do r f)"
proof (cases r)
  case (Fault e)
  then show ?thesis using r by (simp add: read_done_def)
next
  case (Ret w')
  then show ?thesis using r f [of w'] by (simp add: read_done_def)
qed

text \<open>The same handler on a world whose loop differs in flags only.\<close>

lemma holding_set_uv:
  assumes "holding buf w" and "server_core (set_uv L w)" and "ready_queue L = []"
    and "detached L = []"
  shows "holding buf (set_uv L w)"
  using assms by (simp add: holding_def)

lemma read_eof_done:
  assumes h: "holding buf w" and c: "client_mem w a = Some c" and sc: "scripts_ok nc w"
    and x: "handles (uv w) (ClientHandle a) = Some x" "f_reading x"
  shows "read_done nc w (uv__stream_eof uv set_uv on_read (ClientHandle a) buf w)"
proof -
  have core: "server_core w" and rq: "ready_queue (uv w) = []" "detached (uv w) = []" using h by (simp_all add: holding_def)
  obtain L where L: "uv__handle_stop (set_handle (uv w) (ClientHandle a) (x\<lparr>f_reading := False\<rparr>))
      (ClientHandle a) = Ret L" "server_core (set_uv L w)" "same_world w (set_uv L w)"
      "chain L = chain (uv w)" "ready_queue L = ready_queue (uv w)" "detached L = detached (uv w)"
    using stop_reading [OF core c x] .
  have h1: "holding buf (set_uv L w)" using holding_set_uv [OF h L(2)] rq L(5,6) by simp
  have may: "may_read nc a (set_uv L w)"
    using scripts_ok_same [OF sc L(3)] reading_open [OF core c x] L(4) by (simp add: may_read_scripts)
  have "read_done nc (set_uv L w) (on_read (ClientHandle a) (ReadError UV_EOF) buf (set_uv L w))"
    by (rule on_read_done [OF h1 _ may]) (simp add: c)
  then show ?thesis
    using read_done_trans [OF L(3)] x(1) L(1) by (simp add: uv__stream_eof_def)
qed

text \<open>After the callback of a failed read the stream stops reading, if it is still open.\<close>

lemma read_error_tail:
  assumes inv: "server_inv w" and c: "client_mem w a = Some c"
  shows "\<exists>w'. deref (handles (uv w) (ClientHandle a)) (\<lambda>x.
        if f_reading x
        then then_do (uv__handle_stop (set_handle (uv w) (ClientHandle a) (x\<lparr>f_reading := False\<rparr>))
               (ClientHandle a)) (\<lambda>L. Ret (set_uv L w))
        else Ret w) = Ret w' \<and> server_inv w' \<and> same_world w w'"
proof -
  have core: "server_core w" using inv by (simp add: server_inv_def)
  obtain x where x: "handles (uv w) (ClientHandle a) = Some x" using core_tcpE [OF core c] by metis
  show ?thesis
  proof (cases "f_reading x")
    case True
    obtain L where L: "uv__handle_stop (set_handle (uv w) (ClientHandle a) (x\<lparr>f_reading := False\<rparr>))
        (ClientHandle a) = Ret L" "server_core (set_uv L w)" "same_world w (set_uv L w)"
        "chain L = chain (uv w)" "ready_queue L = ready_queue (uv w)" "detached L = detached (uv w)"
      using stop_reading [OF core c x True] .
    have "server_inv (set_uv L w)" using inv L(2,5,6) by (simp add: server_inv_def)
    then show ?thesis using x True L(1,3) by simp
  next
    case False
    then show ?thesis using x inv by simp
  qed
qed

text \<open>A read that fails: the callback, then the stream stops reading.\<close>

lemma read_error_done:
  assumes h: "holding buf w" and c: "client_mem w a = Some c" and sc: "scripts_ok nc w"
    and x: "handles (uv w) (ClientHandle a) = Some x" "f_reading x"
  shows "read_done nc w (then_do (on_read (ClientHandle a) (ReadError e) buf
      (set_uv (set_handle (uv w) (ClientHandle a) (x\<lparr>f_readable := False, f_writable := False\<rparr>)) w))
    (\<lambda>w. deref (handles (uv w) (ClientHandle a)) (\<lambda>x.
        if f_reading x
        then then_do (uv__handle_stop (set_handle (uv w) (ClientHandle a) (x\<lparr>f_reading := False\<rparr>))
               (ClientHandle a)) (\<lambda>L. Ret (set_uv L w))
        else Ret w)))"
proof -
  have core: "server_core w" and rq: "ready_queue (uv w) = []" "detached (uv w) = []" using h by (simp_all add: holding_def)
  have nc: "\<not> f_closing x" using reading_open [OF core c x] by simp
  let ?L = "set_handle (uv w) (ClientHandle a) (x\<lparr>f_readable := False, f_writable := False\<rparr>)"
  have same: "x\<lparr>f_active := f_active x, f_reading := f_reading x, f_readable := False,
      f_writable := False\<rparr> = x\<lparr>f_readable := False, f_writable := False\<rparr>" by (cases x) simp
  note fl = core_stream_flags [OF core c x(1) nc, of ?L, where p = "f_active x" and q = "f_reading x"
      and r = False and s = False, unfolded same]
  have L: "server_core (set_uv ?L w)" "same_world w (set_uv ?L w)" using fl by simp_all
  have h1: "holding buf (set_uv ?L w)" using holding_set_uv [OF h L(1)] rq by simp
  have c1: "client_mem (set_uv ?L w) a = Some c" using c by simp
  have open1: "ClientHandle a \<notin> set (chain (uv (set_uv ?L w)))"
    using reading_open [OF core c x] by simp
  obtain w1 where w1: "on_read (ClientHandle a) (ReadError e) buf (set_uv ?L w) = Ret w1"
      "server_inv w1" "same_world (set_uv ?L w) w1"
    using on_read_error [OF h1 c1 open1] by blast
  have sw: "same_world w w1" using same_world_trans [OF L(2) w1(3)] .
  then obtain c' where "client_mem w1 a = Some c'" using c by (auto simp: same_world_def)
  then show ?thesis
    using read_error_tail [OF w1(2)] w1(1) same_world_trans [OF sw] by (auto simp: read_done_def)
qed

lemma server_read_ok:
  "server_inv w \<Longrightarrow> client_mem w a \<noteq> None \<Longrightarrow> scripts_ok nc w \<Longrightarrow> read_done nc w (server_read a ks w)"
proof (induction ks arbitrary: w)
  case Nil
  then show ?case by (simp add: read_done_def)
next
  case (Cons k ks)
  obtain c where c: "client_mem w a = Some c" using Cons.prems(2) by auto
  have core: "server_core w" using Cons.prems(1) by (simp add: server_inv_def)
  obtain x where x: "handles (uv w) (ClientHandle a) = Some x" using core_tcpE [OF core c] by metis
  show ?case
  proof (cases "f_reading x")
    case False
    then show ?thesis using x Cons.prems(1) by (simp add: read_done_def)
  next
    case True
    obtain base len w1 where al: "alloc_buffer 65536 w = ((base, len), w1)" "holding base w1"
        "uv w1 = uv w" "client_mem w1 = client_mem w" "same_world w w1"
        "base = None \<or> len = 65536"
      using alloc_buffer_ok [OF Cons.prems(1)] by metis
    have c1: "client_mem w1 a = Some c" and x1: "handles (uv w1) (ClientHandle a) = Some x"
      using c x al by simp_all
    have core1: "server_core w1" using al(2) by (simp add: holding_def)
    have sc1: "scripts_ok nc w1" by (rule scripts_ok_same [OF Cons.prems(3) al(5)])
    then have may1: "may_read nc a w1"
      using reading_open [OF core1 c1 x1 True] by (simp add: may_read_scripts)
    note done1 = on_read_done [OF al(2) c1 may1]
    note up = read_done_trans [OF al(5)]
    show ?thesis
    proof (cases "base = None \<or> len = 0")
      case True
      then show ?thesis using x \<open>f_reading x\<close> al(1) up [OF done1] by simp
    next
      case False
      show ?thesis
      proof (cases k)
        case (KernelData bs)
        have first: "read_done nc w (on_read (ClientHandle a) (ReadData (take len bs)) base w1)"
          by (rule up [OF done1])
        show ?thesis
        proof (cases "length bs < len")
          case True
          then show ?thesis
            using x \<open>f_reading x\<close> al(1) False KernelData first by (auto simp: read_done_def)
        next
          case full: False
          have "read_done nc w (server_read a ks w')"
            if "server_inv w'" "same_world w w'" for w'
          proof (rule read_done_trans [OF that(2)])
            have "client_mem w' a \<noteq> None" using c that(2) by (auto simp: same_world_def)
            then show "read_done nc w' (server_read a ks w')"
              using Cons.IH [OF that(1)] scripts_ok_same [OF Cons.prems(3) that(2)] by simp
          qed
          then show ?thesis
            using x \<open>f_reading x\<close> al(1) False KernelData full
              read_done_bind [OF first, of "server_read a ks"] by auto
        qed
      next
        case KernelAgain
        then show ?thesis using x \<open>f_reading x\<close> al(1) False up [OF done1] by auto
      next
        case (KernelError e)
        then show ?thesis
          using x \<open>f_reading x\<close> al(1,3) False up [OF read_error_done [OF al(2) c1 sc1 x1 True]]
          by auto
      next
        case KernelEof
        then show ?thesis
          using x \<open>f_reading x\<close> al(1) False up [OF read_eof_done [OF al(2) c1 sc1 x1 True]] by auto
      qed
    qed
  qed
qed

subsection \<open>What a sequence of reads delivers\<close>

text \<open>The bytes a poll brings in when no read fails.\<close>

fun consumed :: "kernel_read list \<Rightarrow> byte list" where
  "consumed (KernelData bs # ks) = (if length bs < 65536 then bs else take 65536 bs @ consumed ks)"
| "consumed _ = []"

definition delivers :: "nat \<Rightarrow> byte list \<Rightarrow> 'l server \<Rightarrow> 'l server \<Rightarrow> bool" where
  "delivers a S w w' \<longleftrightarrow>
     delivered a (trace w') = delivered a (trace w) @ fst (decode S) \<and>
     (\<exists>c'. client_mem w' a = Some c' \<and>
        (case snd (decode S) of
           Incomplete r \<Rightarrow> is_valid c' \<and> pending c' = r
         | BadLength k \<Rightarrow> magic c' = 0 \<and>
             chain (uv w') = ClientHandle a # chain (uv w)))"

lemma delivers_outcome:
  assumes "read_outcome True a S buf w c w'" and "is_valid c"
  shows "delivers a S w w'"
  using assms unfolding read_outcome_def delivers_def
  by (cases "snd (decode S)") (auto simp: prod_eq_iff)

text \<open>
  Without failures, a poll hands the script exactly what the decoder finds in the bytes it brings
  in, however the kernel cuts them.
\<close>

lemma delivers_append:
  assumes "delivers a S w w1" and "snd (decode S) = Incomplete r" and "delivers a (r @ T) w1 w2"
    and "chain (uv w1) = chain (uv w)"
  shows "delivers a (S @ T) w w2"
  using assms unfolding delivers_def
  by (simp add: decode_append [OF assms(2)] cong: stream_rest.case_cong)

lemma delivers_stop:
  assumes "delivers a S w w1" and "snd (decode S) = BadLength k"
  shows "delivers a (S @ T) w w1"
  using assms unfolding delivers_def by (simp add: decode_bad_append [OF assms(2)])

lemma delivers_none:
  assumes "client_mem w a = Some c" and "is_valid c" and "rx_inv c"
    and "trace w' = trace w" and "client_mem w' = client_mem w"
  shows "delivers a (pending c) w w'"
  using assms by (simp add: delivers_def decode_pending)

lemma server_read_delivers:
  "server_inv w \<Longrightarrow> client_mem w a = Some c \<Longrightarrow> is_valid c \<Longrightarrow> scripts_ok True w \<Longrightarrow>
     handles (uv w) (ClientHandle a) = Some x \<Longrightarrow> f_reading x \<Longrightarrow> mallocs w = [] \<Longrightarrow>
     \<forall>k \<in> set ks. \<exists>bs. k = KernelData bs \<and> bs \<noteq> [] \<Longrightarrow>
     \<exists>w'. server_read a ks w = Ret w' \<and> server_inv w' \<and> same_world w w' \<and>
       delivers a (pending c @ consumed ks) w w'"
proof (induction ks arbitrary: w c)
  case Nil
  have "magic c = CLIENT_MAGIC"
    using core_fields [of w a c] Nil.prems(1-3) by (simp add: server_inv_def client_fields_ok_def)
  then have "rx_inv c" using Nil.prems(1,2) by (simp add: server_inv_def rx_ok_def)
  then show ?case using delivers_none [OF Nil.prems(2,3)] Nil.prems(1) by simp
next
  case (Cons k ks)
  note c = Cons.prems(2) and v = Cons.prems(3) and x = Cons.prems(5,6)
  obtain bs where k: "k = KernelData bs" "bs \<noteq> []" using Cons.prems(8) by auto
  obtain base len w1 where al: "alloc_buffer 65536 w = ((base, len), w1)" "holding base w1"
      "uv w1 = uv w" "client_mem w1 = client_mem w" "trace w1 = trace w" "same_world w w1"
      "base = None \<or> len = 65536" "mallocs w = [] \<longrightarrow> base \<noteq> None"
    by (rule alloc_buffer_ok [OF Cons.prems(1)])
  have len: "base \<noteq> None" "len = 65536" using al(7,8) Cons.prems(7) by auto
  have core1: "server_core w1" using al(2) by (simp add: holding_def)
  have c1: "client_mem w1 a = Some c" using c al(4) by simp
  have "may_read True a w1"
    using reading_open [OF core1 c1, of x] scripts_ok_same [OF Cons.prems(4) al(6)] x al(3)
    by (simp add: may_read_scripts)
  then have "reads_well True a (pending c @ take len bs) base w1 c
      (on_read (ClientHandle a) (ReadData (take len bs)) base w1)"
    by (rule on_read_data [OF al(2) c1 v]) (use k(2) len in simp)
  then obtain w2 where w2: "on_read (ClientHandle a) (ReadData (take len bs)) base w1 = Ret w2"
      "read_outcome True a (pending c @ take len bs) base w1 c w2"
    by (auto simp: reads_well_def)
  have inv2: "server_inv w2" by (rule outcome_inv [OF al(2) w2(2)])
  have sw2: "same_world w w2"
    using same_world_trans [OF al(6)] w2(2) by (simp add: read_outcome_def)
  have d2: "delivers a (pending c @ take len bs) w w2"
    using delivers_outcome [OF w2(2) v] al(3,5) by (simp add: delivers_def cong: stream_rest.case_cong)
  have run: "server_read a (k # ks) w = (if length bs < len then Ret w2 else server_read a ks w2)"
    using x al(1) len k(1) w2(1) by auto
  show ?case
  proof (cases "length bs < len")
    case True
    then show ?thesis using run inv2 sw2 d2 k(1) len by simp
  next
    case False
    then have cons: "consumed (k # ks) = take len bs @ consumed ks" using k(1) len by simp
    show ?thesis
    proof (cases "snd (decode (pending c @ take len bs))")
      case (Incomplete r)
      then obtain c2 where c2: "client_mem w2 a = Some c2" "is_valid c2" "pending c2 = r"
        using d2 by (auto simp: delivers_def)
      have same: "handles (uv w2) = handles (uv w)" "chain (uv w2) = chain (uv w)"
        using w2(2) v Incomplete al(3) unfolding read_outcome_def same_handles_def by auto
      have x2: "handles (uv w2) (ClientHandle a) = Some x" using x(1) same by simp
      have m2: "mallocs w2 = []" using sw2 Cons.prems(7) by (simp add: same_world_def)
      obtain w3 where w3: "server_read a ks w2 = Ret w3" "server_inv w3" "same_world w2 w3"
          "delivers a (pending c2 @ consumed ks) w2 w3"
        using Cons.IH [OF inv2 c2(1,2) scripts_ok_same [OF Cons.prems(4) sw2] x2 x(2) m2]
          Cons.prems(8) by auto
      have "delivers a ((pending c @ take len bs) @ consumed ks) w w3"
        by (rule delivers_append [OF d2 Incomplete _ same(2)]) (use w3(4) c2(3) in simp)
      then show ?thesis using run False w3(1,2) same_world_trans [OF sw2 w3(3)] cons by simp
    next
      case (BadLength n)
      have cl: "ClientHandle a \<in> set (chain (uv w2))" and "client_mem w2 a \<noteq> None"
        using d2 BadLength by (auto simp: delivers_def)
      then obtain c2 where c2: "client_mem w2 a = Some c2" by auto
      have core2: "server_core w2" using inv2 by (simp add: server_inv_def)
      obtain x2 where "handles (uv w2) (ClientHandle a) = Some x2" "\<not> f_reading x2"
        using core_tcpE [OF core2 c2] cl by metis
      then have "server_read a ks w2 = Ret w2" by (cases ks) simp_all
      then show ?thesis
        using run False inv2 sw2 cons delivers_stop [OF d2 BadLength, of "consumed ks"] by simp
    qed
  qed
qed

text \<open>Bytes that are no frame, on a client with nothing pending: the connection is closed, the script told nothing.\<close>

lemma text_ends_connection:
  assumes "server_inv w" and "client_mem w a = Some c" and "is_valid c" and "pending c = []"
    and "enabled (Readable a [KernelData line]) w" and "scripts_ok True w" and "mallocs w = []"
    and "4 \<le> length line" and "hd line \<noteq> 0" and "length line < 65536"
  shows "\<exists>w'. handle_event (Readable a [KernelData line]) w = Ret w' \<and>
    delivered a (trace w') = delivered a (trace w) \<and> chain (uv w') = ClientHandle a # chain (uv w)"
proof -
  obtain x where x: "handles (uv w) (ClientHandle a) = Some x" "f_reading x"
    using assms(5) by (auto split: option.splits)
  have "\<forall>k \<in> set [KernelData line]. \<exists>bs. k = KernelData bs \<and> bs \<noteq> []" using assms(8) by auto
  from server_read_delivers [OF assms(1-3,6) x assms(7) this]
  obtain w' where w': "server_read a [KernelData line] w = Ret w'"
      "delivers a (pending c @ consumed [KernelData line]) w w'" by blast
  have "decode line = ([], BadLength (be_value (take 4 line)))" by (rule decode_text [OF assms(8,9)])
  moreover have "pending c @ consumed [KernelData line] = line" using assms(4,10) by simp
  ultimately have "delivered a (trace w') = delivered a (trace w)" "chain (uv w') = ClientHandle a # chain (uv w)"
    using w'(2) by (auto simp: delivers_def)
  moreover have "handle_event (Readable a [KernelData line]) w = Ret w'"
    unfolding handle_event_def using w'(1) by (simp del: uv__read.simps)
  ultimately show ?thesis by blast
qed

end
