(* ===== verification/Server_Demo.thy ===== *)
theory Server_Demo
  imports Server_Events
begin

text \<open>
  Concrete states and scripts on which the properties are exercised: a server at time 0 with one
  connected client at address 7 that has sent nothing yet, and scripts that do nothing, echo what
  they get, or hang up on the sender.
\<close>

section \<open>Scripts\<close>

definition silent_script :: "unit script" where
  "silent_script =
     \<lparr>on_server_start = \<lambda>l. None, on_client_connect = \<lambda>l. None, on_client_data = \<lambda>l. None,
      on_client_disconnect = \<lambda>l. None, on_server_stop = \<lambda>l. None\<rparr>"

definition echo_script :: "unit script" where
  "echo_script = silent_script\<lparr>on_client_data :=
     \<lambda>l. Some (\<lambda>a m. SendData (Some a) m (\<lambda>r. LuaReturn ()))\<rparr>"

definition quit_script :: "unit script" where
  "quit_script = silent_script\<lparr>on_client_data :=
     \<lambda>l. Some (\<lambda>a m. CloseClient (Some a) (\<lambda>r. LuaReturn ()))\<rparr>"

lemma echo_script_ok:
  "script_safe echo_script A" "handles_data echo_script" "keeps_clients_open echo_script"
  by (simp_all add: script_safe_def handles_data_def keeps_clients_open_def echo_script_def
      silent_script_def)

lemma quit_script_ok: "script_safe quit_script A" "handles_data quit_script"
  by (simp_all add: script_safe_def handles_data_def quit_script_def silent_script_def)

section \<open>A server with one client\<close>

definition demo_client :: client_t where
  "demo_client = fresh_client 0"

definition demo_stream :: "(server_cb, udata) uv_handle" where
  "demo_stream = zero_handle\<lparr>htype := UV_TCP, f_ref := True, f_active := True, f_reading := True,
     f_readable := True, f_writable := True, fd_open := True, hdata := Some (ClientPtr 7)\<rparr>"

definition demo_timer :: "(server_cb, udata) uv_handle" where
  "demo_timer = zero_handle\<lparr>htype := UV_TIMER, f_ref := True, f_active := True,
     hdata := Some (ClientPtr 7), timer_cb := Some On_idle_timeout, timeout := 60000,
     repeat := 60000, node_linked := True\<rparr>"

definition demo_listener :: "(server_cb, udata) uv_handle" where
  "demo_listener = zero_handle\<lparr>htype := UV_TCP, f_ref := True, f_active := True, fd_open := True,
     hdata := Some CtxPtr\<rparr>"

definition demo_loop :: server_loop where
  "demo_loop = (initial_loop 0)\<lparr>
     handles := [ServerHandle \<mapsto> demo_listener, ClientHandle 7 \<mapsto> demo_stream,
                 IdleTimer 7 \<mapsto> demo_timer],
     timer_heap := [IdleTimer 7], timer_counter := 1,
     handle_queue := [ServerHandle, ClientHandle 7, IdleTimer 7], active_handles := 3\<rparr>"

definition demo_server :: "'l script \<Rightarrow> 'l \<Rightarrow> 'l server" where
  "demo_server S l = (initial_server 0 True S l)\<lparr>uv := demo_loop,
     client_mem := [7 \<mapsto> demo_client], clients := Some 7 # replicate 15 None, client_count := 1,
     client_capacity := 16\<rparr>"

lemmas demo_defs = demo_server_def demo_loop_def demo_stream_def demo_timer_def demo_listener_def
  initial_server_def initial_loop_def zero_handle_def chain_def

lemma demo_client_ok: "client_fields_ok demo_client" "rx_inv demo_client"
  by (simp_all add: client_fields_ok_def demo_client_def fresh_client_def zero_client_def rx_inv_def
      wire_consts)

lemma demo_timers_ok: "timers_ok demo_loop"
  by (rule timers_okI) (auto simp: demo_defs heap_ok_def is_active_timer_def)

lemma demo_registry_ok: "registry_ok (demo_server S l)" "registered (demo_server S l) = {7}"
  by (simp_all add: registry_ok_def registered_def demo_server_def demo_client_def fresh_client_def
      zero_client_def initial_server_def)

lemma demo_core: "server_core (demo_server S l)"
proof -
  have "clients_ok (demo_server S l)"
    using demo_client_ok(1) by (simp add: clients_ok_def tcp_ok_def idle_ok_def demo_defs)
  moreover have "uv (demo_server S l) = demo_loop" by (simp add: demo_server_def)
  moreover have "dom (client_mem (demo_server S l)) = {7}" by (auto simp: demo_server_def)
  moreover have "no_stale_handles (demo_server S l)" "closing_ok (demo_server S l)"
      "writes_ok (demo_server S l)" "ready_ok (demo_server S l)"
    by (auto simp: no_stale_handles_def closing_ok_def writes_ok_def ready_ok_def demo_defs)
  ultimately show ?thesis using demo_timers_ok demo_registry_ok [of S l] by (simp add: server_core_def)
qed

lemma demo_inv: "server_inv (demo_server S l)"
  using demo_core [of S l] demo_client_ok(2)
  by (simp add: server_inv_def rx_ok_def demo_server_def initial_server_def demo_loop_def initial_loop_def)

lemma demo_simps [simp]:
  "client_mem (demo_server S l) 7 = Some demo_client" "script (demo_server S l) = S"
  "mallocs (demo_server S l) = []" "handles (uv (demo_server S l)) (ClientHandle 7) = Some demo_stream"
  "f_reading demo_stream" "fd_open demo_stream" "is_valid demo_client" "pending demo_client = []"
  "chain (uv (demo_server S l)) = []" "trace (demo_server S l) = []"
  "host_le (demo_server S l) = True"
  by (simp_all add: demo_defs demo_client_def fresh_client_def zero_client_def pending_def)

end
