(* ===== verification/Server_Timers.thy ===== *)
theory Server_Timers
  imports Server_Events
begin

text \<open>
  The idle timers and completed writes. A pass of \<open>uv__run_timers\<close> runs the callback of every due
  timer, which closes the connection of a client that has been silent for 300000 ms, and restarts
  the timer for 60000 ms; it never fails and keeps the invariant.
\<close>

section \<open>The callback\<close>

definition mid_timers :: "'l server \<Rightarrow> bool" where
  "mid_timers w \<longleftrightarrow>
     server_core w \<and> rx_ok {} w \<and> read_bufs w = [] \<and> detached (uv w) = []"

lemma mid_timers_inv: "server_inv w \<longleftrightarrow> mid_timers w \<and> ready_queue (uv w) = []"
  by (auto simp: server_inv_def mid_timers_def)

definition timed_out :: "'l server \<Rightarrow> nat \<Rightarrow> bool" where
  "timed_out w a \<longleftrightarrow>
     (\<exists>c. client_mem w a = Some c \<and> is_valid c \<and>
        IDLE_TIMEOUT_MS \<le> loop_time (uv w) - last_activity c)"

text \<open>What one callback does: nothing, or put the stream of the client on the closing chain.\<close>

definition idle_effect :: "nat \<Rightarrow> 'l server \<Rightarrow> 'l server \<Rightarrow> bool" where
  "idle_effect a w w' \<longleftrightarrow>
     client_mem w' = client_mem w \<and> lua w' = lua w \<and> write_queue (uv w') = write_queue (uv w) \<and>
     (IdleTimer a \<notin> set (ready_queue (uv w)) \<longrightarrow> ready_queue (uv w') = ready_queue (uv w)) \<and>
     (\<not> timed_out w a \<longrightarrow> w' = w) \<and>
     (timed_out w a \<longrightarrow> set (chain (uv w')) = insert (ClientHandle a) (set (chain (uv w))))"

lemma on_idle_timeout_ok:
  assumes mid: "mid_timers w" and c: "client_mem w a = Some c"
  shows "\<exists>w'. on_idle_timeout (IdleTimer a) w = Ret w' \<and> mid_timers w' \<and> same_world w w' \<and>
    idle_effect a w w'"
proof -
  have core: "server_core w" using mid by (simp add: mid_timers_def)
  obtain t where t: "handles (uv w) (IdleTimer a) = Some t" "hdata t = Some (ClientPtr a)"
    using core_idleE [OF core c] by metis
  have srv: "server_set c" using core_fields [OF core c] by (simp add: client_fields_ok_def)
  have start: "on_idle_timeout (IdleTimer a) w =
      (if timed_out w a
       then then_do (on_loop (\<lambda>L. uv_timer_stop L (IdleTimer a))
                (emit (Stderr ''Client timeout, closing connection'') w)) (\<lambda>w.
            then_do (uv_is_closing (uv w) (ClientHandle a)) (\<lambda>closing.
              if closing then Ret w
              else on_loop (\<lambda>L. uv_close L (ClientHandle a) (Some On_client_close)) w))
       else Ret w)"
    using t c srv
    by (auto simp: on_idle_timeout_def data_client_def client_valid_iff [OF core c] timed_out_def
        server_of_def uv_now_def)
  show ?thesis
  proof (cases "timed_out w a")
    case False
    then show ?thesis using start mid by (simp add: idle_effect_def)
  next
    case True
    let ?w1 = "emit (Stderr ''Client timeout, closing connection'') w"
    have core1: "server_core ?w1" and c1: "client_mem ?w1 a = Some c" using core c by simp_all
    obtain L2 where L2: "uv_timer_stop (uv ?w1) (IdleTimer a) = Ret L2" "server_core (set_uv L2 ?w1)"
        "chain L2 = chain (uv ?w1)" "detached L2 = detached (uv ?w1)"
        "loop_time L2 = loop_time (uv ?w1)" "write_queue L2 = write_queue (uv ?w1)"
        "set (ready_queue L2) \<subseteq> set (ready_queue (uv ?w1))"
        "IdleTimer a \<notin> set (ready_queue (uv ?w1)) \<longrightarrow> ready_queue L2 = ready_queue (uv ?w1)"
      by (rule core_timer_stop [OF core1 c1]) blast
    let ?w2 = "set_uv L2 ?w1"
    have c2: "client_mem ?w2 a = Some c" using c by simp
    have mid2: "mid_timers ?w2" and sw2: "same_world w ?w2"
      using mid L2 by (auto simp: mid_timers_def same_world_def)
    show ?thesis
    proof (cases "ClientHandle a \<in> set (chain (uv w))")
      case closing: True
      have "idle_effect a w ?w2"
        using True closing L2(3,6,8) by (auto simp: idle_effect_def)
      then show ?thesis
        using start True L2(1,3) closing core_is_closing [OF L2(2) c2] mid2 sw2
        by (simp add: on_loop_def)
    next
      case False
      obtain L3 where L3: "uv_close L2 (ClientHandle a) (Some On_client_close) = Ret L3"
          "server_core (set_uv L3 ?w2)" "chain L3 = ClientHandle a # chain L2"
          "detached L3 = detached L2" "loop_time L3 = loop_time L2"
          "write_queue L3 = write_queue L2" "ready_queue L3 = ready_queue L2"
        by (rule core_close [OF L2(2) c2]) (use False L2(3) in simp_all)
      let ?w3 = "set_uv L3 ?w2"
      have "idle_effect a w ?w3" using True L2(3,6,8) L3(3,6,7) by (simp add: idle_effect_def)
      moreover have "mid_timers ?w3" using mid2 L3(2,4) by (simp add: mid_timers_def)
      moreover have "same_world w ?w3"
        using sw2 L3(4,5,7) by (simp add: same_world_def)
      ultimately show ?thesis
        using start True L2(1,3) False core_is_closing [OF L2(2) c2] L3(1)
        by (simp add: on_loop_def)
    qed
  qed
qed

section \<open>Restarting a timer\<close>

lemma timer_again_ok:
  assumes mid: "mid_timers w" and q: "ready_queue (uv w) = IdleTimer a # q"
  obtains L where "uv_timer_again ((uv w)\<lparr>ready_queue := q\<rparr>) (IdleTimer a) = Ret (0, L)"
    and "mid_timers (set_uv L w)" and "ready_queue L = q" and "chain L = chain (uv w)"
    and "loop_time L = loop_time (uv w)" and "write_queue L = write_queue (uv w)"
    and "detached L = detached (uv w)"
    and "\<exists>t. handles L (IdleTimer a) = Some t \<and> timer_cb t = Some On_idle_timeout \<and> f_active t \<and>
           timeout t = clamped_timeout (loop_time (uv w)) 60000"
proof -
  have core: "server_core w" using mid by (simp add: mid_timers_def)
  have ready: "ready_ok w" using core by (simp add: server_core_def)
  obtain c where c: "client_mem w a = Some c" using ready q by (auto simp: ready_ok_def)
  have dist: "distinct q" "IdleTimer a \<notin> set q" using ready q by (auto simp: ready_ok_def)
  obtain t where t: "handles (uv w) (IdleTimer a) = Some t" "htype t = UV_TIMER"
      "f_active t \<or> node_linked t" "hdata t = Some (ClientPtr a)" "\<not> f_closing t" "\<not> f_closed t"
      "timer_cb t = Some On_idle_timeout" "repeat t = 60000"
    using core_idleE [OF core c] .
  have na: "\<not> f_active t" using ready q t(1) by (auto simp: ready_ok_def)
  let ?L0 = "(uv w)\<lparr>ready_queue := q\<rparr>"
  have ok0: "timers_ok ?L0" by (rule timers_ok_frame [OF core_timers [OF core]]) simp_all
  have stop: "uv_timer_stop ?L0 (IdleTimer a) = Ret ?L0"
    using uv_timer_stop_inactive [of ?L0 "IdleTimer a" t] t na dist by (simp add: remove1_idem)
  have tm: "is_timer ?L0 (IdleTimer a)" using t by (simp add: is_timer_def)
  have x0: "handles ?L0 (IdleTimer a) = Some t" and nc: "\<not> uv__is_closing t"
    using t by (simp_all add: uv__is_closing_def)
  have heap: "IdleTimer a \<notin> set (timer_heap ?L0)"
    using timers_ok_mem_iff [OF ok0] x0 na by simp
  define t' where "t' = t\<lparr>f_active := True, node_linked := True, timer_cb := Some On_idle_timeout,
      timeout := clamped_timeout (loop_time (uv w)) 60000, repeat := 60000,
      start_id := timer_counter (uv w)\<rparr>"
  obtain L where L: "uv_timer_start ?L0 (IdleTimer a) (Some On_idle_timeout) 60000 60000 = Ret (0, L)"
      "timers_ok L" "handles L = (handles (uv w))(IdleTimer a \<mapsto> t')"
      "loop_time L = loop_time (uv w)" "closing_handles L = closing_handles (uv w)"
      "detached L = detached (uv w)" "write_queue L = write_queue (uv w)" "ready_queue L = q"
    by (rule uv_timer_start_ok [OF ok0 tm x0 nc, of On_idle_timeout 60000 60000])
      (use heap dist in \<open>simp add: t'_def remove1_idem\<close>)
  have ch: "chain L = chain (uv w)" using L(5,6) by (simp add: chain_def)
  have run: "uv_timer_again ?L0 (IdleTimer a) = Ret (0, L)"
    using t L(1) stop by (simp add: uv_timer_again_def)
  have t': "htype t' = UV_TIMER" "f_active t'" "hdata t' = Some (ClientPtr a)" "\<not> f_closing t'"
      "\<not> f_closed t'" "timer_cb t' = Some On_idle_timeout" "repeat t' = 60000"
    using t by (simp_all add: t'_def)
  have "server_core (set_uv L w)"
  proof (rule core_set_uv [OF core L(2)])
    show "tcp_ok (handles L (ClientHandle b)) (ClientHandle b \<in> set (chain L)) b \<and>
        idle_ok (handles L (IdleTimer b)) b" if "client_mem w b = Some d" for b d
      using core that t' by (auto simp: server_core_def clients_ok_def L(3) ch idle_ok_def)
    show "ready_ok (set_uv L w)" using ready q by (auto simp: ready_ok_def L(3,8))
  qed (use core t in \<open>auto simp: core_defs L(3,7) ch\<close>)
  then have "mid_timers (set_uv L w)" using mid L(6) by (simp add: mid_timers_def)
  then show thesis by (rule that [OF run]) (use L ch t' in \<open>simp_all add: t'_def\<close>)
qed

section \<open>A pass over the timers\<close>

text \<open>The clients whose connection a list of timers closes.\<close>

definition expired :: "'l server \<Rightarrow> hid list \<Rightarrow> hid set" where
  "expired w hs = {ClientHandle a |a. IdleTimer a \<in> set hs \<and> timed_out w a}"

lemma expired_cong:
  "client_mem w' = client_mem w \<Longrightarrow> loop_time (uv w') = loop_time (uv w) \<Longrightarrow>
     expired w' hs = expired w hs"
  by (simp add: expired_def timed_out_def)

lemma expired_Cons:
  "expired w (IdleTimer a # hs) = (if timed_out w a then {ClientHandle a} else {}) \<union> expired w hs"
  by (auto simp: expired_def)

definition timers_effect :: "hid list \<Rightarrow> 'l server \<Rightarrow> 'l server \<Rightarrow> bool" where
  "timers_effect hs w w' \<longleftrightarrow>
     client_mem w' = client_mem w \<and> lua w' = lua w \<and> write_queue (uv w') = write_queue (uv w) \<and>
     script w' = script w \<and> host_le w' = host_le w \<and> loop_time (uv w') = loop_time (uv w) \<and>
     set (chain (uv w')) = set (chain (uv w)) \<union> expired w hs"

lemma run_ready_ok:
  "mid_timers w \<Longrightarrow> length (ready_queue (uv w)) < n \<Longrightarrow>
     \<exists>w'. run_ready uv set_uv run_callback n w = Ret w' \<and> mid_timers w' \<and>
       ready_queue (uv w') = [] \<and> timers_effect (ready_queue (uv w)) w w'"
proof (induction n arbitrary: w)
  case 0
  then show ?case by simp
next
  case (Suc n)
  have core: "server_core w" using Suc.prems(1) by (simp add: mid_timers_def)
  then have ready: "ready_ok w" by (simp add: server_core_def)
  show ?case
  proof (cases "ready_queue (uv w)")
    case Nil
    then show ?thesis using Suc.prems(1) by (simp add: timers_effect_def expired_def)
  next
    case (Cons h q)
    then obtain a c where h: "h = IdleTimer a" and c: "client_mem w a = Some c"
      using ready by (auto simp: ready_ok_def)
    note q = Cons [unfolded h]
    have aq: "IdleTimer a \<notin> set q" using ready q by (simp add: ready_ok_def)
    obtain L where L: "uv_timer_again ((uv w)\<lparr>ready_queue := q\<rparr>) (IdleTimer a) = Ret (0, L)"
        "mid_timers (set_uv L w)" "ready_queue L = q" "chain L = chain (uv w)"
        "loop_time L = loop_time (uv w)" "write_queue L = write_queue (uv w)"
        "\<exists>t. handles L (IdleTimer a) = Some t \<and> timer_cb t = Some On_idle_timeout"
      using timer_again_ok [OF Suc.prems(1) q] by metis
    let ?w1 = "set_uv L w"
    have c1: "client_mem ?w1 a = Some c" using c by simp
    obtain w2 where w2: "on_idle_timeout (IdleTimer a) ?w1 = Ret w2" "mid_timers w2"
        "same_world ?w1 w2" "idle_effect a ?w1 w2"
      using on_idle_timeout_ok [OF L(2) c1] by blast
    have q2: "ready_queue (uv w2) = q" using w2(4) L(3) aq by (simp add: idle_effect_def)
    then have "length (ready_queue (uv w2)) < n" using Suc.prems(2) q by simp
    then obtain w' where w': "run_ready uv set_uv run_callback n w2 = Ret w'" "mid_timers w'"
        "ready_queue (uv w') = []" "timers_effect q w2 w'"
      using Suc.IH [OF w2(2)] q2 by auto
    have mem2: "client_mem w2 = client_mem w" "loop_time (uv w2) = loop_time (uv w)"
      using w2(3,4) L(5) by (simp_all add: idle_effect_def same_world_def)
    have to: "timed_out ?w1 a = timed_out w a" using L(5) by (simp add: timed_out_def)
    have "set (chain (uv w2)) = (if timed_out w a then {ClientHandle a} else {}) \<union> set (chain (uv w))"
      using w2(4) L(4) to by (auto simp: idle_effect_def)
    then have "timers_effect (IdleTimer a # q) w w'"
      using w'(4) mem2 w2(3,4) L(6) expired_cong [OF mem2]
      by (auto simp: timers_effect_def idle_effect_def same_world_def expired_Cons)
    moreover have "run_ready uv set_uv run_callback (Suc n) w = Ret w'"
      using q L(1,7) w2(1) w'(1) by (auto simp: run_callback_def)
    ultimately show ?thesis using w'(2,3) q by simp
  qed
qed

text \<open>The timers a pass at time \<open>now\<close> finds due.\<close>

definition due_timers :: "u64 \<Rightarrow> server_loop \<Rightarrow> hid set" where
  "due_timers now L = {h \<in> set (timer_heap L). fst (timer_key (handles L) h) \<le> now}"

lemma idle_ok_stopped: "idle_ok x a \<Longrightarrow> idle_ok (map_option stopped x) a"
  by (auto simp: idle_ok_def stopped_def)

lemma collected_core:
  assumes core: "server_core w" and col: "collected (uv w) due L" and rq: "ready_queue (uv w) = []"
  shows "server_core (set_uv L w)"
proof -
  have L: "timers_ok L" "ready_queue L = due" "distinct due"
      "set due = {h \<in> set (timer_heap (uv w)). is_due (uv w) h}"
      "\<And>h. handles L h = (if h \<in> set due then map_option stopped (handles (uv w) h) else handles (uv w) h)"
      "chain L = chain (uv w)" "write_queue L = write_queue (uv w)"
    using col rq by (simp_all add: collected_def chain_def)
  have act: "is_active_timer (handles (uv w) h)" if "h \<in> set due" for h
    using that L(4) timers_ok_mem_iff [OF core_timers [OF core]] by simp
  have idle: "\<exists>a. h = IdleTimer a \<and> a \<in> dom (client_mem w)" if "h \<in> set due" for h
  proof (cases h)
    case ServerHandle
    then show ?thesis using act [OF that] core by (auto simp: server_core_def closing_ok_def)
  next
    case (ClientHandle a)
    show ?thesis
    proof (cases "client_mem w a")
      case None
      then have "handles (uv w) h = None"
        using core ClientHandle by (auto simp: server_core_def no_stale_handles_def domIff)
      then show ?thesis using act [OF that] by simp
    next
      case (Some c)
      then show ?thesis
        using act [OF that] core_tcpE [OF core Some] ClientHandle by (metis is_active_timer_Some(1) uv_handle_type.distinct(8))
    qed
  next
    case (IdleTimer a)
    show ?thesis
    proof (cases "client_mem w a")
      case None
      then have "handles (uv w) h = None"
        using core IdleTimer by (auto simp: server_core_def no_stale_handles_def domIff)
      then show ?thesis using act [OF that] by simp
    next
      case (Some c)
      then show ?thesis using IdleTimer by auto
    qed
  qed
  have other: "handles L (ClientHandle a) = handles (uv w) (ClientHandle a)"
      "handles L ServerHandle = handles (uv w) ServerHandle" for a
    using idle by (auto simp: L(5))
  show ?thesis
  proof (rule core_set_uv [OF core L(1)])
    show "tcp_ok (handles L (ClientHandle b)) (ClientHandle b \<in> set (chain L)) b \<and>
        idle_ok (handles L (IdleTimer b)) b" if "client_mem w b = Some d" for b d
    proof -
      have "tcp_ok (handles (uv w) (ClientHandle b)) (ClientHandle b \<in> set (chain (uv w))) b"
          "idle_ok (handles (uv w) (IdleTimer b)) b"
        using core that by (simp_all add: server_core_def clients_ok_def)
      then show ?thesis
        unfolding other L(6) by (simp add: L(5) idle_ok_stopped)
    qed
    show "ready_ok (set_uv L w)"
      using L(2,3,5) idle act by (fastforce simp: ready_ok_def stopped_def is_active_timer_def split: option.splits)
  qed (use core other in \<open>auto simp: core_defs L(5,6,7)\<close>)
qed

lemma run_timers_ok:
  assumes inv: "server_inv w"
  shows "\<exists>w' due. handle_event (RunTimers now) w = Ret w' \<and> server_inv w' \<and>
    set due = due_timers now (uv w) \<and>
    timers_effect due (set_uv (uv__update_time now (uv w)) w) w'"
proof -
  let ?w0 = "set_uv (uv__update_time now (uv w)) w"
  have core: "server_core w" and rq: "ready_queue (uv w) = []" using inv by (simp_all add: server_inv_def)
  have "timers_ok (uv__update_time now (uv w))"
    by (rule timers_ok_frame [OF core_timers [OF core]]) (simp_all add: uv__update_time_def)
  then have core0: "server_core ?w0"
    by (rule core_set_uv [OF core]) (use core in \<open>auto simp: core_defs uv__update_time_def\<close>)
  have same: "(uv ?w0)\<lparr>ready_queue := []\<rparr> = uv ?w0" using rq by (simp add: uv__update_time_def)
  obtain L due where L: "collect_due (Suc (length (timer_heap (uv ?w0)))) (uv ?w0) = Ret L"
      "collected (uv ?w0) due L"
    using collect_due_total [OF core_timers [OF core0]] by blast
  have rq0: "ready_queue (uv ?w0) = []" using rq by (simp add: uv__update_time_def)
  have core1: "server_core (set_uv L ?w0)" by (rule collected_core [OF core0 L(2) rq0])
  have L': "ready_queue L = due" "detached L = detached (uv w)" "chain L = chain (uv w)"
      "loop_time L = now" "write_queue L = write_queue (uv w)"
    using L(2) rq by (simp_all add: collected_def chain_def uv__update_time_def)
  have mid1: "mid_timers (set_uv L ?w0)"
    using inv core1 L'(2) by (simp add: mid_timers_def server_inv_def)
  obtain w' where w': "run_ready uv set_uv run_callback (Suc (length (ready_queue L))) (set_uv L ?w0) = Ret w'"
      "mid_timers w'" "ready_queue (uv w') = []" "timers_effect due (set_uv L ?w0) w'"
    using run_ready_ok [OF mid1, of "Suc (length (ready_queue L))"] L'(1) by auto
  have "set due = due_timers now (uv w)"
    using L(2) by (auto simp: collected_def due_timers_def is_due_def uv__update_time_def)
  moreover have "timers_effect due ?w0 w'"
    using w'(4) L'(3,4,5) expired_cong [of "set_uv L ?w0" ?w0 due]
    by (simp add: timers_effect_def uv__update_time_def)
  moreover have "uv__run_timers uv set_uv run_callback ?w0 = Ret w'"
    unfolding uv__run_timers_def Let_def same L(1) then_do.simps by (rule w'(1))
  then have "handle_event (RunTimers now) w = Ret w'" by (simp add: handle_event_def)
  ultimately show ?thesis using w'(2,3) by (auto simp: mid_timers_inv)
qed

section \<open>Completed writes\<close>

lemma write_complete_ok:
  assumes inv: "server_inv w"
  shows "\<exists>w'. handle_event (WriteComplete a status) w = Ret w' \<and> server_inv w' \<and>
    client_mem w' = client_mem w \<and> closing_handles (uv w') = closing_handles (uv w) \<and>
    script w' = script w"
proof (cases "List.find (\<lambda>r. fst r = ClientHandle a) (write_queue (uv w))")
  case None
  then show ?thesis using inv by (simp add: handle_event_def uv__write_complete_def)
next
  case (Some r)
  have core: "server_core w" using inv by (simp add: server_inv_def)
  have r: "r \<in> set (write_queue (uv w))" using Some by (auto simp: find_Some_iff)
  let ?L = "(uv w)\<lparr>write_queue := remove1 r (write_queue (uv w)),
      active_reqs := active_reqs (uv w) - 1\<rparr>"
  let ?w1 = "if status < 0 then emit (Stderr ''Write error'') (set_uv ?L w) else set_uv ?L w"
  let ?w' = "?w1\<lparr>live_writes := live_writes w - 1\<rparr>"
  have run: "handle_event (WriteComplete a status) w = Ret ?w'"
    using Some by (simp add: handle_event_def uv__write_complete_def on_write_done_def Let_def)
  have wr: "int (length (write_queue (uv w))) = live_writes w"
    "fst ` set (write_queue (uv w)) \<subseteq> ClientHandle ` dom (client_mem w)"
    using core by (simp_all add: server_core_def writes_ok_def)
  have "length (remove1 r (write_queue (uv w))) + 1 = length (write_queue (uv w))"
    using length_pos_if_in_set [OF r] r by (simp add: length_remove1)
  then have len: "int (length (remove1 r (write_queue (uv w)))) = live_writes w - 1"
    using wr(1) by linarith
  have "fst ` set (remove1 r (write_queue (uv w))) \<subseteq> ClientHandle ` dom (client_mem w)"
    by (rule subset_trans [OF image_mono [OF set_remove1_subset] wr(2)])
  then have "server_core ((set_uv ?L w)\<lparr>live_writes := live_writes w - 1\<rparr>)"
    using core_queue [OF core, of "remove1 r (write_queue (uv w))" "active_reqs (uv w) - 1"]
    by (simp only: len)
  then have "server_core (emit (Stderr ''Write error'') ((set_uv ?L w)\<lparr>live_writes := live_writes w - 1\<rparr>))"
    "server_core ((set_uv ?L w)\<lparr>live_writes := live_writes w - 1\<rparr>)"
    by (simp_all only: core_ignores)
  then have "server_core ?w'" by (simp add: emit_def)
  then show ?thesis
    using run inv by (auto simp: server_inv_def rx_ok_def)
qed

end
