(* ===== verification/Server_Accept.thy ===== *)
theory Server_Accept
  imports Server_Events
begin

text \<open>
  New connections, and stopping the server. A connection that is accepted without a failure is a
  registered client with a running idle timer, reading, and known to the script; stopping
  invalidates every client before the script is told.
\<close>

section \<open>Accepting\<close>

text \<open>No call fails that the environment decides.\<close>

definition accepts :: "accept_env \<Rightarrow> nat \<Rightarrow> 'l server \<Rightarrow> bool" where
  "accepts env a w \<longleftrightarrow>
     0 \<le> conn_status env \<and> new_addr env = Some a \<and> client_mem w a = None \<and> open_rc env = 0 \<and>
     (realloc_ok env \<or> client_count w < client_capacity w) \<and> read_start_rc env = 0"

text \<open>The handles of a client once it is connected.\<close>

definition connected_stream :: "nat \<Rightarrow> (server_cb, udata) uv_handle" where
  "connected_stream a = zero_handle\<lparr>htype := UV_TCP, f_ref := True, f_readable := True,
     f_writable := True, fd_open := True, hdata := Some (ClientPtr a), f_reading := True,
     f_active := True\<rparr>"

definition idle_timer_at :: "u64 \<Rightarrow> u64 \<Rightarrow> nat \<Rightarrow> (server_cb, udata) uv_handle" where
  "idle_timer_at now n a = zero_handle\<lparr>htype := UV_TIMER, f_ref := True, node_linked := True,
     hdata := Some (ClientPtr a), f_active := True, timer_cb := Some On_idle_timeout,
     timeout := clamped_timeout now 60000, repeat := 60000, start_id := n\<rparr>"

text \<open>The loop before and after the steps on the two new handles.\<close>

definition with_zeroed :: "nat \<Rightarrow> server_loop \<Rightarrow> server_loop" where
  "with_zeroed a L = L\<lparr>handles := (handles L)(ClientHandle a \<mapsto> zero_handle, IdleTimer a \<mapsto> zero_handle)\<rparr>"

definition with_stream :: "nat \<Rightarrow> server_loop \<Rightarrow> server_loop" where
  "with_stream a L = L\<lparr>handles := (handles L)(ClientHandle a \<mapsto> zero_handle\<lparr>htype := UV_TCP, f_ref := True,
       f_readable := True, f_writable := True, fd_open := True\<rparr>, IdleTimer a \<mapsto> zero_handle),
     handle_queue := handle_queue L @ [ClientHandle a]\<rparr>"

lemma accept_stream:
  "uv_tcp_init (with_zeroed a L) (ClientHandle a) = Ret (r, L1) \<Longrightarrow>
     r = 0 \<and> uv_accept L1 (ClientHandle a) 0 = Ret (0, with_stream a L)"
  by (auto simp: uv_tcp_init_def uv__stream_init_def uv__handle_init_def with_zeroed_def
      with_stream_def uv_accept_def uv__stream_open_def set_handle_def zero_handle_def fun_upd_twist)

lemma tcp_init_zeroed: "\<exists>L1. uv_tcp_init (with_zeroed a L) (ClientHandle a) = Ret (0, L1)"
  by (simp add: uv_tcp_init_def uv__stream_init_def uv__handle_init_def with_zeroed_def set_handle_def)

text \<open>The loop when the timer is about to start.\<close>

definition with_timer :: "nat \<Rightarrow> server_loop \<Rightarrow> server_loop" where
  "with_timer a L = L\<lparr>handles := (handles L)
       (ClientHandle a \<mapsto> zero_handle\<lparr>htype := UV_TCP, f_ref := True, f_readable := True,
          f_writable := True, fd_open := True, hdata := Some (ClientPtr a)\<rparr>,
        IdleTimer a \<mapsto> zero_handle\<lparr>htype := UV_TIMER, f_ref := True, node_linked := True,
          hdata := Some (ClientPtr a)\<rparr>),
     handle_queue := handle_queue L @ [ClientHandle a, IdleTimer a]\<rparr>"

lemma init_timer:
  assumes "set_data (ClientHandle a) (ClientPtr a) (with_stream a L) = Ret L1"
    and "uv_timer_init L1 (IdleTimer a) = Ret (r, L2)"
  shows "r = 0 \<and> set_data (IdleTimer a) (ClientPtr a) L2 = Ret (with_timer a L)"
  using assms
  by (auto simp: set_data_def with_stream_def set_handle_def uv_timer_init_def uv__handle_init_def
      with_timer_def zero_handle_def fun_upd_twist)

lemma init_timer_total:
  "\<exists>L1 L2. set_data (ClientHandle a) (ClientPtr a) (with_stream a L) = Ret L1 \<and>
     uv_timer_init L1 (IdleTimer a) = Ret (0, L2)"
  by (simp add: set_data_def with_stream_def set_handle_def uv_timer_init_def uv__handle_init_def)

lemma with_timer_ok:
  assumes ok: "timers_ok L" and new: "handles L (ClientHandle a) = None" "handles L (IdleTimer a) = None"
  shows "timers_ok (with_timer a L)"
  by (rule timers_ok_frame [OF ok])
    (use new in \<open>auto simp: with_timer_def timer_key_def zero_handle_def\<close>)

text \<open>Starting the timer and the reading.\<close>

lemma start_handles:
  assumes ok: "timers_ok L" and new: "handles L (ClientHandle a) = None" "handles L (IdleTimer a) = None"
  obtains L6 L7 where
    "uv_timer_start (with_timer a L) (IdleTimer a) (Some On_idle_timeout) 60000 60000 = Ret (0, L6)"
    and "uv_read_start L6 (ClientHandle a) 0 = Ret (0, L7)" and "timers_ok L7"
    and "handles L7 = (handles L)(ClientHandle a \<mapsto> connected_stream a,
           IdleTimer a \<mapsto> idle_timer_at (loop_time L) (timer_counter L) a)"
    and "closing_handles L7 = closing_handles L" and "detached L7 = detached L"
    and "write_queue L7 = write_queue L" and "loop_time L7 = loop_time L"
    and "ready_queue L7 = remove1 (IdleTimer a) (ready_queue L)"
proof -
  let ?t = "zero_handle\<lparr>htype := UV_TIMER, f_ref := True, node_linked := True,
      hdata := Some (ClientPtr a)\<rparr>"
  have ok5: "timers_ok (with_timer a L)" by (rule with_timer_ok [OF ok new])
  have x5: "handles (with_timer a L) (IdleTimer a) = Some ?t" by (simp add: with_timer_def)
  have t5: "is_timer (with_timer a L) (IdleTimer a)" by (simp add: is_timer_def x5)
  have nc: "\<not> uv__is_closing ?t" by (simp add: uv__is_closing_def zero_handle_def)
  have heap: "IdleTimer a \<notin> set (timer_heap (with_timer a L))"
    using timers_ok_mem_iff [OF ok5] x5 by (simp add: zero_handle_def)
  obtain L6 where L6: "uv_timer_start (with_timer a L) (IdleTimer a) (Some On_idle_timeout) 60000 60000 = Ret (0, L6)"
      "timers_ok L6"
      "handles L6 = (handles (with_timer a L))(IdleTimer a \<mapsto> ?t\<lparr>f_active := True, node_linked := True,
         timer_cb := Some On_idle_timeout, timeout := clamped_timeout (loop_time (with_timer a L)) 60000,
         repeat := 60000, start_id := timer_counter (with_timer a L)\<rparr>)"
      "loop_time L6 = loop_time (with_timer a L)"
      "closing_handles L6 = closing_handles (with_timer a L)" "detached L6 = detached (with_timer a L)"
      "write_queue L6 = write_queue (with_timer a L)"
      "ready_queue L6 = remove1 (IdleTimer a) (ready_queue (with_timer a L))"
    by (rule uv_timer_start_ok [OF ok5 t5 x5 nc, of On_idle_timeout 60000 60000]) (use heap in simp)
  let ?x = "zero_handle\<lparr>htype := UV_TCP, f_ref := True, f_readable := True, f_writable := True,
      fd_open := True, hdata := Some (ClientPtr a)\<rparr>"
  have x6: "handles L6 (ClientHandle a) = Some ?x" by (simp add: L6(3) with_timer_def)
  define L7 where "L7 = L6\<lparr>handles := (handles L6)(ClientHandle a \<mapsto> connected_stream a),
      active_handles := active_handles L6 + 1\<rparr>"
  have read: "uv_read_start L6 (ClientHandle a) 0 = Ret (0, L7)"
    using x6 by (simp add: uv_read_start_def uv__handle_start_def set_handle_def zero_handle_def
        connected_stream_def L7_def)
  have "timers_ok L7"
    by (rule timers_ok_frame [OF L6(2)])
      (use x6 in \<open>auto simp: L7_def connected_stream_def zero_handle_def timer_key_def\<close>)
  then show thesis
    by (rule that [OF L6(1) read])
      (simp_all add: L7_def L6 with_timer_def idle_timer_at_def zero_handle_def fun_upd_twist)
qed

text \<open>
  What \<open>add_client\<close> does to an unregistered client: it takes the next slot, nothing else changes.
\<close>

lemma add_client_shape:
  assumes "add_client a w = Ret w'" and "client_mem w a = Some c"
  shows "\<exists>cs. w' = (set_client w a (c\<lparr>array_index := client_count w\<rparr>))
           \<lparr>clients := cs, client_count := client_count w + 1\<rparr>"
  using assms by (auto simp: add_client_def write_slot_def set_client_def split: if_splits)

text \<open>The client record of a new connection, and the server with it.\<close>

definition new_client :: "'l server \<Rightarrow> client_t" where
  "new_client w = (fresh_client (loop_time (uv w)))\<lparr>array_index := client_count w\<rparr>"

lemma new_client_ok: "client_fields_ok (new_client w)" "rx_inv (new_client w)"
    "is_valid (new_client w)" "pending (new_client w) = []"
  by (simp_all add: new_client_def client_fields_ok_def fresh_client_def zero_client_def rx_inv_def
      wire_consts pending_def)

definition connected :: "nat \<Rightarrow> 'l server \<Rightarrow> 'l server \<Rightarrow> bool" where
  "connected a w w' \<longleftrightarrow>
     client_mem w' = (client_mem w)(a \<mapsto> new_client w) \<and>
     handles (uv w') = (handles (uv w))(ClientHandle a \<mapsto> connected_stream a,
        IdleTimer a \<mapsto> idle_timer_at (loop_time (uv w)) (timer_counter (uv w)) a) \<and>
     timers_ok (uv w') \<and> registry_ok w' \<and> registered w' = insert a (registered w) \<and>
     chain (uv w') = chain (uv w) \<and> detached (uv w') = detached (uv w) \<and>
     write_queue (uv w') = write_queue (uv w) \<and> loop_time (uv w') = loop_time (uv w) \<and>
     ready_queue (uv w') = ready_queue (uv w) \<and> live_writes w' = live_writes w \<and>
     read_bufs w' = read_bufs w \<and> script w' = script w \<and> lua w' = lua w \<and>
     mallocs w' = mallocs w \<and> host_le w' = host_le w \<and> trace w' = trace w"

lemma connected_core:
  assumes core: "server_core w" and new: "client_mem w a = None" and con: "connected a w w'"
  shows "server_core w'"
proof -
  note c = con [unfolded connected_def]
  have fresh: "ClientHandle a \<notin> set (chain (uv w))" "IdleTimer a \<notin> set (chain (uv w))"
      "IdleTimer a \<notin> set (ready_queue (uv w))"
    using core new by (auto simp: core_defs)
  have "clients_ok w'"
    unfolding clients_ok_def
  proof (intro allI impI)
    fix b d assume d: "client_mem w' b = Some d"
    show "client_fields_ok d \<and>
        tcp_ok (handles (uv w') (ClientHandle b)) (ClientHandle b \<in> set (chain (uv w'))) b \<and>
        idle_ok (handles (uv w') (IdleTimer b)) b"
    proof (cases "b = a")
      case True
      then show ?thesis
        using d c fresh new_client_ok(1) [of w]
        by (simp add: tcp_ok_def idle_ok_def connected_stream_def idle_timer_at_def zero_handle_def)
    next
      case False
      then show ?thesis using d c core by (simp add: server_core_def clients_ok_def)
    qed
  qed
  moreover have "no_stale_handles w'" using c core by (simp add: server_core_def no_stale_handles_def)
  moreover have "closing_ok w'" using c core by (auto simp: server_core_def closing_ok_def)
  moreover have "writes_ok w'" using c core by (auto simp: server_core_def writes_ok_def)
  moreover have "ready_ok w'" using c core fresh by (auto simp: server_core_def ready_ok_def)
  moreover have "registered w' = dom (client_mem w')" using c core by (simp add: server_core_def)
  ultimately show ?thesis using c by (simp add: server_core_def)
qed

text \<open>The steps up to the call into Lua.\<close>

lemma accept_reaches_script:
  assumes core: "server_core w" and env: "accepts env a w"
  obtains w1 where "connected a w w1"
    and "on_new_connection env w = call_lua (CallConnect a)
           (map_option (\<lambda>f. f a) (on_client_connect (script w1) (lua w1))) w1"
proof -
  have e: "\<not> conn_status env < 0" "new_addr env = Some a" "open_rc env = 0" "read_start_rc env = 0"
      "client_mem w a = None"
    using env by (simp_all add: accepts_def)
  have new: "handles (uv w) (ClientHandle a) = None" "handles (uv w) (IdleTimer a) = None"
    using core e(5) by (simp_all add: server_core_def no_stale_handles_def domIff)
  have nr: "a \<notin> registered w" and rq: "IdleTimer a \<notin> set (ready_queue (uv w))"
    using core e(5) by (auto simp: core_defs)
  let ?c = "fresh_client (loop_time (uv w))"
  define v where "v = alloc_client a ?c w"
  have v: "uv v = with_zeroed a (uv w)" "client_mem v = (client_mem w)(a \<mapsto> ?c)"
      "clients v = clients w" "client_count v = client_count w" "client_capacity v = client_capacity w"
    by (simp_all add: v_def alloc_client_def with_zeroed_def)
  obtain L1 where L1: "uv_tcp_init (uv v) (ClientHandle a) = Ret (0, L1)"
      "uv_accept L1 (ClientHandle a) 0 = Ret (0, with_stream a (uv w))"
    using tcp_init_zeroed accept_stream unfolding v by blast
  define v2 where "v2 = set_uv (with_stream a (uv w)) v"
  have keep: "\<exists>c'. client_mem v2 b = Some c' \<and> array_index c' = array_index d"
    if "b \<in> registered w" "client_mem w b = Some d" for b d
    using that nr v by (cases "b = a") (simp_all add: v2_def)
  have reg2: "registry_ok v2" "registered v2 = registered w"
    by (rule registry_ok_frame [OF core_registry [OF core] _ _ _ keep]; simp add: v2_def v)+
  obtain w3 where g: "grow_clients (realloc_ok env) v2 = (True, w3)"
    using grow_clients_succeeds [of "realloc_ok env" v2] env v by (auto simp: accepts_def v2_def)
  obtain cs k where w3: "w3 = v2\<lparr>clients := cs, client_capacity := k\<rparr>"
    using grow_clients_ok(5) [OF reg2(1) g] by blast
  have room: "has_room a w3"
    using grow_clients_ok [OF reg2(1) g] reg2(2) nr v by (simp add: has_room_def w3 v2_def)
  obtain w4 where w4: "add_client a w3 = Ret w4" "registry_ok w4" "registered w4 = insert a (registered w3)"
    using add_client_ok [OF grow_clients_ok(1) [OF reg2(1) g] room] by blast
  have c3: "client_mem w3 a = Some ?c" by (simp add: w3 v2_def v)
  obtain cs' where w4': "w4 = (set_client w3 a (?c\<lparr>array_index := client_count w3\<rparr>))
      \<lparr>clients := cs', client_count := client_count w3 + 1\<rparr>"
    using add_client_shape [OF w4(1) c3] by blast
  have u4: "uv w4 = with_stream a (uv w)" by (simp add: w4' w3 v2_def)
  obtain L3 L4 where L4: "set_data (ClientHandle a) (ClientPtr a) (with_stream a (uv w)) = Ret L3"
      "uv_timer_init L3 (IdleTimer a) = Ret (0, L4)"
      "set_data (IdleTimer a) (ClientPtr a) L4 = Ret (with_timer a (uv w))"
    using init_timer_total init_timer by blast
  obtain L6 L7 where L7:
      "uv_timer_start (with_timer a (uv w)) (IdleTimer a) (Some On_idle_timeout) 60000 60000 = Ret (0, L6)"
      "uv_read_start L6 (ClientHandle a) 0 = Ret (0, L7)" "timers_ok L7"
      "handles L7 = (handles (uv w))(ClientHandle a \<mapsto> connected_stream a,
           IdleTimer a \<mapsto> idle_timer_at (loop_time (uv w)) (timer_counter (uv w)) a)"
      "closing_handles L7 = closing_handles (uv w)" "detached L7 = detached (uv w)"
      "write_queue L7 = write_queue (uv w)" "loop_time L7 = loop_time (uv w)"
      "ready_queue L7 = remove1 (IdleTimer a) (ready_queue (uv w))"
    by (rule start_handles [OF core_timers [OF core] new])
  define w5 where "w5 = set_uv L7 w4"
  have run: "on_new_connection env w = call_lua (CallConnect a)
      (map_option (\<lambda>f. f a) (on_client_connect (script w5) (lua w5))) w5"
    using e L1 g w4(1) u4 L4 L7(1,2)
    by (simp add: on_new_connection_def uv_now_def v_def [symmetric] on_loop_rc_def on_loop_def
        set_uv_def v2_def start_client_def w5_def)
  have "connected a w w5"
    using w4(2,3) L7 rq reg2 grow_clients_ok(2,4) [OF reg2(1) g]
    by (simp add: connected_def w5_def w4' w3 v2_def v chain_def new_client_def remove1_idem
        registry_ok_def registered_def v_def alloc_client_def set_uv_def set_client_def)
  then show thesis by (rule that [OF _ run])
qed

definition accept_done :: "nat \<Rightarrow> 'l server \<Rightarrow> 'l server \<Rightarrow> bool" where
  "accept_done a w w' \<longleftrightarrow>
     server_inv w' \<and> registered w' = insert a (registered w) \<and> script w' = script w \<and>
     (\<exists>c. client_mem w' a = Some c \<and> pending c = [] \<and> only_invalidated (new_client w) c) \<and>
     (on_client_connect (script w) (lua w) \<noteq> None \<longrightarrow>
        (\<exists>es. trace w' = trace w @ CallConnect a # es \<and> list_all quiet es))"

lemma accept_ok:
  assumes inv: "server_inv w" and env: "accepts env a w"
    and safe: "script_safe (script w) (insert a (dom (client_mem w)))"
  shows "\<exists>w'. handle_event (Accept env) w = Ret w' \<and> accept_done a w w'"
proof -
  have core: "server_core w" and rest: "rx_ok {} w" "read_bufs w = []" "ready_queue (uv w) = []"
      "detached (uv w) = []"
    using inv by (simp_all add: server_inv_def)
  obtain w1 where con: "connected a w w1"
    and run: "on_new_connection env w = call_lua (CallConnect a)
           (map_option (\<lambda>f. f a) (on_client_connect (script w1) (lua w1))) w1"
    by (rule accept_reaches_script [OF core env])
  note c = con [unfolded connected_def]
  have new: "client_mem w a = None" using env by (simp add: accepts_def)
  have core1: "server_core w1" by (rule connected_core [OF core new con])
  have dom1: "dom (client_mem w1) = insert a (dom (client_mem w))" using c by simp
  let ?act = "map_option (\<lambda>f. f a) (on_client_connect (script w1) (lua w1))"
  have "uses (dom (client_mem w1)) p" if "?act = Some p" for p
    using that safe c unfolding dom1 script_safe_def by auto
  then obtain w' where w': "call_lua (CallConnect a) ?act w1 = Ret w'"
      "after_call (CallConnect a) ?act w1 w'"
    using call_lua_ok [OF core1, of ?act] by blast
  let ?w2 = "if ?act = None then w1 else emit (CallConnect a) w1"
  have fr: "server_core w'" "lua_frame ?w2 w'" using w'(2) unfolding after_call_def by blast+
  have "rx_ok {} w1" using rest(1) c new_client_ok(2) [of w] by (auto simp: rx_ok_def)
  then have "rx_ok {} ?w2" by simp
  then have "rx_ok {} w'" by (rule lua_frame_rx_ok [OF fr(2)])
  moreover have "read_bufs w' = []" "ready_queue (uv w') = []" "detached (uv w') = []"
    using fr(2) c rest by (auto simp: lua_frame_def split: if_splits)
  ultimately have inv': "server_inv w'" using fr(1) by (simp add: server_inv_def)
  have "client_mem ?w2 a = Some (new_client w)" using c by simp
  then obtain d where d: "client_mem w' a = Some d" "only_invalidated (new_client w) d"
    by (rule lua_frame_client [OF fr(2)])
  have "registered w' = dom (client_mem w')" using fr(1) by (simp add: server_core_def)
  also have "\<dots> = insert a (dom (client_mem w))"
    using lua_frame_dom [OF fr(2)] dom1 by (simp split: if_splits)
  finally have "registered w' = insert a (registered w)" using core by (simp add: server_core_def)
  moreover have "pending d = []"
    using d(2) new_client_ok(4) [of w] by (simp add: pending_def only_invalidated_fields [OF d(2)])
  moreover have "\<exists>es. trace w' = trace w @ CallConnect a # es \<and> list_all quiet es"
    if "on_client_connect (script w) (lua w) \<noteq> None"
    using fr(2) c that by (auto simp: lua_frame_def)
  moreover have "script w' = script w" using fr(2) c by (simp add: lua_frame_def split: if_splits)
  ultimately have "accept_done a w w'" using inv' d by (simp add: accept_done_def)
  then show ?thesis using run w'(1) by (simp add: handle_event_def)
qed

section \<open>Stopping\<close>

text \<open>No valid client is closing: only the idle timer leaves a client in that state.\<close>

definition stoppable :: "'l server \<Rightarrow> bool" where
  "stoppable w \<longleftrightarrow>
     (\<forall>a c. client_mem w a = Some c \<longrightarrow> is_valid c \<longrightarrow> ClientHandle a \<notin> set (chain (uv w)))"

text \<open>What stopping one client after the other keeps.\<close>

definition stop_frame :: "'l server \<Rightarrow> 'l server \<Rightarrow> bool" where
  "stop_frame w w' \<longleftrightarrow>
     server_core w' \<and> (stoppable w \<longrightarrow> stoppable w') \<and> same_world w w' \<and> clients w' = clients w \<and>
     client_count w' = client_count w \<and> read_bufs w' = read_bufs w \<and> trace w' = trace w \<and>
     lua w' = lua w \<and> write_queue (uv w') = write_queue (uv w) \<and>
     (rx_ok {} w \<longrightarrow> rx_ok {} w') \<and>
     (uv_is_closing (uv w) ServerHandle = Ret True \<longrightarrow> uv_is_closing (uv w') ServerHandle = Ret True) \<and>
     (\<forall>a c. client_mem w a = Some c \<longrightarrow> \<not> is_valid c \<longrightarrow> client_mem w' a = Some c)"

lemma stop_frame_trans: "stop_frame w w' \<Longrightarrow> stop_frame w' w'' \<Longrightarrow> stop_frame w w''"
  unfolding stop_frame_def by (auto intro: same_world_trans)

lemma free_buf_None: "free_buf None = Ret"
  by (rule ext) (simp add: free_buf_def)

lemma stop_one:
  assumes core: "server_core w" and c: "client_mem w a = Some c"
    and st: "is_valid c \<longrightarrow> ClientHandle a \<notin> set (chain (uv w))"
  shows "\<exists>w'. (if is_valid c
        then then_do (invalidate_client a w) (\<lambda>w.
             then_do (on_loop (\<lambda>L. uv_timer_stop L (IdleTimer a)) w) (close_client_handle a))
        else Ret w) = Ret w' \<and> stop_frame w w' \<and>
      (\<exists>c'. client_mem w' a = Some c' \<and> \<not> is_valid c') \<and>
      (\<forall>b. b \<noteq> a \<longrightarrow> client_mem w' b = client_mem w b) \<and>
      set (chain (uv w)) \<subseteq> set (chain (uv w'))"
proof (cases "is_valid c")
  case False
  then show ?thesis using core c by (simp add: stop_frame_def)
next
  case True
  have nc: "ClientHandle a \<notin> set (chain (uv w))" using st True by simp
  have buf: "buf_alive None w" by (simp add: buf_alive_def)
  obtain w' where w': "drop_connection (ClientHandle a) a None w = Ret w'" "server_core w'"
      "client_mem w' = (client_mem w)(a \<mapsto> c\<lparr>is_valid := False, magic := 0\<rparr>)"
      "chain (uv w') = ClientHandle a # chain (uv w)" "read_bufs w' = without_buf None (read_bufs w)"
      "trace w' = trace w" "same_world w w'" "clients w' = clients w"
      "client_count w' = client_count w" "lua w' = lua w" "write_queue (uv w') = write_queue (uv w)"
      "handles (uv w') ServerHandle = handles (uv w) ServerHandle"
    by (rule drop_connection_ok [OF core c buf nc])
  have run: "then_do (invalidate_client a w) (\<lambda>w.
      then_do (on_loop (\<lambda>L. uv_timer_stop L (IdleTimer a)) w) (close_client_handle a)) = Ret w'"
    using w'(1) by (simp add: drop_connection_def close_client_handle_def [abs_def] free_buf_None)
  have "stoppable w \<longrightarrow> stoppable w'" using w'(3,4) by (auto simp: stoppable_def)
  moreover have "rx_ok {} w \<longrightarrow> rx_ok {} w'" using w'(3) by (auto simp: rx_ok_def CLIENT_MAGIC_def)
  ultimately show ?thesis
    using True run w' c by (auto simp: stop_frame_def without_buf_def uv_is_closing_def)
qed

lemma stop_clients_ok:
  "server_core w \<Longrightarrow> stoppable w \<Longrightarrow> \<forall>i \<in> set is. 0 \<le> i \<and> i < client_count w \<Longrightarrow>
     \<exists>w'. stop_clients is w = Ret w' \<and> stop_frame w w' \<and>
       (\<forall>i \<in> set is. \<forall>a c. clients w ! nat i = Some a \<longrightarrow> client_mem w' a = Some c \<longrightarrow> \<not> is_valid c)"
proof (induction "is" arbitrary: w)
  case Nil
  then show ?case by (simp add: stop_frame_def)
next
  case (Cons i "is")
  note core = Cons.prems(1)
  have i: "nat i < nat (client_count w)" "0 \<le> i" using Cons.prems(3) by auto
  have ok: "registry_ok w" by (rule core_registry [OF core])
  obtain a c where a: "clients w ! nat i = Some a" "client_mem w a = Some c"
    using ok i unfolding registry_ok_def by blast
  have "nat i < length (clients w)" using ok i by (auto simp: registry_ok_def)
  then have slot: "read_slot i w = Ret a" using a(1) i(2) by (simp add: read_slot_def)
  obtain w1 c1 where w1: "(if is_valid c
        then then_do (invalidate_client a w) (\<lambda>w.
             then_do (on_loop (\<lambda>L. uv_timer_stop L (IdleTimer a)) w) (close_client_handle a))
        else Ret w) = Ret w1" "stop_frame w w1" "client_mem w1 a = Some c1" "\<not> is_valid c1"
    using stop_one [OF core a(2)] Cons.prems(2) a(2) unfolding stoppable_def by metis
  have fr: "server_core w1" "stoppable w1" "clients w1 = clients w" "client_count w1 = client_count w"
    using w1(2) Cons.prems(2) by (simp_all add: stop_frame_def)
  obtain w' where w': "stop_clients is w1 = Ret w'" "stop_frame w1 w'"
      "\<forall>i \<in> set is. \<forall>a c. clients w1 ! nat i = Some a \<longrightarrow> client_mem w' a = Some c \<longrightarrow> \<not> is_valid c"
    using Cons.IH [OF fr(1,2)] Cons.prems(3) fr(4) by auto
  have "client_mem w' a = Some c1" using w'(2) w1(3,4) unfolding stop_frame_def by blast
  then have "\<forall>i \<in> set (i # is). \<forall>a c. clients w ! nat i = Some a \<longrightarrow> client_mem w' a = Some c \<longrightarrow> \<not> is_valid c"
    using w'(3) fr(3) a(1) w1(4) by auto
  moreover have "stop_clients (i # is) w = Ret w'"
    using slot client_valid_iff [OF core a(2)] w1(1) w'(1) by simp
  ultimately show ?case using stop_frame_trans [OF w1(2) w'(2)] by blast
qed

text \<open>Closing the listening socket.\<close>

lemma core_close_listener:
  assumes core: "server_core w" and nc: "uv_is_closing (uv w) ServerHandle = Ret False"
  obtains L where "uv_close (uv w) ServerHandle (Some On_server_close) = Ret L"
    and "server_core (set_uv L w)" and "chain L = ServerHandle # chain (uv w)"
    and "detached L = detached (uv w)" and "loop_time L = loop_time (uv w)"
    and "write_queue L = write_queue (uv w)" and "ready_queue L = ready_queue (uv w)"
    and "uv_is_closing L ServerHandle = Ret True"
proof -
  obtain x where x: "handles (uv w) ServerHandle = Some x" "htype x = UV_TCP"
      "f_closing x \<and> \<not> f_closed x \<longleftrightarrow> ServerHandle \<in> set (chain (uv w))"
    using core by (auto simp: server_core_def closing_ok_def)
  have nx: "\<not> f_closing x" "\<not> f_closed x"
    using nc x(1) by (auto simp: uv_is_closing_def uv__is_closing_def)
  obtain L x' where L: "uv_close (uv w) ServerHandle (Some On_server_close) = Ret L" "timers_ok L"
      "handles L = (handles (uv w))(ServerHandle \<mapsto> x')"
      "x' = x\<lparr>f_closing := True, close_cb := Some On_server_close, f_active := False,
         f_reading := False, f_readable := False, f_writable := False, fd_open := False\<rparr>"
      "closing_handles L = ServerHandle # closing_handles (uv w)" "detached L = detached (uv w)"
      "loop_time L = loop_time (uv w)" "write_queue L = write_queue (uv w)"
      "ready_queue L = ready_queue (uv w)"
    by (rule uv_close_stream [OF core_timers [OF core] x(1) disjI1 [OF x(2)],
          of "Some On_server_close"]) (use nx in \<open>simp_all add: uv__is_closing_def\<close>)
  have ch: "chain L = ServerHandle # chain (uv w)" using L(5,6) by (simp add: chain_def)
  have "server_core (set_uv L w)"
  proof (rule core_set_uv [OF core L(2)])
    show "tcp_ok (handles L (ClientHandle b)) (ClientHandle b \<in> set (chain L)) b \<and>
        idle_ok (handles L (IdleTimer b)) b" if "client_mem w b = Some d" for b d
      using core that by (simp add: server_core_def clients_ok_def L(3) ch)
    show "closing_ok (set_uv L w)"
      using core x nx by (auto simp: server_core_def closing_ok_def L(3,4) ch)
    show "ready_ok (set_uv L w)"
      using core by (auto simp: server_core_def ready_ok_def L(3,9))
  qed (use core x in \<open>auto simp: core_defs L(3,8)\<close>)
  moreover have "uv_is_closing L ServerHandle = Ret True"
    by (simp add: uv_is_closing_def uv__is_closing_def L(3,4))
  ultimately show thesis using that [OF L(1)] L ch by simp
qed

lemma stop_frame_listener:
  assumes "server_core w"
  shows "\<exists>w1. then_do (uv_is_closing (uv w) ServerHandle) (\<lambda>closing.
      if \<not> closing then on_loop (\<lambda>L. uv_close L ServerHandle (Some On_server_close)) w else Ret w) = Ret w1 \<and>
    stop_frame w w1 \<and> uv_is_closing (uv w1) ServerHandle = Ret True \<and>
    client_mem w1 = client_mem w \<and> set (chain (uv w)) \<subseteq> set (chain (uv w1))"
proof -
  obtain x where x: "handles (uv w) ServerHandle = Some x"
    using assms by (auto simp: server_core_def closing_ok_def)
  show ?thesis
  proof (cases "uv__is_closing x")
    case True
    then show ?thesis using x assms by (simp add: uv_is_closing_def stop_frame_def)
  next
    case False
    then have nc: "uv_is_closing (uv w) ServerHandle = Ret False" using x by (simp add: uv_is_closing_def)
    obtain L where L: "uv_close (uv w) ServerHandle (Some On_server_close) = Ret L"
        "server_core (set_uv L w)" "chain L = ServerHandle # chain (uv w)"
        "detached L = detached (uv w)" "loop_time L = loop_time (uv w)"
        "write_queue L = write_queue (uv w)" "ready_queue L = ready_queue (uv w)"
        "uv_is_closing L ServerHandle = Ret True"
      by (rule core_close_listener [OF assms nc])
    have "stop_frame w (set_uv L w)"
      using L by (auto simp: stop_frame_def stoppable_def same_world_def)
    then show ?thesis using nc L(1,3,8) by (auto simp: on_loop_def)
  qed
qed

text \<open>With no valid client left, a script can send nothing: every attempt is refused.\<close>

definition no_valid_client :: "'l server \<Rightarrow> bool" where
  "no_valid_client w \<longleftrightarrow> (\<forall>a c. client_mem w a = Some c \<longrightarrow> \<not> is_valid c)"

lemma send_refused:
  assumes core: "server_core w" and nv: "no_valid_client w" and p: "set_option p \<subseteq> dom (client_mem w)"
  shows "send_buffer w p bs = Ret (LuaFalse (Msg ''Invalid client''), w)"
    and "lua_close_client w p = Ret (LuaFalse (Msg ''Invalid client''), w)"
proof -
  have "is_client_valid w p = Ret False"
  proof (cases p)
    case (Some a)
    then obtain c where "client_mem w a = Some c" using p by auto
    then show ?thesis using client_valid_iff [OF core] nv Some by (simp add: no_valid_client_def)
  qed (simp add: is_client_valid_def)
  then show "send_buffer w p bs = Ret (LuaFalse (Msg ''Invalid client''), w)"
    "lua_close_client w p = Ret (LuaFalse (Msg ''Invalid client''), w)"
    by (simp_all add: send_buffer_def lua_close_client_def split: option.split)
qed

lemma run_lua_refused:
  "server_core w \<Longrightarrow> no_valid_client w \<Longrightarrow> uses (dom (client_mem w)) act \<Longrightarrow>
     \<exists>ok w'. run_lua act w = Ret (ok, w') \<and> uv w' = uv w \<and> client_mem w' = client_mem w"
proof (induction act arbitrary: w)
  case (SendData p bs k)
  then show ?case using send_refused(1) [of w p bs] by auto
next
  case (SendBson p bs k)
  then show ?case using send_refused(1) [of w p bs] by auto
next
  case (CloseClient p k)
  then show ?case using send_refused(2) [of w p] by auto
next
  case (IsClosing p k)
  then show ?case using lua_is_closing_ok [of w p] by auto
next
  case (GetClientCount k)
  then show ?case by auto
next
  case (Log l m k)
  have "server_core (emit (LogLine l m) w)" using Log.prems by simp
  moreover have "no_valid_client (emit (LogLine l m) w)" using Log.prems by (simp add: no_valid_client_def)
  ultimately show ?case using Log.IH [of "emit (LogLine l m) w"] Log.prems by auto
qed auto

definition stopped_all :: "'l server \<Rightarrow> 'l server \<Rightarrow> bool" where
  "stopped_all w w' \<longleftrightarrow>
     server_inv w' \<and> no_valid_client w' \<and> dom (client_mem w') = dom (client_mem w) \<and>
     write_queue (uv w') = write_queue (uv w) \<and> script w' = script w \<and>
     uv_is_closing (uv w') ServerHandle = Ret True"

lemma stop_clients_all:
  assumes "server_core w" and "stoppable w"
  shows "\<exists>w'. stop_clients [0..client_count w - 1] w = Ret w' \<and> stop_frame w w' \<and> no_valid_client w'"
proof -
  obtain w' where w': "stop_clients [0..client_count w - 1] w = Ret w'" "stop_frame w w'"
      "\<forall>i \<in> set [0..client_count w - 1]. \<forall>a c. clients w ! nat i = Some a \<longrightarrow>
         client_mem w' a = Some c \<longrightarrow> \<not> is_valid c"
    using stop_clients_ok [OF assms, of "[0..client_count w - 1]"] by auto
  have "\<not> is_valid c" if c: "client_mem w' a = Some c" for a c
  proof -
    have "a \<in> dom (client_mem w)" using c w'(2) by (auto simp: stop_frame_def same_world_def)
    then have "a \<in> registered w" using assms(1) by (simp add: server_core_def)
    then obtain i where "i < nat (client_count w)" "clients w ! i = Some a"
      using registered_iff [OF core_registry [OF assms(1)]] by blast
    then show ?thesis using w'(3) c by (auto dest!: bspec [of _ _ "int i"])
  qed
  then show ?thesis using w' by (auto simp: no_valid_client_def)
qed

lemma server_stop_ok:
  assumes inv: "server_inv w" and st: "stoppable w"
    and safe: "script_safe (script w) (dom (client_mem w))"
  shows "\<exists>w'. server_stop w = Ret w' \<and> stopped_all w w'"
proof -
  have core: "server_core w" using inv by (simp add: server_inv_def)
  obtain w1 where w1: "then_do (uv_is_closing (uv w) ServerHandle) (\<lambda>closing.
      if \<not> closing then on_loop (\<lambda>L. uv_close L ServerHandle (Some On_server_close)) w else Ret w) = Ret w1"
      "stop_frame w w1" "uv_is_closing (uv w1) ServerHandle = Ret True"
    using stop_frame_listener [OF core] by blast
  have 1: "server_core w1" "stoppable w1" using w1(2) st by (simp_all add: stop_frame_def)
  obtain w2 where w2: "stop_clients [0..client_count w1 - 1] w1 = Ret w2" "stop_frame w1 w2"
      "no_valid_client w2"
    using stop_clients_all [OF 1] by blast
  have sf: "stop_frame w w2" by (rule stop_frame_trans [OF w1(2) w2(2)])
  then have f: "server_core w2" "same_world w w2" "read_bufs w2 = read_bufs w" "rx_ok {} w \<longrightarrow> rx_ok {} w2"
      "write_queue (uv w2) = write_queue (uv w)" "lua w2 = lua w"
    unfolding stop_frame_def by blast+
  let ?act = "on_server_stop (script w2) (lua w2)"
  have use: "uses (dom (client_mem w2)) p" if "?act = Some p" for p
    using that safe f(2) unfolding script_safe_def same_world_def by simp
  obtain w' where w': "call_lua CallStop ?act w2 = Ret w'" "uv w' = uv w2" "client_mem w' = client_mem w2"
      "after_call CallStop ?act w2 w'"
  proof -
    obtain w' where c: "call_lua CallStop ?act w2 = Ret w'" "after_call CallStop ?act w2 w'"
      using call_lua_ok [OF f(1) use] by blast
    have "uv w' = uv w2 \<and> client_mem w' = client_mem w2"
    proof (cases ?act)
      case None
      then show ?thesis using c(1) by (simp add: call_lua_def)
    next
      case (Some p)
      have "no_valid_client (emit CallStop w2)" using w2(3) by (simp add: no_valid_client_def)
      then obtain ok w3 where "run_lua p (emit CallStop w2) = Ret (ok, w3)" "uv w3 = uv w2"
          "client_mem w3 = client_mem w2"
        using run_lua_refused [of "emit CallStop w2" p] f(1) use [OF Some] by auto
      then show ?thesis using c(1) Some by (auto simp: call_lua_def)
    qed
    then show thesis using that c by blast
  qed
  have fr: "server_core w'" "lua_frame (if ?act = None then w2 else emit CallStop w2) w'"
    using w'(4) unfolding after_call_def by blast+
  have "rx_ok {} (if ?act = None then w2 else emit CallStop w2)"
    using f(4) inv by (simp add: server_inv_def)
  then have "rx_ok {} w'" by (rule lua_frame_rx_ok [OF fr(2)])
  moreover have "read_bufs w' = []"
    using fr(2) f(3) inv by (simp add: lua_frame_def server_inv_def split: if_splits)
  moreover have "ready_queue (uv w') = []" "detached (uv w') = []"
    using f(2) inv w'(2) by (simp_all add: same_world_def server_inv_def)
  ultimately have inv': "server_inv w'" using fr(1) by (simp add: server_inv_def)
  have "uv_is_closing (uv w') ServerHandle = Ret True"
    using w1(3) w2(2) w'(2) by (simp add: stop_frame_def)
  moreover have "script w' = script w"
    using fr(2) f(2) by (simp add: lua_frame_def same_world_def split: if_splits)
  ultimately have "stopped_all w w'"
    using inv' w2(3) w'(2,3) f(2,5)
    by (simp add: stopped_all_def no_valid_client_def same_world_def)
  moreover have "server_stop w = Ret w'"
    unfolding server_stop_def
    using w1(1) w2(1) w'(1) by (simp add: then_do_assoc [symmetric] cong: if_cong)
  ultimately show ?thesis by blast
qed

text \<open>A client that timed out is closing but still valid; stopping closes it a second time.\<close>

lemma stop_twice_closed:
  assumes core: "server_core w" and c: "client_mem w a = Some c" and v: "is_valid c"
    and cl: "ClientHandle a \<in> set (chain (uv w))"
  shows "then_do (invalidate_client a w) (\<lambda>w.
      then_do (on_loop (\<lambda>L. uv_timer_stop L (IdleTimer a)) w) (close_client_handle a)) =
    Fault AssertionFailure"
  using drop_connection_again [OF core c cl, of None]
  by (simp add: drop_connection_def close_client_handle_def [abs_def] free_buf_None)

lemma stop_clients_fault:
  "server_core w \<Longrightarrow> \<forall>i \<in> set is. 0 \<le> i \<and> i < client_count w \<Longrightarrow>
     i \<in> set is \<Longrightarrow> clients w ! nat i = Some a \<Longrightarrow> client_mem w a = Some c \<Longrightarrow> is_valid c \<Longrightarrow>
     ClientHandle a \<in> set (chain (uv w)) \<Longrightarrow> stop_clients is w = Fault AssertionFailure"
proof (induction "is" arbitrary: w)
  case Nil
  then show ?case by simp
next
  case (Cons j "is")
  note core = Cons.prems(1)
  have j: "nat j < nat (client_count w)" "0 \<le> j" using Cons.prems(2) by auto
  have ok: "registry_ok w" by (rule core_registry [OF core])
  obtain b d where b: "clients w ! nat j = Some b" "client_mem w b = Some d"
    using ok j unfolding registry_ok_def by blast
  have "nat j < length (clients w)" using ok j by (auto simp: registry_ok_def)
  then have slot: "read_slot j w = Ret b" using b(1) j(2) by (simp add: read_slot_def)
  note valid = client_valid_iff [OF core b(2)]
  show ?case
  proof (cases "is_valid d \<and> ClientHandle b \<in> set (chain (uv w))")
    case True
    then show ?thesis using slot valid stop_twice_closed [OF core b(2)] by simp
  next
    case False
    then obtain w1 d1 where w1: "(if is_valid d
        then then_do (invalidate_client b w) (\<lambda>w.
             then_do (on_loop (\<lambda>L. uv_timer_stop L (IdleTimer b)) w) (close_client_handle b))
        else Ret w) = Ret w1" "stop_frame w w1"
        "\<forall>e. e \<noteq> b \<longrightarrow> client_mem w1 e = client_mem w e" "set (chain (uv w)) \<subseteq> set (chain (uv w1))"
      using stop_one [OF core b(2)] by blast
    have ab: "a \<noteq> b" using False Cons.prems(5,6,7) b(2) by auto
    then have "j \<noteq> i" using b(1) Cons.prems(4) by auto
    then have "stop_clients is w1 = Fault AssertionFailure"
      using Cons.prems w1(2-4) ab by (intro Cons.IH) (auto simp: stop_frame_def)
    then show ?thesis using slot valid w1(1) by simp
  qed
qed

lemma server_stop_fault:
  assumes inv: "server_inv w" and st: "\<not> stoppable w"
  shows "server_stop w = Fault AssertionFailure"
proof -
  have core: "server_core w" using inv by (simp add: server_inv_def)
  obtain a c where a: "client_mem w a = Some c" "is_valid c" "ClientHandle a \<in> set (chain (uv w))"
    using st by (auto simp: stoppable_def)
  obtain w1 where w1: "then_do (uv_is_closing (uv w) ServerHandle) (\<lambda>closing.
      if \<not> closing then on_loop (\<lambda>L. uv_close L ServerHandle (Some On_server_close)) w else Ret w) = Ret w1"
      "stop_frame w w1" "client_mem w1 = client_mem w" "set (chain (uv w)) \<subseteq> set (chain (uv w1))"
    using stop_frame_listener [OF core] by blast
  have core1: "server_core w1" using w1(2) by (simp add: stop_frame_def)
  have "a \<in> registered w1" using core1 a(1) w1(3) by (auto simp: server_core_def)
  then obtain i where i: "i < nat (client_count w1)" "clients w1 ! i = Some a"
    using registered_iff [OF core_registry [OF core1]] by blast
  have "stop_clients [0..client_count w1 - 1] w1 = Fault AssertionFailure"
    by (rule stop_clients_fault [OF core1, of _ "int i" a c]) (use i a w1(3,4) in auto)
  then show ?thesis
    unfolding server_stop_def using w1(1) by (simp add: then_do_assoc [symmetric] cong: if_cong)
qed
end
