(* ===== verification/Server_Close.thy ===== *)
theory Server_Close
  imports Server_Accept
begin

text \<open>
  The end of a connection. \<open>on_client_close\<close> closes the idle timer of the client and frees the client,
  which contains the timer, at once; the timer stays on the closing chain of the loop. The lemmas
  follow this dangling entry: nothing the handlers do takes it off the chain before the next pass.
\<close>

section \<open>What no handler undoes\<close>

text \<open>
  \<open>shrinks\<close>: freed handles stay freed, and the chain only grows. \<open>keeps_timers\<close>: no timer is
  closed.
\<close>

definition shrinks :: "server_loop \<Rightarrow> server_loop \<Rightarrow> bool" where
  "shrinks L L' \<longleftrightarrow>
     (\<forall>h. handles L h = None \<longrightarrow> handles L' h = None) \<and>
     set (closing_handles L) \<subseteq> set (closing_handles L')"

definition keeps_timers :: "server_loop \<Rightarrow> server_loop \<Rightarrow> bool" where
  "keeps_timers L L' \<longleftrightarrow>
     (\<forall>b. map_option uv__is_closing (handles L' (IdleTimer b)) =
          map_option uv__is_closing (handles L (IdleTimer b)))"

definition settled :: "server_loop \<Rightarrow> server_loop \<Rightarrow> bool" where
  "settled L L' \<longleftrightarrow> shrinks L L' \<and> keeps_timers L L'"

lemma settled_refl [simp]: "settled L L"
  by (simp add: settled_def shrinks_def keeps_timers_def)

lemma settled_trans: "settled L L' \<Longrightarrow> settled L' L'' \<Longrightarrow> settled L L''"
  by (auto simp: settled_def shrinks_def keeps_timers_def)

lemma shrinks_refl [simp]: "shrinks L L"
  by (simp add: shrinks_def)

lemma shrinks_trans: "shrinks L L' \<Longrightarrow> shrinks L' L'' \<Longrightarrow> shrinks L L''"
  by (auto simp: shrinks_def)

lemma settled_shrinks: "settled L L' \<Longrightarrow> shrinks L L'"
  by (simp add: settled_def)

lemma settled_set_handle:
  "handles L h = Some x \<Longrightarrow> uv__is_closing y = uv__is_closing x \<Longrightarrow> settled L (set_handle L h y)"
  by (simp add: settled_def shrinks_def keeps_timers_def set_handle_def)

lemma settled_updates [simp]:
  "settled L (L'\<lparr>timer_heap := q\<rparr>) = settled L L'"
  "settled L (L'\<lparr>ready_queue := q\<rparr>) = settled L L'"
  "settled L (L'\<lparr>active_handles := n\<rparr>) = settled L L'"
  "settled L (L'\<lparr>active_reqs := n\<rparr>) = settled L L'"
  "settled L (L'\<lparr>write_queue := ws\<rparr>) = settled L L'"
  "settled L (L'\<lparr>detached := q\<rparr>) = settled L L'"
  "settled L (L'\<lparr>handle_queue := q\<rparr>) = settled L L'"
  by (simp_all add: settled_def shrinks_def keeps_timers_def)

lemma shrinks_updates [simp]:
  "shrinks L (L'\<lparr>detached := q\<rparr>) = shrinks L L'" "shrinks L (L'\<lparr>handle_queue := q\<rparr>) = shrinks L L'"
  "shrinks L (L'\<lparr>write_queue := ws\<rparr>) = shrinks L L'" "shrinks L (L'\<lparr>active_reqs := n\<rparr>) = shrinks L L'"
  by (simp_all add: shrinks_def)

subsection \<open>Loop operations\<close>

lemma settled_inactive: "handles L h = Some x \<Longrightarrow> settled L (set_handle L h (x\<lparr>f_active := b\<rparr>))"
  by (rule settled_set_handle) (simp_all add: uv__is_closing_def)

lemma handle_stop_settled: "uv__handle_stop L h = Ret L' \<Longrightarrow> settled L L'"
  unfolding uv__handle_stop_def by (auto elim!: res_elims split: if_splits simp: settled_inactive)

lemma timer_stop_settled:
  assumes "uv_timer_stop L h = Ret L'"
  shows "settled L L'"
proof -
  obtain x L1 y where x: "handles L h = Some x"
    "(if f_active x
      then then_do (heap_remove (timer_less_than (handles L)) (timer_heap L) h)
             (\<lambda>q. uv__handle_stop (L\<lparr>timer_heap := q\<rparr>) h)
      else if node_linked x then Ret (L\<lparr>ready_queue := remove1 h (ready_queue L)\<rparr>)
      else Fault NullDeref) = Ret L1"
    and y: "handles L1 h = Some y" "L' = set_handle L1 h (y\<lparr>node_linked := True\<rparr>)"
    using assms unfolding uv_timer_stop_def by (auto elim!: res_elims)
  have "settled L L1"
  proof (cases "f_active x")
    case True
    then obtain q where "uv__handle_stop (L\<lparr>timer_heap := q\<rparr>) h = Ret L1" using x(2) by (auto elim!: res_elims)
    from handle_stop_settled [OF this] show ?thesis by (simp add: settled_def shrinks_def keeps_timers_def)
  next
    case False
    then show ?thesis using x(2) by (auto split: if_splits)
  qed
  moreover have "settled L1 L'"
    unfolding y(2) by (rule settled_set_handle [OF y(1)]) (simp add: uv__is_closing_def)
  ultimately show ?thesis by (rule settled_trans)
qed

lemma stream_close_settled: "uv__stream_close L h = Ret L' \<Longrightarrow> settled L L'"
proof -
  assume "uv__stream_close L h = Ret L'"
  then obtain L1 L2 x where s: "uv_read_stop L h = Ret L1" "uv__handle_stop L1 h = Ret L2"
      "handles L2 h = Some x"
      "L' = set_handle L2 h (x\<lparr>f_readable := False, f_writable := False, fd_open := False\<rparr>)"
    unfolding uv__stream_close_def by (auto elim!: res_elims)
  have "settled L L1"
  proof -
    obtain y where y: "handles L h = Some y"
        "(if \<not> f_reading y then Ret L
          else uv__handle_stop (set_handle L h (y\<lparr>f_reading := False\<rparr>)) h) = Ret L1"
      using s(1) unfolding uv_read_stop_def by (auto elim!: res_elims)
    have "settled L (set_handle L h (y\<lparr>f_reading := False\<rparr>))"
      by (rule settled_set_handle [OF y(1)]) (simp add: uv__is_closing_def)
    then show ?thesis
      using y(2) handle_stop_settled [of "set_handle L h (y\<lparr>f_reading := False\<rparr>)" h L1]
      by (auto split: if_splits intro: settled_trans)
  qed
  moreover have "settled L1 L2" by (rule handle_stop_settled [OF s(2)])
  moreover have "settled L2 L'"
    unfolding s(4) by (rule settled_set_handle [OF s(3)]) (simp add: uv__is_closing_def)
  ultimately show ?thesis by (blast intro: settled_trans)
qed

lemma close_shrinks:
  assumes "uv_close L h cb = Ret L'"
  shows "shrinks L L' \<and> h \<in> set (closing_handles L') \<and>
    ((\<forall>b. h \<noteq> IdleTimer b) \<longrightarrow> keeps_timers L L')"
proof -
  obtain x where x: "handles L h = Some x" using assms unfolding uv_close_def by (auto elim!: res_elims)
  let ?L1 = "set_handle L h (x\<lparr>f_closing := True, close_cb := cb\<rparr>)"
  obtain L2 where L2: "settled ?L1 L2" "uv__make_close_pending L2 h = Ret L'"
  proof -
    obtain L2 where L2: "(case htype x of
        UV_TCP \<Rightarrow> uv__stream_close ?L1 h | UV_TTY \<Rightarrow> uv__stream_close ?L1 h
      | UV_TIMER \<Rightarrow> uv_timer_stop ?L1 h | UV_UNKNOWN_HANDLE \<Rightarrow> Fault AssertionFailure) = Ret L2"
      "uv__make_close_pending L2 h = Ret L'"
      using assms x unfolding uv_close_def Let_def by (auto elim!: res_elims)
    have "settled ?L1 L2"
      using L2(1) stream_close_settled [of ?L1 h L2] timer_stop_settled [of ?L1 h L2]
      by (cases "htype x") simp_all
    then show thesis using that L2(2) by blast
  qed
  have 1: "shrinks L ?L1" "(\<forall>b. h \<noteq> IdleTimer b) \<longrightarrow> keeps_timers L ?L1"
    using x by (auto simp: shrinks_def keeps_timers_def set_handle_def)
  have 2: "L' = L2\<lparr>closing_handles := h # closing_handles L2\<rparr>"
    using L2(2) unfolding uv__make_close_pending_def by (auto elim!: res_elims)
  have "shrinks L L2" "(\<forall>b. h \<noteq> IdleTimer b) \<longrightarrow> keeps_timers L L2"
    using 1 L2(1) by (auto simp: settled_def keeps_timers_def intro: shrinks_trans)
  then show ?thesis unfolding 2 by (auto simp: shrinks_def keeps_timers_def)
qed

lemma write_settled: "uv_write L h bs = Ret (r, L') \<Longrightarrow> settled L L'"
  unfolding uv_write_def by (auto elim!: res_elims split: if_splits)

subsection \<open>Lua\<close>

lemma next_malloc_uv: "next_malloc w = (b, w') \<Longrightarrow> uv w' = uv w"
  by (auto simp: next_malloc_def split: list.splits)

lemma send_settled: "send_buffer w p bs = Ret (r, w') \<Longrightarrow> settled (uv w) (uv w')"
  unfolding send_buffer_def on_loop_rc_def Let_def
  by (auto elim!: res_elims split: option.splits if_splits prod.splits
      dest!: next_malloc_uv write_settled)

lemma lua_close_settled: "lua_close_client w p = Ret (r, w') \<Longrightarrow> settled (uv w) (uv w')"
proof -
  assume a: "lua_close_client w p = Ret (r, w')"
  show ?thesis
  proof (cases "uv w' = uv w")
    case False
    then obtain a L1 L2 where L: "uv_timer_stop (uv w) (IdleTimer a) = Ret L1"
        "uv_close L1 (ClientHandle a) (Some On_client_close) = Ret L2" "uv w' = L2"
      using a unfolding lua_close_client_def on_loop_def
      by (auto elim!: res_elims split: option.splits if_splits)
    have "settled L1 L2" using close_shrinks [OF L(2)] by (simp add: settled_def)
    then show ?thesis using timer_stop_settled [OF L(1)] L(3) by (auto intro: settled_trans)
  qed simp
qed

lemma run_lua_settled: "run_lua p w = Ret (ok, w') \<Longrightarrow> settled (uv w) (uv w')"
proof (induction p arbitrary: w)
  case (SendData p bs k)
  then show ?case by (auto elim!: res_elims dest!: send_settled intro: settled_trans SendData.IH [OF rangeI])
next
  case (SendBson p bs k)
  then show ?case by (auto elim!: res_elims dest!: send_settled intro: settled_trans SendBson.IH [OF rangeI])
next
  case (CloseClient p k)
  then show ?case by (auto elim!: res_elims dest!: lua_close_settled intro: settled_trans CloseClient.IH [OF rangeI])
next
  case (IsClosing p k)
  then show ?case by (auto elim!: res_elims intro: IsClosing.IH [OF rangeI])
next
  case (GetClientCount k)
  then show ?case using GetClientCount.IH [OF rangeI] by simp
next
  case (Log level msg k)
  then show ?case by fastforce
qed auto

lemma call_lua_settled: "call_lua e act w = Ret w' \<Longrightarrow> settled (uv w) (uv w')"
  unfolding call_lua_def by (auto elim!: res_elims split: option.splits if_splits dest!: run_lua_settled)

section \<open>The callbacks\<close>

lemma remove_client_uv: "remove_client a w = Ret w' \<Longrightarrow> uv w' = uv w"
  unfolding remove_client_def Let_def write_slot_def
  by (auto elim!: res_elims split: if_splits simp: set_client_def)

lemma invalidate_uv: "invalidate_client a w = Ret w' \<Longrightarrow> uv w' = uv w"
  unfolding invalidate_client_def by (auto elim!: res_elims simp: set_client_def)

lemma on_loop_Ret: "on_loop f w = Ret w' \<Longrightarrow> \<exists>L. f (uv w) = Ret L \<and> w' = set_uv L w"
  unfolding on_loop_def by (auto elim!: res_elims)

text \<open>
  A stale handle: on the chain, its memory freed. \<open>on_client_close\<close> leaves one behind: the idle
  timer of the client it frees.
\<close>

definition stale :: "hid \<Rightarrow> server_loop \<Rightarrow> bool" where
  "stale h L \<longleftrightarrow> h \<in> set (closing_handles L) \<and> handles L h = None"

lemma stale_shrinks: "stale h L \<Longrightarrow> shrinks L L' \<Longrightarrow> stale h L'"
  by (auto simp: stale_def shrinks_def)

lemma free_client_shrinks: "free_client a w = Ret w' \<Longrightarrow> shrinks (uv w) (uv w')"
  by (auto simp: free_client_def shrinks_def split: if_splits)

lemma on_client_close_leaves:
  assumes run: "on_client_close h w = Ret w'"
    and x: "handles (uv w) h = Some x" "hdata x = Some (ClientPtr a)"
    and t: "handles (uv w) (IdleTimer a) = Some t" "\<not> uv__is_closing t"
  shows "stale (IdleTimer a) (uv w')"
proof -
  obtain c w1 w2 w3 w4 where s:
    "(if magic c = CLIENT_MAGIC then server_of c (call_lua (CallDisconnect a)
        (map_option (\<lambda>f. f a) (on_client_disconnect (script w) (lua w))) w) else Ret w) = Ret w1"
    "remove_client a w1 = Ret w2" "invalidate_client a w2 = Ret w3"
    "then_do (uv_is_closing (uv w3) (IdleTimer a)) (\<lambda>closing.
       if \<not> closing then close_idle_timer a w3 else Ret w3) = Ret w4"
    "free_client a w4 = Ret w'"
    using run x unfolding on_client_close_def
    by (auto elim!: res_elims simp: data_client_def then_do_eq_Ret_iff simp del: then_do.simps)
  have "settled (uv w) (uv w1)"
    using s(1) call_lua_settled [of _ _ w w1] by (auto simp: server_of_def split: if_splits)
  then obtain t' where t': "handles (uv w3) (IdleTimer a) = Some t'" "\<not> uv__is_closing t'"
    using t remove_client_uv [OF s(2)] invalidate_uv [OF s(3)]
    by (auto simp: settled_def keeps_timers_def dest!: spec [of _ a])
  then have "close_idle_timer a w3 = Ret w4" using s(4) by (simp add: uv_is_closing_def)
  then obtain L where L: "uv_close (uv w3) (IdleTimer a) None = Ret L" "w4 = set_uv L w3"
    unfolding close_idle_timer_def by (blast dest: on_loop_Ret)
  then have "IdleTimer a \<in> set (closing_handles (uv w4))" using close_shrinks [OF L(1)] by simp
  then show ?thesis using s(5) by (auto simp: free_client_def stale_def split: if_splits)
qed

lemma on_client_close_shrinks: "on_client_close h w = Ret w' \<Longrightarrow> shrinks (uv w) (uv w')"
proof -
  assume run: "on_client_close h w = Ret w'"
  show ?thesis
  proof (cases "w' = w")
    case False
    obtain a c w1 w2 w3 w4 where s:
      "(if magic c = CLIENT_MAGIC then server_of c (call_lua (CallDisconnect a)
          (map_option (\<lambda>f. f a) (on_client_disconnect (script w) (lua w))) w) else Ret w) = Ret w1"
      "remove_client a w1 = Ret w2" "invalidate_client a w2 = Ret w3"
      "then_do (uv_is_closing (uv w3) (IdleTimer a)) (\<lambda>closing.
         if \<not> closing then close_idle_timer a w3 else Ret w3) = Ret w4"
      "free_client a w4 = Ret w'"
      using run False unfolding on_client_close_def
      by (auto elim!: res_elims simp: then_do_eq_Ret_iff simp del: then_do.simps split: option.splits)
    have 1: "shrinks (uv w) (uv w1)"
      using s(1) settled_shrinks [OF call_lua_settled, of _ _ w w1]
      by (auto simp: server_of_def split: if_splits)
    have 2: "uv w3 = uv w1" using remove_client_uv [OF s(2)] invalidate_uv [OF s(3)] by simp
    have "shrinks (uv w3) (uv w4)"
      using s(4) unfolding close_idle_timer_def
      by (auto elim!: res_elims split: if_splits dest!: on_loop_Ret close_shrinks)
    then show ?thesis using 1 2 free_client_shrinks [OF s(5)] by (auto intro: shrinks_trans)
  qed simp
qed

lemma run_callback_shrinks: "run_callback cb h w = Ret w' \<Longrightarrow> shrinks (uv w) (uv w')"
proof (cases cb)
  case On_idle_timeout
  assume "run_callback cb h w = Ret w'"
  then have run: "on_idle_timeout h w = Ret w'" by (simp add: run_callback_def On_idle_timeout)
  show ?thesis
  proof (cases "uv w' = uv w")
    case False
    let ?w0 = "emit (Stderr ''Client timeout, closing connection'') w"
    from False obtain a w1 where s: "on_loop (\<lambda>L. uv_timer_stop L (IdleTimer a)) ?w0 = Ret w1"
        "w' = w1 \<or> on_loop (\<lambda>L. uv_close L (ClientHandle a) (Some On_client_close)) w1 = Ret w'"
      using run unfolding on_idle_timeout_def
      by (auto elim!: res_elims split: option.splits if_splits simp: server_of_def; blast)
    have "shrinks (uv w) (uv w1)"
      using on_loop_Ret [OF s(1)] by (auto dest!: timer_stop_settled settled_shrinks)
    moreover have "shrinks (uv w1) (uv w')"
      using s(2) by (auto dest!: on_loop_Ret close_shrinks)
    ultimately show ?thesis by (rule shrinks_trans)
  qed simp
qed (auto simp: run_callback_def on_server_close_def dest: on_client_close_shrinks)

section \<open>A pass over the chain\<close>

abbreviation server_finish_close :: "hid \<Rightarrow> 'l server \<Rightarrow> 'l server res" where
  "server_finish_close \<equiv> uv__finish_close uv set_uv run_callback on_write_done"

abbreviation server_finish_closing :: "hid list \<Rightarrow> 'l server \<Rightarrow> 'l server res" where
  "server_finish_closing \<equiv> finish_closing uv set_uv run_callback on_write_done"

text \<open>Completing writes changes neither handles nor the chain nor clients.\<close>

definition same_memory :: "'l server \<Rightarrow> 'l server \<Rightarrow> bool" where
  "same_memory w w' \<longleftrightarrow>
     handles (uv w') = handles (uv w) \<and> closing_handles (uv w') = closing_handles (uv w) \<and>
     client_mem w' = client_mem w"

lemma write_callbacks_memory:
  "write_callbacks uv set_uv on_write_done reqs w = Ret w' \<Longrightarrow> same_memory w w'"
proof (induction reqs arbitrary: w)
  case (Cons r reqs)
  then show ?case
    by (cases r) (auto simp: on_write_done_def same_memory_def Let_def elim!: res_elims split: if_splits)
qed (simp add: same_memory_def)

lemma stream_destroy_memory:
  "uv__stream_destroy uv set_uv on_write_done h w = Ret w' \<Longrightarrow> same_memory w w'"
  unfolding uv__stream_destroy_def Let_def
  by (drule write_callbacks_memory) (simp add: same_memory_def)

text \<open>Up to its close callback a pass changes only the handle it finishes.\<close>

definition before_callback :: "hid \<Rightarrow> 'l server \<Rightarrow> 'l server \<Rightarrow> bool" where
  "before_callback h w w' \<longleftrightarrow>
     (\<forall>k. k \<noteq> h \<longrightarrow> handles (uv w') k = handles (uv w) k) \<and>
     closing_handles (uv w') = closing_handles (uv w) \<and> client_mem w' = client_mem w"

lemma finish_close_split:
  assumes "server_finish_close h w = Ret w'"
  obtains x y w1 where "handles (uv w) h = Some x" and "handles (uv w1) h = Some y"
    and "hdata y = hdata x" and "before_callback h w w1"
    and "(case close_cb x of None \<Rightarrow> Ret w1 | Some cb \<Rightarrow> run_callback cb h w1) = Ret w'"
proof -
  obtain x where x: "handles (uv w) h = Some x"
    using assms unfolding uv__finish_close_def by (auto elim!: res_elims)
  let ?w0 = "set_uv (set_handle (uv w) h (x\<lparr>f_closed := True\<rparr>)) w"
  obtain w1 L where s:
    "(case htype x of UV_TIMER \<Rightarrow> Ret ?w0
      | UV_TCP \<Rightarrow> uv__stream_destroy uv set_uv on_write_done h ?w0
      | UV_TTY \<Rightarrow> uv__stream_destroy uv set_uv on_write_done h ?w0
      | UV_UNKNOWN_HANDLE \<Rightarrow> Fault AssertionFailure) = Ret w1"
    "uv__handle_unref (uv w1) h = Ret L"
    "deref (handles L h) (\<lambda>x. case close_cb x of
        None \<Rightarrow> Ret (set_uv (L\<lparr>handle_queue := remove1 h (handle_queue L)\<rparr>) w1)
      | Some cb \<Rightarrow> run_callback cb h (set_uv (L\<lparr>handle_queue := remove1 h (handle_queue L)\<rparr>) w1)) = Ret w'"
    using assms x unfolding uv__finish_close_def Let_def by (auto elim!: res_elims)
  have m: "same_memory ?w0 w1"
    using s(1) stream_destroy_memory [of h ?w0 w1]
    by (cases "htype x") (simp_all add: same_memory_def)
  then have h1: "handles (uv w1) h = Some (x\<lparr>f_closed := True\<rparr>)"
    by (simp add: same_memory_def set_handle_def)
  let ?y = "x\<lparr>f_closed := True, f_ref := False\<rparr>"
  have L: "handles L = (handles (uv w1))(h \<mapsto> ?y)" "closing_handles L = closing_handles (uv w1)"
  proof -
    have "x\<lparr>f_closed := True\<rparr> = ?y" if "\<not> f_ref x" using that by simp
    then have "handles (uv w1) = (handles (uv w1))(h \<mapsto> ?y)" if "\<not> f_ref x"
      using h1 that by (simp add: fun_upd_idem)
    then show "handles L = (handles (uv w1))(h \<mapsto> ?y)" "closing_handles L = closing_handles (uv w1)"
      using s(2) h1 unfolding uv__handle_unref_def by (auto simp: set_handle_def Let_def split: if_splits)
  qed
  let ?w2 = "set_uv (L\<lparr>handle_queue := remove1 h (handle_queue L)\<rparr>) w1"
  have "before_callback h w ?w2"
    using m L by (simp add: before_callback_def same_memory_def set_handle_def)
  moreover have "handles (uv ?w2) h = Some ?y" using L by simp
  moreover have "(case close_cb x of None \<Rightarrow> Ret ?w2 | Some cb \<Rightarrow> run_callback cb h ?w2) = Ret w'"
    using s(3) L by simp
  ultimately show thesis using that [OF x, of ?w2 ?y] by simp
qed

lemma finish_close_shrinks: "server_finish_close h w = Ret w' \<Longrightarrow> shrinks (uv w) (uv w')"
proof -
  assume "server_finish_close h w = Ret w'"
  then obtain x w1 where s: "handles (uv w) h = Some x" "before_callback h w w1"
      "(case close_cb x of None \<Rightarrow> Ret w1 | Some cb \<Rightarrow> run_callback cb h w1) = Ret w'"
    by (rule finish_close_split)
  have "handles (uv w1) k = None" if "handles (uv w) k = None" for k
    using that s(1,2) by (cases "k = h") (simp_all add: before_callback_def)
  then have "shrinks (uv w) (uv w1)" using s(2) by (simp add: before_callback_def shrinks_def)
  moreover have "shrinks (uv w1) (uv w')"
    using s(3) run_callback_shrinks [of _ h w1 w'] by (auto split: option.splits)
  ultimately show ?thesis by (rule shrinks_trans)
qed

lemma finish_closing_shrinks: "server_finish_closing q w = Ret w' \<Longrightarrow> shrinks (uv w) (uv w')"
proof (induction q arbitrary: w)
  case (Cons p q)
  then obtain w1 where s: "server_finish_close p (set_uv ((uv w)\<lparr>detached := q\<rparr>) w) = Ret w1"
      "server_finish_closing q w1 = Ret w'"
    by (auto elim!: res_elims)
  have "shrinks (uv w) (uv w1)" using finish_close_shrinks [OF s(1)] by (auto simp: shrinks_def)
  then show ?case using Cons.IH [OF s(2)] by (rule shrinks_trans)
qed simp

lemma stale_fails: "h \<in> set q \<Longrightarrow> handles (uv w) h = None \<Longrightarrow> server_finish_closing q w \<noteq> Ret w'"
proof (induction q arbitrary: w)
  case (Cons p q)
  show ?case
  proof
    assume "server_finish_closing (p # q) w = Ret w'"
    then obtain w1 where s: "server_finish_close p (set_uv ((uv w)\<lparr>detached := q\<rparr>) w) = Ret w1"
        "server_finish_closing q w1 = Ret w'"
      by (auto elim!: res_elims)
    have "p \<noteq> h" using s(1) Cons.prems(2) by (auto simp: uv__finish_close_def)
    moreover have "handles (uv w1) h = None"
      using finish_close_shrinks [OF s(1)] Cons.prems(2) by (auto simp: shrinks_def)
    ultimately show False using Cons.IH [of w1] Cons.prems(1) s(2) by auto
  qed
qed simp

section \<open>A closed client stays on the chain\<close>

text \<open>What a closing client looks like until its close callback runs.\<close>

definition closing_client :: "nat \<Rightarrow> 'l server \<Rightarrow> bool" where
  "closing_client a w \<longleftrightarrow>
     (\<exists>x. handles (uv w) (ClientHandle a) = Some x \<and> hdata x = Some (ClientPtr a) \<and>
        close_cb x = Some On_client_close) \<and>
     (\<exists>t. handles (uv w) (IdleTimer a) = Some t \<and> \<not> uv__is_closing t)"

lemma closing_client_detached [simp]:
  "closing_client a (set_uv ((uv w)\<lparr>detached := q\<rparr>) w) = closing_client a w"
  "closing_client a (set_uv ((uv w)\<lparr>closing_handles := cs, detached := q\<rparr>) w) = closing_client a w"
  by (simp_all add: closing_client_def)

lemma core_closing_client:
  assumes "server_core w" and "ClientHandle a \<in> set (chain (uv w))"
  shows "closing_client a w"
proof -
  obtain c where c: "client_mem w a = Some c"
    using assms by (auto simp: core_defs)
  obtain x where x: "handles (uv w) (ClientHandle a) = Some x" "hdata x = Some (ClientPtr a)"
      "close_cb x = Some On_client_close"
    using core_tcpE [OF assms(1) c] assms(2) by metis
  obtain t where "handles (uv w) (IdleTimer a) = Some t" "\<not> f_closing t" "\<not> f_closed t"
    using core_idleE [OF assms(1) c] by metis
  then show ?thesis using x by (auto simp: closing_client_def uv__is_closing_def)
qed

lemma finish_client_leaves:
  assumes "closing_client a w" and "server_finish_close (ClientHandle a) w = Ret w'"
  shows "stale (IdleTimer a) (uv w')"
proof -
  obtain x y w1 where s: "handles (uv w) (ClientHandle a) = Some x"
      "handles (uv w1) (ClientHandle a) = Some y" "hdata y = hdata x"
      "before_callback (ClientHandle a) w w1"
      "(case close_cb x of None \<Rightarrow> Ret w1 | Some cb \<Rightarrow> run_callback cb (ClientHandle a) w1) = Ret w'"
    using assms(2) by (rule finish_close_split)
  have x: "hdata x = Some (ClientPtr a)" "close_cb x = Some On_client_close"
    using assms(1) s(1) by (auto simp: closing_client_def)
  obtain t where t: "handles (uv w1) (IdleTimer a) = Some t" "\<not> uv__is_closing t"
    using assms(1) s(4) by (auto simp: closing_client_def before_callback_def)
  have "on_client_close (ClientHandle a) w1 = Ret w'" using s(5) x(2) by (simp add: run_callback_def)
  then show ?thesis by (rule on_client_close_leaves) (use s x t in auto)
qed

lemma finish_listener_keeps:
  assumes "closing_client a w" and "server_finish_close ServerHandle w = Ret w'"
    and x: "handles (uv w) ServerHandle = Some x" "close_cb x = Some On_server_close"
  shows "closing_client a w'"
proof -
  obtain w1 where s: "before_callback ServerHandle w w1"
      "(case close_cb x of None \<Rightarrow> Ret w1 | Some cb \<Rightarrow> run_callback cb ServerHandle w1) = Ret w'"
    using assms(2) x(1) by (auto elim!: finish_close_split)
  have "w' = w1" using s(2) x(2) by (simp add: run_callback_def on_server_close_def)
  then show ?thesis using s(1) assms(1) by (simp add: closing_client_def before_callback_def)
qed

text \<open>
  The first client handle on the chain has at most the handle of the server before it, and leaves its
  timer behind.
\<close>

lemma closing_pass_leaves:
  assumes core: "server_core w" and a: "ClientHandle a \<in> set (closing_handles (uv w))"
    and run: "handle_event RunClosing w = Ret w'"
  shows "\<exists>b. stale (IdleTimer b) (uv w')"
proof -
  let ?q = "closing_handles (uv w)"
  let ?w0 = "set_uv ((uv w)\<lparr>closing_handles := [], detached := ?q\<rparr>) w"
  have co: "distinct ?q" "\<forall>h \<in> set ?q. h = ServerHandle \<or> h \<in> range ClientHandle"
    using core by (auto simp: server_core_def closing_ok_def chain_def)
  have run: "server_finish_closing ?q ?w0 = Ret w'"
    using run by (simp add: handle_event_def uv__run_closing_handles_def)
  have cl: "closing_client b w" if "ClientHandle b \<in> set ?q" for b
    using core_closing_client [OF core] that by (simp add: chain_def)
  have first: "\<exists>b. stale (IdleTimer b) (uv w')"
    if v: "closing_client b v" and vr: "server_finish_closing (ClientHandle b # r) v = Ret w'" for b r v
  proof -
    obtain w1 where s: "server_finish_close (ClientHandle b) (set_uv ((uv v)\<lparr>detached := r\<rparr>) v) = Ret w1"
        "server_finish_closing r w1 = Ret w'"
      using vr by (auto elim!: res_elims)
    have "stale (IdleTimer b) (uv w1)" using finish_client_leaves [OF _ s(1)] v by simp
    then show ?thesis using stale_shrinks finish_closing_shrinks [OF s(2)] by blast
  qed
  show ?thesis
  proof (cases ?q)
    case (Cons h r)
    show ?thesis
    proof (cases h)
      case (ClientHandle b)
      then show ?thesis using first [of b ?w0 r] cl [of b] run Cons by simp
    next
      case ServerHandle
      then obtain b r' where r: "r = ClientHandle b # r'" using a co Cons by (cases r) auto
      obtain x where x: "handles (uv w) ServerHandle = Some x" "close_cb x = Some On_server_close"
        using core Cons ServerHandle by (auto simp: server_core_def closing_ok_def chain_def)
      obtain w1 where s: "server_finish_close ServerHandle (set_uv ((uv ?w0)\<lparr>detached := r\<rparr>) ?w0) = Ret w1"
          "server_finish_closing r w1 = Ret w'"
        using run Cons ServerHandle by (auto elim!: res_elims)
      have "closing_client b w1"
        by (rule finish_listener_keeps [OF _ s(1)]) (use x cl [of b] Cons r in \<open>auto simp: closing_client_def\<close>)
      then show ?thesis using first s(2) r by blast
    next
      case (IdleTimer b)
      then show ?thesis using co Cons by auto
    qed
  qed (use a in simp)
qed

lemma stale_pass_fails: "stale h (uv w) \<Longrightarrow> handle_event RunClosing w \<noteq> Ret w'"
  using stale_fails [of h "closing_handles (uv w)"
      "set_uv ((uv w)\<lparr>closing_handles := [], detached := closing_handles (uv w)\<rparr>) w" w']
  by (simp add: handle_event_def uv__run_closing_handles_def stale_def)

section \<open>The other events\<close>

text \<open>Everything but a new connection, which may get the freed memory, and the pass itself.\<close>

lemma update_activity_uv: "update_client_activity a w = Ret w' \<Longrightarrow> uv w' = uv w"
  unfolding update_client_activity_def
  by (auto elim!: res_elims split: if_splits simp: set_client_def)

lemma free_buf_uv: "free_buf b w = Ret w' \<Longrightarrow> uv w' = uv w"
  by (auto simp: free_buf_def split: option.splits if_splits)

lemma process_message_shrinks: "process_message a m w = Ret w' \<Longrightarrow> shrinks (uv w) (uv w')"
  unfolding process_message_def
  by (auto elim!: res_elims split: if_splits simp: server_of_def
      dest!: update_activity_uv settled_shrinks [OF call_lua_settled])

lemma stop_then_close_shrinks:
  assumes "on_loop (\<lambda>L. uv_timer_stop L t) w = Ret w1" and "on_loop (\<lambda>L. uv_close L h cb) w1 = Ret w2"
  shows "shrinks (uv w) (uv w2)"
proof -
  have "shrinks (uv w) (uv w1)"
    using on_loop_Ret [OF assms(1)] by (auto dest!: timer_stop_settled settled_shrinks)
  moreover have "shrinks (uv w1) (uv w2)"
    using on_loop_Ret [OF assms(2)] by (auto dest!: close_shrinks)
  ultimately show ?thesis by (rule shrinks_trans)
qed

lemma drop_connection_shrinks: "drop_connection h a buf w = Ret w' \<Longrightarrow> shrinks (uv w) (uv w')"
  unfolding drop_connection_def
  by (auto elim!: res_elims dest!: invalidate_uv free_buf_uv dest: stop_then_close_shrinks)

lemma reset_client_uv: "reset_client a w = Ret w' \<Longrightarrow> uv w' = uv w"
  unfolding reset_client_def by (auto elim!: res_elims simp: set_client_def)

lemma on_read_loop_shrinks: "on_read_loop h a buf data w = Ret w' \<Longrightarrow> shrinks (uv w) (uv w')"
proof (induction h a buf data w rule: on_read_loop.induct)
  case (1 h a buf data w)
  show ?case
  proof (cases "data = []")
    case True
    then show ?thesis using 1(3) by (auto simp: on_read_loop.simps dest: free_buf_uv)
  next
    case False
    note run = 1(3) [unfolded on_read_loop.simps [of h a buf data w] if_not_P [OF False]]
    obtain c c' n ev where c: "client_mem w a = Some c" "rx_iter (host_le w) c data = Ret (c', n, ev)"
      using run by (auto elim!: res_elims split: res.splits)
    show ?thesis
    proof (cases ev)
      case RxContinue
      then show ?thesis using 1(1) [OF False c refl refl RxContinue] run c by (auto simp: set_client_def)
    next
      case (RxBadLength k)
      then show ?thesis using run c by (auto dest!: drop_connection_shrinks simp: set_client_def emit_def)
    next
      case (RxMessage m)
      then obtain w1 w2 where s: "process_message a m (set_client w a c') = Ret w1"
          "reset_client a w1 = Ret w2" "on_read_loop h a buf (drop n data) w2 = Ret w'"
        using run c by (auto elim!: res_elims)
      have "shrinks (uv w2) (uv w')" using 1(2) [OF False c refl refl RxMessage s] .
      then show ?thesis
        using process_message_shrinks [OF s(1)] reset_client_uv [OF s(2)]
        by (auto simp: set_client_def intro: shrinks_trans)
    qed
  qed
qed

lemma on_read_shrinks: "on_read h r buf w = Ret w' \<Longrightarrow> shrinks (uv w) (uv w')"
  unfolding on_read_def
  by (auto elim!: res_elims split: option.splits if_splits read_result.splits
      dest!: free_buf_uv update_activity_uv on_read_loop_shrinks drop_connection_shrinks)

lemma alloc_buffer_uv: "alloc_buffer n w = (b, w') \<Longrightarrow> uv w' = uv w"
  by (auto simp: alloc_buffer_def Let_def split: prod.splits if_splits dest!: next_malloc_uv)

lemma read_flags_shrinks:
  assumes "handles L h = Some x" and "uv__handle_stop (set_handle L h (x\<lparr>f_reading := False\<rparr>)) h = Ret L'"
  shows "shrinks L L'"
proof -
  have "settled L (set_handle L h (x\<lparr>f_reading := False\<rparr>))"
    by (rule settled_set_handle [OF assms(1)]) (simp add: uv__is_closing_def)
  then show ?thesis using handle_stop_settled [OF assms(2)] by (blast intro: settled_trans settled_shrinks)
qed

lemma server_read_shrinks: "server_read a ks w = Ret w' \<Longrightarrow> shrinks (uv w) (uv w')"
proof (induction ks arbitrary: w)
  case (Cons k ks)
  obtain x where x: "handles (uv w) (ClientHandle a) = Some x"
    using Cons.prems by (auto elim!: res_elims)
  obtain base len w1 where al: "alloc_buffer 65536 w = ((base, len), w1)" by (metis surj_pair)
  have w1: "uv w1 = uv w" by (rule alloc_buffer_uv [OF al])
  show ?case
  proof (cases "f_reading x \<and> base \<noteq> None \<and> len \<noteq> 0")
    case False
    then show ?thesis using Cons.prems x al w1 by (auto split: if_splits dest: on_read_shrinks)
  next
    case True
    show ?thesis
    proof (cases k)
      case (KernelData bs)
      then obtain w2 where s: "on_read (ClientHandle a) (ReadData (take len bs)) base w1 = Ret w2"
          "w' = w2 \<or> server_read a ks w2 = Ret w'"
        using Cons.prems x al True by (auto elim!: res_elims split: if_splits)
      then show ?thesis using Cons.IH [of w2] on_read_shrinks [OF s(1)] w1 by (auto intro: shrinks_trans)
    next
      case KernelAgain
      then show ?thesis using Cons.prems x al True w1 by (auto dest: on_read_shrinks)
    next
      case (KernelError e)
      let ?L = "set_handle (uv w1) (ClientHandle a) (x\<lparr>f_readable := False, f_writable := False\<rparr>)"
      obtain w2 y where s: "on_read (ClientHandle a) (ReadError e) base (set_uv ?L w1) = Ret w2"
          "handles (uv w2) (ClientHandle a) = Some y"
          "(if f_reading y
            then then_do (uv__handle_stop (set_handle (uv w2) (ClientHandle a) (y\<lparr>f_reading := False\<rparr>))
                   (ClientHandle a)) (\<lambda>L. Ret (set_uv L w2))
            else Ret w2) = Ret w'"
        using Cons.prems x al True KernelError by (auto elim!: res_elims)
      have "settled (uv w) ?L" unfolding w1
        by (rule settled_set_handle [OF x]) (simp add: uv__is_closing_def)
      then have "shrinks (uv w) (uv w2)"
        using on_read_shrinks [OF s(1)] by (auto intro: shrinks_trans dest: settled_shrinks)
      moreover have "shrinks (uv w2) (uv w')"
        using s(3) read_flags_shrinks [OF s(2)] by (auto elim!: res_elims split: if_splits)
      ultimately show ?thesis by (rule shrinks_trans)
    next
      case KernelEof
      then have "uv__stream_eof uv set_uv on_read (ClientHandle a) base w1 = Ret w'"
        using Cons.prems x al True by simp
      then obtain L where s: "uv__handle_stop (set_handle (uv w) (ClientHandle a) (x\<lparr>f_reading := False\<rparr>))
            (ClientHandle a) = Ret L" "on_read (ClientHandle a) (ReadError UV_EOF) base (set_uv L w1) = Ret w'"
        unfolding uv__stream_eof_def using x w1 by (auto elim!: res_elims)
      show ?thesis
        using read_flags_shrinks [OF x s(1)] on_read_shrinks [OF s(2)] by (auto intro: shrinks_trans)
    qed
  qed
qed simp

subsection \<open>Timers and the rest\<close>

lemma timer_start_settled: "uv_timer_start L h cb t r = Ret (rc, L') \<Longrightarrow> settled L L'"
proof -
  assume a: "uv_timer_start L h cb t r = Ret (rc, L')"
  show ?thesis
  proof (cases "L' = L")
    case False
    obtain L1 x where s: "uv_timer_stop L h = Ret L1" "handles L1 h = Some x"
        "\<exists>L2. settled L1 L2 \<and> uv__handle_start L2 h = Ret L'"
    proof -
      obtain L1 x where s: "uv_timer_stop L h = Ret L1" "handles L1 h = Some x"
        using a False unfolding uv_timer_start_def Let_def by (auto elim!: res_elims split: if_splits)
      let ?x = "x\<lparr>timer_cb := cb, timeout := clamped_timeout (loop_time L1) t, repeat := r,
          start_id := timer_counter L1\<rparr>"
      let ?M = "(set_handle L1 h ?x)\<lparr>timer_counter := timer_counter L1 + 1\<rparr>"
      let ?L2 = "?M\<lparr>timer_heap := heap_insert (timer_less_than (handles ?M)) (timer_heap ?M) h\<rparr>"
      have "settled L1 (set_handle L1 h ?x)"
        by (rule settled_set_handle [OF s(2)]) (simp add: uv__is_closing_def)
      then have "settled L1 ?L2" by (simp add: settled_def shrinks_def keeps_timers_def)
      moreover have "uv__handle_start ?L2 h = Ret L'"
        using a s False unfolding uv_timer_start_def Let_def by (auto elim!: res_elims split: if_splits)
      ultimately show thesis using that s by blast
    qed
    then obtain L2 where L2: "settled L1 L2" "uv__handle_start L2 h = Ret L'" by blast
    have "settled L2 L'"
      using L2(2) unfolding uv__handle_start_def by (auto elim!: res_elims split: if_splits simp: settled_inactive)
    then show ?thesis using timer_stop_settled [OF s(1)] L2(1) by (blast intro: settled_trans)
  qed simp
qed

lemma timer_again_settled: "uv_timer_again L h = Ret (rc, L') \<Longrightarrow> settled L L'"
  unfolding uv_timer_again_def
  by (auto elim!: res_elims split: if_splits dest!: timer_stop_settled timer_start_settled
      intro: settled_trans)

lemma collect_due_settled: "collect_due n L = Ret L' \<Longrightarrow> settled L L'"
proof (induction n arbitrary: L)
  case (Suc n)
  show ?case
  proof (cases "L' = L")
    case False
    then obtain h L1 where s: "uv_timer_stop L h = Ret L1"
        "collect_due n (L1\<lparr>ready_queue := ready_queue L1 @ [h]\<rparr>) = Ret L'"
      using Suc.prems by (auto elim!: res_elims split: option.splits if_splits)
    have "settled L1 L'"
      using Suc.IH [OF s(2)] by (simp add: settled_def shrinks_def keeps_timers_def)
    then show ?thesis using timer_stop_settled [OF s(1)] by (blast intro: settled_trans)
  qed simp
qed simp

lemma run_ready_shrinks: "run_ready uv set_uv run_callback n w = Ret w' \<Longrightarrow> shrinks (uv w) (uv w')"
proof (induction n arbitrary: w)
  case (Suc n)
  show ?case
  proof (cases "ready_queue (uv w)")
    case (Cons h q)
    then obtain rc L cb w1 where s: "uv_timer_again ((uv w)\<lparr>ready_queue := q\<rparr>) h = Ret (rc, L)"
        "run_callback cb h (set_uv L w) = Ret w1" "run_ready uv set_uv run_callback n w1 = Ret w'"
      using Suc.prems by (auto elim!: res_elims split: option.splits)
    have "shrinks (uv w) L"
      using timer_again_settled [OF s(1)] by (simp add: settled_def shrinks_def)
    then show ?thesis
      using run_callback_shrinks [OF s(2)] Suc.IH [OF s(3)] by (auto intro: shrinks_trans)
  qed (use Suc.prems in simp)
qed simp

lemma run_timers_shrinks: "handle_event (RunTimers now) w = Ret w' \<Longrightarrow> shrinks (uv w) (uv w')"
proof -
  let ?L0 = "(uv__update_time now (uv w))\<lparr>ready_queue := []\<rparr>"
  assume "handle_event (RunTimers now) w = Ret w'"
  then obtain L n m where s: "collect_due m ?L0 = Ret L"
      "run_ready uv set_uv run_callback n (set_uv L (set_uv (uv__update_time now (uv w)) w)) = Ret w'"
    by (auto simp: handle_event_def uv__run_timers_def Let_def elim!: res_elims
        simp del: collect_due.simps run_ready.simps)
  have "shrinks (uv w) L"
    using collect_due_settled [OF s(1)] by (simp add: settled_def shrinks_def uv__update_time_def)
  then show ?thesis using run_ready_shrinks [OF s(2)] by (auto intro: shrinks_trans)
qed

lemma stop_clients_shrinks: "stop_clients is w = Ret w' \<Longrightarrow> shrinks (uv w) (uv w')"
proof (induction "is" arbitrary: w)
  case (Cons i "is")
  then obtain a v w1 where s: "(if v then then_do (invalidate_client a w) (\<lambda>w.
          then_do (on_loop (\<lambda>L. uv_timer_stop L (IdleTimer a)) w) (close_client_handle a))
        else Ret w) = Ret w1" "stop_clients is w1 = Ret w'"
    by (auto elim!: res_elims)
  have "shrinks (uv w) (uv w1)"
    using s(1) unfolding close_client_handle_def
    by (auto elim!: res_elims split: if_splits dest!: invalidate_uv dest: stop_then_close_shrinks)
  then show ?case using Cons.IH [OF s(2)] by (rule shrinks_trans)
qed simp

lemma server_stop_shrinks: "server_stop w = Ret w' \<Longrightarrow> shrinks (uv w) (uv w')"
proof -
  assume "server_stop w = Ret w'"
  then obtain closing w1 w2 where s:
      "(if \<not> closing then on_loop (\<lambda>L. uv_close L ServerHandle (Some On_server_close)) w else Ret w) = Ret w1"
      "stop_clients [0..client_count w1 - 1] w1 = Ret w2"
      "call_lua CallStop (on_server_stop (script w2) (lua w2)) w2 = Ret w'"
    unfolding server_stop_def by (auto elim!: res_elims)
  have "shrinks (uv w) (uv w1)" using s(1) by (auto split: if_splits dest!: on_loop_Ret close_shrinks)
  then show ?thesis
    using stop_clients_shrinks [OF s(2)] settled_shrinks [OF call_lua_settled [OF s(3)]]
    by (blast intro: shrinks_trans)
qed

lemma write_complete_shrinks: "handle_event (WriteComplete a st) w = Ret w' \<Longrightarrow> shrinks (uv w) (uv w')"
  by (auto simp: handle_event_def uv__write_complete_def on_write_done_def Let_def shrinks_def
      split: option.splits if_splits)

text \<open>No event but a new connection or the next pass takes a stale handle off the chain.\<close>

fun keeps_stale :: "server_event \<Rightarrow> bool" where
  "keeps_stale (Accept env) = False"
| "keeps_stale RunClosing = False"
| "keeps_stale e = True"

lemma events_keep_stale:
  "\<forall>e \<in> set es. keeps_stale e \<Longrightarrow> stale h (uv w) \<Longrightarrow> run_events es w = Ret w' \<Longrightarrow> stale h (uv w')"
proof (induction es arbitrary: w)
  case (Cons e es)
  then obtain w1 where s: "handle_event e w = Ret w1" "run_events es w1 = Ret w'" by (auto elim!: res_elims)
  have "shrinks (uv w) (uv w1)"
  proof (cases e)
    case (Readable a ks)
    then show ?thesis using s(1) server_read_shrinks [of a "take 32 ks" w w1] by (simp add: handle_event_def)
  next
    case Stop
    then show ?thesis using s(1) server_stop_shrinks by (simp add: handle_event_def)
  qed (use s(1) Cons.prems(1) run_timers_shrinks write_complete_shrinks in auto)
  then show ?case using Cons.IH [of w1] Cons.prems(1,2) s(2) stale_shrinks by auto
qed simp

end
