(* ===== verification/Server_Props.thy ===== *)
theory Server_Props
  imports Server_Demo Server_Timers Server_Close
begin

text \<open>
  The properties of the server: its invariant over all orders of events, what each event does, and
  the two situations in which the process cannot go on.
\<close>

section \<open>Closing passes without clients\<close>



lemma set_uv_set_uv [simp]: "set_uv L (set_uv L' w) = set_uv L w"
  by (simp add: set_uv_def)



section \<open>Safety\<close>









section \<open>Single events\<close>

text \<open>
  C15. A new connection that the system can accept ends with a complete client: it is registered
  besides the clients there were, its receive buffer is empty, its activity time is now, its magic number
  is set, and \<open>on_client_connect\<close>, if defined, was called with it; the invariant holds again.
\<close>

theorem connection_is_set_up:
  assumes "server_inv w" and "accepts env a w"
    and "script_safe (script w) (insert a (dom (client_mem w)))"
  shows "\<exists>w' c. handle_event (Accept env) w = Ret w' \<and> server_inv w' \<and>
    registered w' = insert a (registered w) \<and> client_mem w' a = Some c \<and> pending c = [] \<and>
    last_activity c = loop_time (uv w) \<and> magic c = CLIENT_MAGIC \<and>
    (on_client_connect (script w) (lua w) \<noteq> None \<longrightarrow>
       (\<exists>es. trace w' = trace w @ CallConnect a # es \<and> list_all quiet es))"
proof -
  obtain w' where w': "handle_event (Accept env) w = Ret w'" "accept_done a w w'"
    using accept_ok [OF assms] by blast
  then obtain c where c: "client_mem w' a = Some c" "pending c = []" "only_invalidated (new_client w) c"
    by (auto simp: accept_done_def)
  then have "last_activity c = loop_time (uv w)" "magic c = CLIENT_MAGIC"
    by (auto simp: only_invalidated_def new_client_def fresh_client_def)
  then show ?thesis using w' c by (auto simp: accept_done_def)
qed

theorem connection_is_set_up_witness:
  "\<exists>w'. handle_event (Accept \<lparr>conn_status = 0, new_addr = Some 9, open_rc = 0, realloc_ok = True,
       read_start_rc = 0\<rparr>) (demo_server echo_script ()) = Ret w' \<and> registered w' = {7, 9}"
proof -
  let ?env = "\<lparr>conn_status = 0, new_addr = Some 9, open_rc = 0, realloc_ok = True, read_start_rc = 0\<rparr>"
  have "accepts ?env 9 (demo_server echo_script ())" by (simp add: accepts_def demo_server_def)
  from connection_is_set_up [OF demo_inv this] echo_script_ok(1) demo_registry_ok(2) [of echo_script "()"]
  show ?thesis by (auto simp: insert_commute)
qed

text \<open>
  C14. A timer pass closes exactly the idle connections: the streams it puts on the closing chain are
  those of the valid clients whose idle timer is due and that have been silent for 300 seconds. It
  changes no client, calls no script, and keeps the invariant.
\<close>

theorem timer_pass_closes_idle_clients:
  assumes "server_inv w"
  shows "\<exists>w'. handle_event (RunTimers now) w = Ret w' \<and> server_inv w' \<and>
    client_mem w' = client_mem w \<and> lua w' = lua w \<and>
    set (chain (uv w')) = set (chain (uv w)) \<union>
      {ClientHandle a |a. IdleTimer a \<in> due_timers now (uv w) \<and>
         (\<exists>c. client_mem w a = Some c \<and> is_valid c \<and> IDLE_TIMEOUT_MS \<le> now - last_activity c)}"
proof -
  obtain w' due where w': "handle_event (RunTimers now) w = Ret w'" "server_inv w'"
      "set due = due_timers now (uv w)"
      "timers_effect due (set_uv (uv__update_time now (uv w)) w) w'"
    using run_timers_ok [OF assms] by blast
  then show ?thesis
    by (auto simp: timers_effect_def expired_def timed_out_def uv__update_time_def chain_def)
qed

theorem timer_pass_closes_idle_clients_witness:
  "\<exists>w'. handle_event (RunTimers 300000) (demo_server echo_script ()) = Ret w' \<and>
     set (chain (uv w')) = {ClientHandle 7}"
proof -
  have d: "due_timers 300000 (uv (demo_server echo_script ())) = {IdleTimer 7}"
    by (auto simp: due_timers_def demo_defs timer_key_def)
  show ?thesis
    using timer_pass_closes_idle_clients [OF demo_inv, of 300000 echo_script "()"] unfolding d
    by (auto simp: IDLE_TIMEOUT_MS_def demo_client_def fresh_client_def)
qed



text \<open>
  C17. A stop while an idle client is being closed aborts the process: \<open>on_idle_timeout\<close> closes the stream
  but leaves the client valid, and \<open>server_stop\<close> closes the streams of all valid clients, which fails
  the assertion of \<open>uv_close\<close> for this one.
\<close>

theorem stop_after_idle_timeout_aborts:
  assumes "server_inv w" and "client_mem w a = Some c" and "is_valid c"
    and "IdleTimer a \<in> due_timers now (uv w)" and "IDLE_TIMEOUT_MS \<le> now - last_activity c"
  shows "run_events [RunTimers now, Stop] w = Fault AssertionFailure"
proof -
  obtain w' due where w': "handle_event (RunTimers now) w = Ret w'" "server_inv w'"
      "set due = due_timers now (uv w)"
      "timers_effect due (set_uv (uv__update_time now (uv w)) w) w'"
    using run_timers_ok [OF assms(1)] by blast
  have "ClientHandle a \<in> set (chain (uv w'))" "client_mem w' a = Some c"
    using w'(3,4) assms by (auto simp: timers_effect_def expired_def timed_out_def uv__update_time_def)
  then have "\<not> stoppable w'" using assms(3) by (auto simp: stoppable_def)
  then show ?thesis using server_stop_fault [OF w'(2)] w'(1) by (simp add: handle_event_def)
qed

theorem stop_after_idle_timeout_aborts_witness:
  "run_events [RunTimers 300000, Stop] (demo_server echo_script ()) = Fault AssertionFailure"
  by (rule stop_after_idle_timeout_aborts [OF demo_inv, where a = 7])
    (auto simp: due_timers_def demo_defs timer_key_def IDLE_TIMEOUT_MS_def demo_client_def fresh_client_def)

text \<open>
  C9. The client array is a dense indexed set: adding a client with room left and removing a registered
  one both succeed, keep the array dense with every client knowing its slot, and change the set of
  registered clients by exactly this client; removing the client just added gives the old set back.
\<close>

theorem client_array_is_dense_set:
  assumes "registry_ok w" and "has_room a w"
  shows "\<exists>w1 w2. add_client a w = Ret w1 \<and> registry_ok w1 \<and> registered w1 = insert a (registered w) \<and>
    remove_client a w1 = Ret w2 \<and> registry_ok w2 \<and> registered w2 = registered w \<and>
    (\<forall>b \<in> registered w. \<exists>w3. remove_client b w = Ret w3 \<and> registry_ok w3 \<and>
       registered w3 = registered w - {b})"
proof -
  obtain w1 where w1: "add_client a w = Ret w1" "registry_ok w1" "registered w1 = insert a (registered w)"
    using registry.add_law [OF assms] by blast
  obtain w2 where "remove_client a w1 = Ret w2" "registry_ok w2" "registered w2 = registered w"
    using registry.rem_law [OF w1(2), of a] registry.room_new [OF assms] w1(3) by auto
  then show ?thesis using w1 registry.rem_law [OF assms(1)] by metis
qed

theorem client_array_is_dense_set_witness:
  "\<exists>w1. add_client 9 (set_client (demo_server echo_script ()) 9 demo_client) = Ret w1 \<and>
     registered w1 = {7, 9}"
proof -
  let ?w = "set_client (demo_server echo_script ()) 9 demo_client"
  have "registry_ok ?w" "registered ?w = {7}"
    by (simp_all add: registry_ok_def registered_def demo_server_def demo_client_def fresh_client_def
        zero_client_def initial_server_def set_client_def)
  moreover have "has_room 9 ?w"
    using calculation by (simp add: has_room_def set_client_def demo_server_def)
  ultimately show ?thesis using client_array_is_dense_set [of ?w 9] by (auto simp: insert_commute)
qed

section \<open>A closed connection\<close>

text \<open>
  C3. No server survives the end of a connection: once the stream of a client is on the closing
  chain, the close callback frees the client with the idle timer it has just put on the chain, and
  whatever reads, writes, timers and stops come between, the pass over the chain after that one does
  not return (it finishes a handle in freed memory). New connections, which may reuse the
  memory, are left out.
\<close>

theorem closed_connection_stops_process:
  assumes "server_inv w" and "ClientHandle a \<in> set (closing_handles (uv w))"
    and "\<forall>e \<in> set es. keeps_stale e"
  shows "run_events (RunClosing # es @ [RunClosing]) w \<noteq> Ret w'"
proof
  assume "run_events (RunClosing # es @ [RunClosing]) w = Ret w'"
  then obtain w1 where 1: "handle_event RunClosing w = Ret w1"
      "run_events (es @ [RunClosing]) w1 = Ret w'"
    by (auto elim!: res_elims)
  have split: "\<exists>v2. run_events xs v = Ret v2 \<and> run_events ys v2 = Ret v'"
    if "run_events (xs @ ys) v = Ret v'" for xs ys and v v' :: "'a server"
    using that by (induction xs arbitrary: v) (auto elim!: res_elims)
  obtain w2 where 2: "run_events es w1 = Ret w2" "handle_event RunClosing w2 = Ret w'"
    using split [OF 1(2)] by (auto elim!: res_elims)
  have "server_core w" using assms(1) by (simp add: server_inv_def)
  then obtain b where "stale (IdleTimer b) (uv w1)" using closing_pass_leaves [OF _ assms(2) 1(1)] by blast
  then have "stale (IdleTimer b) (uv w2)" by (rule events_keep_stale [OF assms(3) _ 2(1)])
  then show False using stale_pass_fails 2(2) by blast
qed

theorem closed_connection_stops_process_witness:
  "\<exists>w. handle_event (Readable 7 [KernelData [255, 255, 255, 255]]) (demo_server echo_script ()) = Ret w \<and>
     (\<forall>w'. run_events [RunClosing, RunTimers 5, RunClosing] w \<noteq> Ret w')"
proof -
  let ?w0 = "demo_server echo_script ()"
  have d: "decode [255, 255, 255, 255] = ([], BadLength 4294967295)"
    by (simp add: decode.simps be_value_def)
  obtain w where w: "server_read 7 [KernelData [255, 255, 255, 255]] ?w0 = Ret w" "server_inv w"
      "delivers 7 [255, 255, 255, 255] ?w0 w"
    using server_read_delivers [OF demo_inv, of echo_script "()" 7 demo_client demo_stream
        "[KernelData [255, 255, 255, 255]]"] echo_script_ok
    by (auto simp: scripts_ok_def)
  have "chain (uv w) = [ClientHandle 7]" using w(3) d by (auto simp: delivers_def)
  then have "ClientHandle 7 \<in> set (closing_handles (uv w))"
    using w(2) by (simp add: server_inv_def chain_def)
  then have "run_events [RunClosing, RunTimers 5, RunClosing] w \<noteq> Ret w'" for w'
    using closed_connection_stops_process [OF w(2), of 7 "[RunTimers 5]" w'] by simp
  then show ?thesis using w(1) by (auto simp: handle_event_def)
qed

end
