(* ===== verification/Uv_Props.thy ===== *)
theory Uv_Props
  imports Uv_Timer_Facts
begin

text \<open>
  The properties of libuv the server rests on: its timer heap is a priority queue, due times
  saturate, due timers leave in order, and a handle is closed once.
\<close>

text \<open>
  C10. The heap of \<open>heap-inl.h\<close> implements a priority queue of timers: from a heap in order, insertion adds
  one element, removal of any element it holds succeeds and takes just this one out, both keep the
  order, and the node \<open>heap_min\<close> reads precedes or equals every other.
\<close>

theorem timer_heap_is_priority_queue:
  assumes "heap_ok (timer_less_than hs) q"
  shows "heap_ok (timer_less_than hs) (heap_insert (timer_less_than hs) q x) \<and>
    mset (heap_insert (timer_less_than hs) q x) = add_mset x (mset q) \<and>
    (\<forall>y \<in># mset q. \<exists>q'. heap_remove (timer_less_than hs) q y = Ret q' \<and>
       heap_ok (timer_less_than hs) q' \<and> mset q' = mset q - {#y#}) \<and>
    (\<forall>y. heap_min q = Some y \<longrightarrow> (\<forall>z \<in># mset q. \<not> timer_less_than hs z y))"
proof (intro conjI ballI allI impI)
  show "heap_ok (timer_less_than hs) (heap_insert (timer_less_than hs) q x)"
    by (rule timers.inv_ins [OF assms])
  show "mset (heap_insert (timer_less_than hs) q x) = add_mset x (mset q)"
    by (rule timers.content_ins)
  show "\<exists>q'. heap_remove (timer_less_than hs) q y = Ret q' \<and> heap_ok (timer_less_than hs) q' \<and>
      mset q' = mset q - {#y#}" if "y \<in># mset q" for y
    using timers.rem_Ret [OF that] timers.inv_rem [OF assms] timers.content_rem [OF that] by blast
  show "\<not> timer_less_than hs z y" if "heap_min q = Some y" "z \<in># mset q" for y z
    by (rule timers.min_least [OF assms that])
qed

definition demo_timers :: "nat \<Rightarrow> (unit, unit) uv_handle option" where
  "demo_timers h = (if h < 3 then Some (zero_handle\<lparr>timeout := 9 - word_of_nat h\<rparr>) else None)"

theorem timer_heap_is_priority_queue_witness:
  "heap_ok (timer_less_than demo_timers) (heap_insert (timer_less_than demo_timers) [1, 0] 2) \<and>
   heap_insert (timer_less_than demo_timers) [1, 0] (2 :: nat) = [2, 0, 1]"
proof -
  have h: "heap_ok (timer_less_than demo_timers) [1, 0 :: nat]"
    by (auto simp: heap_ok_def timer_less_than_def timer_key_def demo_timers_def less_Suc_eq parent_pos_def)
  have "heap_insert (timer_less_than demo_timers) [1, 0] (2 :: nat) = [2, 0, 1]" by code_simp
  then show ?thesis using timer_heap_is_priority_queue [OF h, of 2] by blast
qed

text \<open>
  The due time \<open>uv_timer_start\<close> computes saturates instead of wrapping around: it is the sum of the
  loop time and the timeout, or the largest 64-bit value when the sum does not fit.
\<close>

theorem due_time_saturates:
  "uint (clamped_timeout now t) = min (uint now + uint t) (2 ^ 64 - 1)"
proof -
  have sum: "uint (now + t) = (uint now + uint t) mod 2 ^ 64" by (simp add: uint_word_ariths)
  have b: "uint now < 2 ^ 64" "uint t < 2 ^ 64" "0 \<le> uint now" "0 \<le> uint t"
    using uint_lt2p [of now] uint_lt2p [of t] by simp_all
  have top: "uint (- 1 :: u64) = 2 ^ 64 - 1"
    by (simp add: unsigned_minus_1_eq_mask mask_eq_exp_minus_1)
  show ?thesis
  proof (cases "uint now + uint t < 2 ^ 64")
    case True
    then have "uint (now + t) = uint now + uint t" using sum b by simp
    then show ?thesis using True b by (simp add: clamped_timeout_def word_less_def)
  next
    case False
    then have "(uint now + uint t) mod 2 ^ 64 = uint now + uint t - 2 ^ 64"
      using b by (intro int_mod_pos_eq [where q = 1]) auto
    then have "now + t < t" using sum b by (simp add: word_less_def)
    then show ?thesis using False top by (simp add: clamped_timeout_def)
  qed
qed

text \<open>
  C31. The first loop of \<open>uv__run_timers\<close> terminates within one round more than there are timers and takes
  exactly the due timers out of the heap, each once, ordered by due time and then by start; the
  others stay in the heap, in order.
\<close>

theorem due_timers_leave_in_order:
  assumes "timers_ok L" and "ready_queue L = []"
  shows "\<exists>L' due. collect_due (Suc (length (timer_heap L))) L = Ret L' \<and> ready_queue L' = due \<and>
    distinct due \<and> set due = {h \<in> set (timer_heap L). is_due L h} \<and>
    sorted_wrt (\<lambda>a b. \<not> timer_less_than (handles L) b a) due \<and>
    timers_ok L' \<and> set (timer_heap L') = {h \<in> set (timer_heap L). \<not> is_due L h}"
proof -
  obtain L' due where "collect_due (Suc (length (timer_heap L))) L = Ret L'" "collected L due L'"
    using collect_due_total [OF assms(1)] by blast
  then show ?thesis using assms(2) by (auto simp: collected_def)
qed

definition demo_uv_loop :: "(nat, unit, unit) uv_loop" where
  "demo_uv_loop =
     \<lparr>handles = (\<lambda>h. if h < 3 then Some (zero_handle\<lparr>htype := UV_TIMER, f_active := True, f_ref := True,
          node_linked := True, timeout := 9 - word_of_nat h, start_id := word_of_nat h\<rparr>) else None),
      loop_time = 8, timer_heap = [2, 0, 1], timer_counter = 3, ready_queue = [],
      closing_handles = [], detached = [], handle_queue = [0, 1, 2], active_handles = 3,
      active_reqs = 0, write_queue = [], stop_flag = False\<rparr>"

lemma demo_uv_loop_ok: "timers_ok demo_uv_loop"
proof (rule timers_okI)
  have "heap_ok (timer_less_than (handles demo_uv_loop)) (heap_insert (timer_less_than (handles demo_uv_loop))
      (heap_insert (timer_less_than (handles demo_uv_loop)) (heap_insert (timer_less_than (handles demo_uv_loop)) [] 1) 0) 2)"
    by (intro timers.inv_ins) (simp add: heap_ok_def)
  moreover have "heap_insert (timer_less_than (handles demo_uv_loop))
      (heap_insert (timer_less_than (handles demo_uv_loop)) (heap_insert (timer_less_than (handles demo_uv_loop)) [] 1) 0) 2
      = timer_heap demo_uv_loop"
    by code_simp
  ultimately show "heap_ok (timer_less_than (handles demo_uv_loop)) (timer_heap demo_uv_loop)" by simp
  show "distinct (timer_heap demo_uv_loop)" by (simp add: demo_uv_loop_def)
  show "h \<in> set (timer_heap demo_uv_loop) \<longleftrightarrow> is_active_timer (handles demo_uv_loop h)" for h
    by (auto simp: demo_uv_loop_def is_active_timer_def zero_handle_def)
qed

theorem due_timers_leave_in_order_witness:
  "\<exists>L'. collect_due 4 demo_uv_loop = Ret L' \<and> set (ready_queue L') = {1, 2} \<and> set (timer_heap L') = {0}"
proof -
  have d: "{h \<in> set (timer_heap demo_uv_loop). is_due demo_uv_loop h} = {1, 2}"
    "{h \<in> set (timer_heap demo_uv_loop). \<not> is_due demo_uv_loop h} = {0}"
    by (auto simp: demo_uv_loop_def is_due_def timer_key_def)
  have r: "ready_queue demo_uv_loop = []" "Suc (length (timer_heap demo_uv_loop)) = 4"
    by (simp_all add: demo_uv_loop_def)
  show ?thesis using due_timers_leave_in_order [OF demo_uv_loop_ok r(1)] unfolding d r(2) by blast
qed

text \<open>
  C32. A handle is closed once: \<open>uv_close\<close> of an initialised timer or stream that is not closing puts it on
  the closing chain, inactive and with its close callback, leaves the other handles alone and the timer
  heap in order; closing it a second time fails an assertion.
\<close>

theorem handle_closes_once:
  assumes "timers_ok L" and "handles L h = Some x" and "\<not> uv__is_closing x"
    and "is_timer L h \<or> htype x = UV_TCP \<or> htype x = UV_TTY"
  shows "\<exists>L' x'. uv_close L h cb = Ret L' \<and> timers_ok L' \<and> handles L' = (handles L)(h \<mapsto> x') \<and>
    \<not> f_active x' \<and> close_cb x' = cb \<and> closing_handles L' = h # closing_handles L \<and>
    uv_close L' h cb' = Fault AssertionFailure"
proof -
  obtain L' x' where L': "uv_close L h cb = Ret L'" "timers_ok L'" "handles L' = (handles L)(h \<mapsto> x')"
      "\<not> f_active x'" "close_cb x' = cb" "f_closing x'" "closing_handles L' = h # closing_handles L"
  proof (cases "is_timer L h")
    case True
    obtain L' x' where "uv_close L h cb = Ret L'" "timers_ok L'" "handles L' = (handles L)(h \<mapsto> x')"
        "x' = x\<lparr>f_closing := True, close_cb := cb, f_active := False, node_linked := True\<rparr>"
        "closing_handles L' = h # closing_handles L"
      by (rule uv_close_timer [OF assms(1) True assms(2,3), of cb]) blast
    moreover from this(4) have "\<not> f_active x'" "close_cb x' = cb" "f_closing x'" by simp_all
    ultimately show thesis using that by blast
  next
    case False
    then have ty: "htype x = UV_TCP \<or> htype x = UV_TTY" using assms(4) by blast
    obtain L' x' where "uv_close L h cb = Ret L'" "timers_ok L'" "handles L' = (handles L)(h \<mapsto> x')"
        "x' = x\<lparr>f_closing := True, close_cb := cb, f_active := False, f_reading := False,
           f_readable := False, f_writable := False, fd_open := False\<rparr>"
        "closing_handles L' = h # closing_handles L"
      by (rule uv_close_stream [OF assms(1,2) ty assms(3), of cb]) blast
    moreover from this(4) have "\<not> f_active x'" "close_cb x' = cb" "f_closing x'" by simp_all
    ultimately show thesis using that by blast
  qed
  have "uv_close L' h cb' = Fault AssertionFailure"
    by (rule uv_close_twice [of _ _ x']) (use L' in \<open>simp_all add: uv__is_closing_def\<close>)
  then show ?thesis using L' by blast
qed

theorem handle_closes_once_witness:
  "\<exists>L'. uv_close demo_uv_loop 1 None = Ret L' \<and> closing_handles L' = [1] \<and>
     uv_close L' 1 None = Fault AssertionFailure"
proof -
  obtain x where x: "handles demo_uv_loop 1 = Some x" "\<not> uv__is_closing x" "is_timer demo_uv_loop 1"
    by (simp add: demo_uv_loop_def uv__is_closing_def zero_handle_def is_timer_def)
  have "closing_handles demo_uv_loop = []" by (simp add: demo_uv_loop_def)
  then show ?thesis
    using handle_closes_once [OF demo_uv_loop_ok x(1,2) disjI1 [OF x(3)], of None None] by auto
qed

end
