(* ===== verification/C_Text.thy ===== *)
theory C_Text
  imports Gear_Prelude
begin

text \<open>
  The C library's strings as the program uses them: \<open>snprintf\<close> and \<open>strncpy\<close> with their truncation,
  \<open>strrchr\<close>, \<open>tolower\<close>, decimal numbers; and the helpers on paths and names that
  \<open>ge/src/logger.c\<close> builds from them. A C string is the list of its characters before the NUL.
\<close>

section \<open>Formatting\<close>

text \<open>
  \<open>snprintf\<close> and \<open>strncpy\<close> followed by a NUL into a buffer of \<open>n\<close> bytes keep \<open>n - 1\<close> characters.
\<close>

definition fit :: "nat \<Rightarrow> string \<Rightarrow> string" where
  "fit n s = take (n - 1) s"

lemma fit_length [simp]: "length (fit n s) = min (length s) (n - 1)"
  by (simp add: fit_def)

lemma fit_short [simp]: "length s < n \<Longrightarrow> fit n s = s"
  by (simp add: fit_def)

definition digit_char :: "nat \<Rightarrow> char" where
  "digit_char d = char_of (48 + d)"

definition char_digit :: "char \<Rightarrow> nat" where
  "char_digit c = of_char c - 48"

lemma char_digit_inverse [simp]: "d < 10 \<Longrightarrow> char_digit (digit_char d) = d"
  by (simp add: char_digit_def digit_char_def)

text \<open>The conversions \<open>%d\<close> and \<open>%zu\<close>, and \<open>%0wd\<close> with its field width.\<close>

fun dec_nat :: "nat \<Rightarrow> string" where
  "dec_nat n = (if n < 10 then [digit_char n] else dec_nat (n div 10) @ [digit_char (n mod 10)])"

declare dec_nat.simps [simp del]

definition dec_int :: "int \<Rightarrow> string" where
  "dec_int i = (if i < 0 then CHR ''-'' # dec_nat (nat (- i)) else dec_nat (nat i))"

definition dec_padded :: "nat \<Rightarrow> int \<Rightarrow> string" where
  "dec_padded w i =
     (let s = dec_nat (nat \<bar>i\<bar>); sign = (if i < 0 then ''-'' else '''') in
        sign @ replicate (w - length sign - length s) CHR ''0'' @ s)"

definition parse_dec :: "string \<Rightarrow> nat" where
  "parse_dec = foldl (\<lambda>a c. 10 * a + char_digit c) 0"

lemma parse_dec_nat [simp]: "parse_dec (dec_nat n) = n"
proof (induction n rule: dec_nat.induct)
  case (1 n)
  show ?case
  proof (cases "n < 10")
    case True
    then show ?thesis by (simp add: dec_nat.simps [of n] parse_dec_def)
  next
    case False
    then show ?thesis using 1 by (simp add: dec_nat.simps [of n] parse_dec_def)
  qed
qed

lemma parse_dec_zeros: "parse_dec (replicate k CHR ''0'' @ s) = parse_dec s"
proof -
  have "foldl (\<lambda>a c. 10 * a + char_digit c) 0 (replicate k CHR ''0'') = (0::nat)"
    by (induction k) (simp_all add: char_digit_def)
  then show ?thesis by (simp add: parse_dec_def)
qed

lemma dec_nat_nonempty [simp]: "dec_nat n \<noteq> []"
  by (subst dec_nat.simps) simp

lemma dec_nat_length: "n < 10 ^ k \<Longrightarrow> 0 < k \<Longrightarrow> length (dec_nat n) \<le> k"
proof (induction k arbitrary: n)
  case (Suc k)
  show ?case
  proof (cases "n < 10")
    case True
    then show ?thesis by (simp add: dec_nat.simps [of n])
  next
    case False
    then have "0 < k" using Suc.prems by (cases k) simp_all
    moreover have "n div 10 < 10 ^ k" using Suc.prems by auto
    ultimately show ?thesis using Suc.IH [of "n div 10"] False by (simp add: dec_nat.simps [of n])
  qed
qed simp

lemma dec_padded_length:
  assumes "0 \<le> i" "i < 10 ^ w" "0 < w"
  shows "length (dec_padded w i) = w"
proof -
  have "nat i < 10 ^ w" using assms by (simp add: nat_less_iff)
  then have "length (dec_nat (nat i)) \<le> w" using dec_nat_length assms(3) by blast
  then show ?thesis using assms by (simp add: dec_padded_def Let_def)
qed

lemma parse_dec_padded: "0 \<le> i \<Longrightarrow> parse_dec (dec_padded w i) = nat i"
  by (simp add: dec_padded_def Let_def parse_dec_zeros)

section \<open>Searching and comparing\<close>

fun strrchr :: "string \<Rightarrow> char \<Rightarrow> nat option" where
  "strrchr [] c = None"
| "strrchr (x # xs) c =
     (case strrchr xs c of Some i \<Rightarrow> Some (Suc i) | None \<Rightarrow> if x = c then Some 0 else None)"

lemma strrchr_None [simp]: "strrchr s c = None \<longleftrightarrow> c \<notin> set s"
  by (induction s) (auto split: option.splits)

lemma strrchr_absent [simp]: "c \<notin> set s \<Longrightarrow> strrchr s c = None"
  by simp

lemma strrchr_last: "c \<notin> set t \<Longrightarrow> strrchr (s @ c # t) c = Some (length s)"
  by (induction s) simp_all

lemma strrchr_other: "c \<notin> set t \<Longrightarrow> strrchr (s @ t) c = strrchr s c"
  by (induction s) simp_all

lemma strrchr_bound: "strrchr s c = Some i \<Longrightarrow> i < length s \<and> s ! i = c"
  by (induction s arbitrary: i) (auto split: option.splits if_splits)

text \<open>\<open>tolower\<close> in the C locale.\<close>

definition tolower :: "char \<Rightarrow> char" where
  "tolower c = (if 65 \<le> (of_char c :: nat) \<and> of_char c \<le> (90 :: nat)
                then char_of ((of_char c :: nat) + 32) else c)"

fun equals_loop :: "string \<Rightarrow> string \<Rightarrow> bool" where
  "equals_loop (a # as) (b # bs) = (if tolower a \<noteq> tolower b then False else equals_loop as bs)"
| "equals_loop as bs = (as = [] \<and> bs = [])"

definition equals_ignore_case :: "string option \<Rightarrow> string option \<Rightarrow> bool" where
  "equals_ignore_case a b =
     (case (a, b) of (Some a, Some b) \<Rightarrow> equals_loop a b | _ \<Rightarrow> False)"

lemma equals_loop_map: "equals_loop a b \<longleftrightarrow> map tolower a = map tolower b"
  by (induction a b rule: equals_loop.induct) auto

section \<open>Paths\<close>

abbreviation slash :: char where "slash \<equiv> CHR ''/''"
abbreviation backslash :: char where "backslash \<equiv> CHR 0x5C"

definition find_last_path_sep :: "string \<Rightarrow> nat option" where
  "find_last_path_sep path =
     (case strrchr path slash of
        None \<Rightarrow> strrchr path backslash
      | Some s \<Rightarrow>
          (case strrchr path backslash of
             None \<Rightarrow> Some s
           | Some b \<Rightarrow> Some (if b < s then s else b)))"

lemma find_last_path_sep_at:
  assumes "slash \<notin> set t" "backslash \<notin> set t"
  shows "find_last_path_sep (s @ slash # t) = Some (length s)"
proof -
  have b: "strrchr (s @ slash # t) backslash = strrchr s backslash"
    using strrchr_other [of backslash "slash # t" s] assms(2) by simp
  show ?thesis using strrchr_last [OF assms(1)] strrchr_bound [of s backslash] b
    by (auto simp: find_last_path_sep_def split: option.splits)
qed

lemma find_last_path_sep_None:
  "find_last_path_sep s = None \<longleftrightarrow> slash \<notin> set s \<and> backslash \<notin> set s"
proof (cases "strrchr s slash")
  case None
  then show ?thesis by (simp add: find_last_path_sep_def)
next
  case (Some i)
  then have "slash \<in> set s" using strrchr_None [of s slash] by auto
  then show ?thesis using Some by (simp add: find_last_path_sep_def split: option.splits)
qed

text \<open>
  \<open>get_project_root\<close>: two levels above the executable, else the working directory, else ".".
  \<open>exepath\<close> and \<open>cwd\<close> are the results of \<open>uv_exepath\<close> and \<open>uv_cwd\<close>, \<open>None\<close> when they fail; both
  fit the buffer they were given.
\<close>

definition get_project_root :: "nat \<Rightarrow> string option \<Rightarrow> string option \<Rightarrow> string" where
  "get_project_root buffer_size exepath cwd =
     (let by_cwd = (case cwd of Some d \<Rightarrow> d | None \<Rightarrow> fit buffer_size ''.'') in
      case exepath of
        None \<Rightarrow> by_cwd
      | Some exe_path \<Rightarrow>
          (case find_last_path_sep exe_path of
             None \<Rightarrow> by_cwd
           | Some last_sep \<Rightarrow>
               (let exe_path = take last_sep exe_path in
                case find_last_path_sep exe_path of
                  None \<Rightarrow> by_cwd
                | Some parent_sep \<Rightarrow> fit buffer_size (take parent_sep exe_path))))"

definition no_sep :: "string \<Rightarrow> bool" where
  "no_sep s \<longleftrightarrow> slash \<notin> set s \<and> backslash \<notin> set s"

lemma project_root_above:
  assumes "no_sep bin" "no_sep exe"
  shows "get_project_root n (Some (root @ slash # bin @ slash # exe)) cwd = fit n root"
  using find_last_path_sep_at [of exe "root @ slash # bin"] find_last_path_sep_at [of bin root] assms
  by (simp add: get_project_root_def no_sep_def)

lemma project_root_length:
  assumes "\<And>d. cwd = Some d \<Longrightarrow> length d < n" and "1 < n"
  shows "length (get_project_root n exe cwd) < n"
  using assms by (auto simp: get_project_root_def Let_def split: option.splits)

end
