(* ===== verification/Logger.thy ===== *)
theory Logger
  imports C_Text
begin

text \<open>
  The logger (\<open>ge/src/logger.c\<close>, \<open>logger.h\<close>): levels, timestamps, the path of the log file, the
  bounded queue between the program's thread and the writer thread, and the public functions.

  What the operating system answers is input: the clock, \<open>localtime_r\<close>, \<open>uv_exepath\<close>, \<open>uv_cwd\<close>,
  \<open>mkdir\<close>, the creation of the mutex, of the condition variables, of the file and of the thread. The two
  threads share the queue under its mutex: the model takes one step per critical section, and a
  step of its own for the \<open>fwrite\<close> that the writer performs without the mutex.
\<close>

section \<open>Levels\<close>

definition LOG_LEVEL_DEBUG :: int where "LOG_LEVEL_DEBUG = 0"
definition LOG_LEVEL_INFO :: int where "LOG_LEVEL_INFO = 1"
definition LOG_LEVEL_WARN :: int where "LOG_LEVEL_WARN = 2"
definition LOG_LEVEL_ERROR :: int where "LOG_LEVEL_ERROR = 3"
definition LOG_LEVEL_FATAL :: int where "LOG_LEVEL_FATAL = 4"

lemmas log_levels =
  LOG_LEVEL_DEBUG_def LOG_LEVEL_INFO_def LOG_LEVEL_WARN_def LOG_LEVEL_ERROR_def LOG_LEVEL_FATAL_def

definition logger_level_to_string :: "int \<Rightarrow> string" where
  "logger_level_to_string level =
     (if level = LOG_LEVEL_DEBUG then ''DEBUG''
      else if level = LOG_LEVEL_INFO then ''INFO''
      else if level = LOG_LEVEL_WARN then ''WARN''
      else if level = LOG_LEVEL_ERROR then ''ERROR''
      else if level = LOG_LEVEL_FATAL then ''FATAL''
      else ''INFO'')"

definition logger_parse_level :: "string option \<Rightarrow> int" where
  "logger_parse_level level_str =
     (if level_str = None then LOG_LEVEL_INFO
      else if equals_ignore_case level_str (Some ''debug'') then LOG_LEVEL_DEBUG
      else if equals_ignore_case level_str (Some ''info'') then LOG_LEVEL_INFO
      else if equals_ignore_case level_str (Some ''warn'') then LOG_LEVEL_WARN
      else if equals_ignore_case level_str (Some ''error'') then LOG_LEVEL_ERROR
      else if equals_ignore_case level_str (Some ''fatal'') then LOG_LEVEL_FATAL
      else LOG_LEVEL_INFO)"

section \<open>Timestamps\<close>

record tm =
  tm_year :: int
  tm_mon :: int
  tm_mday :: int
  tm_hour :: int
  tm_min :: int
  tm_sec :: int

text \<open>
  \<open>clock\<close> is the answer of \<open>uv_clock_gettime\<close>, seconds and nanoseconds below one second;
  \<open>localtime\<close> is \<open>localtime_r\<close>.
\<close>

definition format_timestamp ::
  "nat \<Rightarrow> (int \<times> int) option \<Rightarrow> (int \<Rightarrow> tm option) \<Rightarrow> string" where
  "format_timestamp buffer_size clock localtime =
     (case clock of
        None \<Rightarrow> fit buffer_size ''0''
      | Some (sec, nsec) \<Rightarrow>
          (let ms = nsec div 1000000 in
           case localtime sec of
             None \<Rightarrow> fit buffer_size (dec_int (sec * 1000 + ms))
           | Some t \<Rightarrow> fit buffer_size
               (dec_padded 4 (tm_year t + 1900) @ ''-'' @ dec_padded 2 (tm_mon t + 1) @ ''-'' @
                dec_padded 2 (tm_mday t) @ '' '' @ dec_padded 2 (tm_hour t) @ '':'' @
                dec_padded 2 (tm_min t) @ '':'' @ dec_padded 2 (tm_sec t) @ ''.'' @
                dec_padded 3 ms)))"

section \<open>The path of the log file\<close>

definition UV_EEXIST :: int where "UV_EEXIST = - 17"

record log_env =
  clock :: "(int \<times> int) option"
  localtime :: "int \<Rightarrow> tm option"
  exepath :: "string option"
  cwd :: "string option"
  mkdir_rc :: "string \<Rightarrow> int"
  mutex_rc :: int
  cond_not_empty_rc :: int
  cond_not_full_rc :: int
  fopen_ok :: bool
  thread_rc :: int
  node_malloc :: bool

definition ensure_directory :: "log_env \<Rightarrow> string \<Rightarrow> int" where
  "ensure_directory env path =
     (let r = mkdir_rc env path in if r = 0 \<or> r = UV_EEXIST then 0 else - 1)"

text \<open>
  The result is the return value and the contents of \<open>g_log_file_path\<close>. The directories are created
  from the outside in, the first failure ends it.
\<close>

definition init_log_paths :: "log_env \<Rightarrow> string option \<Rightarrow> string \<Rightarrow> int \<times> string" where
  "init_log_paths env g_process_name process_type =
     (let project_root = get_project_root 1024 (exepath env) (cwd env);
          name = (case g_process_name of Some n \<Rightarrow> n | None \<Rightarrow> process_type);
          log_dir = fit 1152 (project_root @ slash # ''log'');
          type_dir = fit 1184 (log_dir @ slash # process_type);
          process_dir = fit 1216 (type_dir @ slash # name);
          g_log_file_path = fit 1216 (process_dir @ slash # name @ ''.log'') in
        (if ensure_directory env log_dir \<noteq> 0 \<or> ensure_directory env type_dir \<noteq> 0 \<or>
            ensure_directory env process_dir \<noteq> 0
         then - 1 else 0, g_log_file_path))"

section \<open>The queue\<close>

text \<open>
  \<open>log_queue_t\<close>. \<open>nodes\<close> is the linked list from \<open>head\<close> to \<open>tail\<close>; \<open>tail\<close> is null exactly when
  \<open>head\<close> is. \<open>fp\<close> is the open file, by its path.
\<close>

text \<open>The field \<open>count\<close> of the source is \<open>node_count\<close>.\<close>

record log_queue =
  nodes :: "string list"
  running :: bool
  initialized :: bool
  fp :: "string option"
  thread_started :: bool
  node_count :: u64
  max_count :: u64
  warn_threshold :: u64
  warn_emitted :: bool

definition zero_queue :: log_queue where
  "zero_queue =
     \<lparr>nodes = [], running = False, initialized = False, fp = None, thread_started = False,
      node_count = 0, max_count = 0, warn_threshold = 0, warn_emitted = False\<rparr>"

definition log_queue_init :: "log_env \<Rightarrow> u64 \<Rightarrow> u64 \<Rightarrow> string \<Rightarrow> log_queue \<Rightarrow> int \<times> log_queue" where
  "log_queue_init env g_log_queue_max g_log_queue_warn file_path q =
     (if initialized q then (if fp q \<noteq> None then 0 else - 1, q)
      else if mutex_rc env \<noteq> 0 then (- 1, q)
      else if cond_not_empty_rc env \<noteq> 0 then (- 1, q)
      else if cond_not_full_rc env \<noteq> 0 then (- 1, q)
      else if \<not> fopen_ok env then (- 1, q\<lparr>fp := None\<rparr>)
      else
        let mx = (if 0 < g_log_queue_max then g_log_queue_max else 10000);
            wt = (if 0 < g_log_queue_warn then g_log_queue_warn else 8000);
            q = q\<lparr>fp := Some file_path, nodes := [], running := True, initialized := True,
                  node_count := 0, max_count := mx,
                  warn_threshold := (if mx < wt then mx else wt), warn_emitted := False\<rparr> in
        if thread_rc env \<noteq> 0 then (- 1, q\<lparr>fp := None, running := False, initialized := False\<rparr>)
        else (0, q\<lparr>thread_started := True\<rparr>))"

text \<open>The result is the queue and what is printed to \<open>stderr\<close>; \<open>%zu\<close> prints a \<open>size_t\<close>.\<close>

definition queue_report :: "string \<Rightarrow> log_queue \<Rightarrow> string \<Rightarrow> string" where
  "queue_report before q after =
     ''[log] '' @ before @ dec_nat (unat (node_count q)) @ ''/'' @ dec_nat (unat (max_count q)) @ after"

definition log_queue_push :: "bool \<Rightarrow> string \<Rightarrow> log_queue \<Rightarrow> log_queue \<times> string list" where
  "log_queue_push malloc_ok line q =
     (if \<not> initialized q \<or> fp q = None then (q, [])
      else if \<not> malloc_ok then (q, [])
      else if max_count q \<le> node_count q then
        (if \<not> warn_emitted q
         then (q\<lparr>warn_emitted := True\<rparr>, [queue_report ''Queue full ('' q ''), dropping logs''])
         else (q, []))
      else if \<not> running q then (q, [])
      else
        let q = q\<lparr>nodes := nodes q @ [line], node_count := node_count q + 1\<rparr> in
        if \<not> warn_emitted q \<and> warn_threshold q \<le> node_count q
        then (q\<lparr>warn_emitted := True\<rparr>, [queue_report ''Queue near limit: '' q ''''])
        else (q, []))"

section \<open>The writer thread\<close>

text \<open>
  Where the writer is: before it took the mutex, waiting for a line, writing a line it removed from
  the queue without the mutex (with the file and the flag it read under the mutex), about to take
  the mutex again, returned.
\<close>

datatype writer = Starting | Waiting | Writing string "string option" bool | Relocking | Done

definition take_node :: "log_queue \<Rightarrow> writer \<times> log_queue" where
  "take_node q =
     (Writing (hd (nodes q)) (fp q) (running q), q\<lparr>nodes := tl (nodes q), node_count := node_count q - 1\<rparr>)"

text \<open>The test of the outer loop and the wait; the inner loop with what follows it.\<close>

definition worker_outer :: "log_queue \<Rightarrow> writer \<times> log_queue" where
  "worker_outer q =
     (if running q \<or> nodes q \<noteq> []
      then if nodes q = [] then (Waiting, q) else take_node q
      else (Done, q))"

definition worker_inner :: "log_queue \<Rightarrow> writer \<times> log_queue" where
  "worker_inner q =
     (if nodes q \<noteq> [] then take_node q
      else worker_outer
        (if node_count q < warn_threshold q then q\<lparr>warn_emitted := False\<rparr> else q))"

text \<open>One step of \<open>log_queue_worker\<close>, with the lines of the file so far.\<close>

fun log_queue_worker ::
  "writer \<Rightarrow> log_queue \<Rightarrow> string list \<Rightarrow> writer \<times> log_queue \<times> string list" where
  "log_queue_worker Starting q fl = (case worker_outer q of (pc, q) \<Rightarrow> (pc, q, fl))"
| "log_queue_worker Waiting q fl =
     (if nodes q = [] \<and> running q then (Waiting, q, fl)
      else case worker_inner q of (pc, q) \<Rightarrow> (pc, q, fl))"
| "log_queue_worker (Writing line f still_running) q fl =
     (Relocking, q, if f \<noteq> None \<and> still_running then fl @ [line] else fl)"
| "log_queue_worker Relocking q fl = (case worker_inner q of (pc, q) \<Rightarrow> (pc, q, fl))"
| "log_queue_worker Done q fl = (Done, q, fl)"

section \<open>The two threads\<close>

text \<open>
  \<open>joining\<close> is set while the program's thread is blocked in \<open>uv_thread_join\<close>. \<open>accepted\<close> records
  the lines that entered the queue; the code has no such variable.
\<close>

record log_sys =
  queue :: log_queue
  writer :: writer
  joining :: bool
  log_file :: "string list"
  accepted :: "string list"
  reports :: "string list"

definition push_step :: "bool \<Rightarrow> string \<Rightarrow> log_sys \<Rightarrow> log_sys" where
  "push_step malloc_ok line s =
     (case log_queue_push malloc_ok line (queue s) of (q, out) \<Rightarrow>
        s\<lparr>queue := q, reports := reports s @ out,
          accepted := (if nodes q = nodes (queue s) then accepted s else accepted s @ [line])\<rparr>)"

definition writer_step :: "log_sys \<Rightarrow> log_sys" where
  "writer_step s =
     (case log_queue_worker (writer s) (queue s) (log_file s) of (pc, q, fl) \<Rightarrow>
        s\<lparr>writer := pc, queue := q, log_file := fl\<rparr>)"

text \<open>\<open>log_queue_shutdown\<close>: its critical section, and what follows the join.\<close>

definition shutdown_begin :: "log_sys \<Rightarrow> log_sys" where
  "shutdown_begin s = s\<lparr>queue := (queue s)\<lparr>running := False, fp := None\<rparr>, joining := True\<rparr>"

definition shutdown_end :: "log_sys \<Rightarrow> log_sys" where
  "shutdown_end s =
     s\<lparr>queue := (queue s)\<lparr>thread_started := False, initialized := False, nodes := [], node_count := 0\<rparr>,
       joining := False\<rparr>"

inductive log_step :: "log_sys \<Rightarrow> log_sys \<Rightarrow> bool" where
  log_push: "\<not> joining s \<Longrightarrow> log_step s (push_step m line s)"
| log_write: "thread_started (queue s) \<Longrightarrow> log_step s (writer_step s)"
| log_shutdown: "\<not> joining s \<Longrightarrow> initialized (queue s) \<Longrightarrow> log_step s (shutdown_begin s)"
| log_joined: "joining s \<Longrightarrow> writer s = Done \<Longrightarrow> log_step s (shutdown_end s)"

inductive log_reachable :: "log_sys \<Rightarrow> log_sys \<Rightarrow> bool" for s0 where
  log_reachable_init: "log_reachable s0 s0"
| log_reachable_step: "log_reachable s0 s \<Longrightarrow> log_step s s' \<Longrightarrow> log_reachable s0 s'"

inductive_cases log_stepE: "log_step s s'"

text \<open>
  \<open>log_queue_shutdown\<close> as the caller sees it: the join waits for the writer, which needs at most two
  steps per queued line and two more.
\<close>

definition log_queue_shutdown :: "log_sys \<Rightarrow> log_sys" where
  "log_queue_shutdown s =
     (if \<not> initialized (queue s) then s
      else let s = shutdown_begin s in
        shutdown_end
          (if thread_started (queue s)
           then (writer_step ^^ (2 * length (nodes (queue s)) + 2)) s else s))"

section \<open>The public functions\<close>

record logger =
  g_log_queue :: log_sys
  g_log_ready :: bool
  g_log_file_path :: string
  g_log_queue_max :: u64
  g_log_queue_warn :: u64
  g_process_type :: string
  g_process_name :: "string option"
  console :: "(bool \<times> string) list"

definition initial_logger :: logger where
  "initial_logger =
     \<lparr>g_log_queue = \<lparr>queue = zero_queue, writer = Done, joining = False, log_file = [], accepted = [],
        reports = []\<rparr>,
      g_log_ready = False, g_log_file_path = '''', g_log_queue_max = 10000, g_log_queue_warn = 8000,
      g_process_type = ''server'', g_process_name = None, console = []\<rparr>"

definition logger_init :: "string option \<Rightarrow> string option \<Rightarrow> logger \<Rightarrow> logger" where
  "logger_init process_type process_name g =
     (case process_type of None \<Rightarrow> g | Some t \<Rightarrow> g\<lparr>g_process_type := t\<rparr>)\<lparr>g_process_name := process_name\<rparr>"

text \<open>The product \<open>g_log_queue_max * 8\<close> wraps around at the width of \<open>size_t\<close>.\<close>

definition logger_set_queue_params :: "u64 \<Rightarrow> u64 \<Rightarrow> logger \<Rightarrow> logger" where
  "logger_set_queue_params max_arg warn_arg g =
     (if \<not> g_log_ready g then
        let mx = (if 0 < max_arg then max_arg else 10000);
            wt = (if 0 < warn_arg then warn_arg else 8000) in
        g\<lparr>g_log_queue_max := mx, g_log_queue_warn := (if mx < wt then mx * 8 div 10 else wt)\<rparr>
      else g)"

definition log_line :: "log_env \<Rightarrow> int \<Rightarrow> string \<Rightarrow> string" where
  "log_line env level message =
     fit 2048 (''['' @ format_timestamp 32 (clock env) (localtime env) @ ''] ['' @
       logger_level_to_string level @ ''] '' @ message @ [CHR 0x0A])"

text \<open>Initialising the queue starts its thread.\<close>

definition logger_prepare :: "log_env \<Rightarrow> logger \<Rightarrow> logger" where
  "logger_prepare env g =
     (case init_log_paths env (g_process_name g) (g_process_type g) of (r, path) \<Rightarrow>
        let g = g\<lparr>g_log_file_path := path\<rparr> in
        if r \<noteq> 0 then g\<lparr>g_log_ready := False\<rparr>
        else case log_queue_init env (g_log_queue_max g) (g_log_queue_warn g) path
                    (queue (g_log_queue g)) of (r, q) \<Rightarrow>
          g\<lparr>g_log_queue := (g_log_queue g)
              \<lparr>queue := q,
               writer := (if thread_started q \<and> \<not> thread_started (queue (g_log_queue g))
                          then Starting else writer (g_log_queue g))\<rparr>,
            g_log_ready := (r = 0)\<rparr>)"

definition logger_write :: "log_env \<Rightarrow> int \<Rightarrow> string \<Rightarrow> logger \<Rightarrow> logger" where
  "logger_write env level message g =
     (let line = log_line env level message;
          g = g\<lparr>console := console g @ [(LOG_LEVEL_ERROR \<le> level, line)]\<rparr>;
          g = (if \<not> g_log_ready g then logger_prepare env g else g) in
      if g_log_ready g
      then g\<lparr>g_log_queue := push_step (node_malloc env) line (g_log_queue g)\<rparr>
      else g)"

definition logger_shutdown :: "logger \<Rightarrow> logger" where
  "logger_shutdown g = g\<lparr>g_log_queue := log_queue_shutdown (g_log_queue g), g_log_ready := False\<rparr>"

text \<open>\<open>lua_log\<close> of \<open>ge/src/lua_bindings.c\<close>: with one argument the level is \<open>info\<close>.\<close>

definition lua_log :: "log_env \<Rightarrow> string list \<Rightarrow> logger \<Rightarrow> logger option" where
  "lua_log env args g =
     (case args of
        [] \<Rightarrow> None
      | [msg] \<Rightarrow> Some (logger_write env (logger_parse_level (Some ''info'')) msg g)
      | level_str # msg # _ \<Rightarrow> Some (logger_write env (logger_parse_level (Some level_str)) msg g))"

end
