(* ===== verification/Logger_Facts.thy ===== *)
theory Logger_Facts
  imports Logger "HOL-Library.Sublist"
begin

text \<open>
  Lemmas on the logger: the phases of the queue and the invariant of each, that the writer drains
  the queue and ends after a shutdown (two interpretations of \<open>countdown\<close>), and what the public
  functions leave in the queue.
\<close>

section \<open>Phases of the queue\<close>

text \<open>The line the writer has taken from the queue and will write.\<close>

fun in_flight :: "writer \<Rightarrow> string list" where
  "in_flight (Writing line f still_running) = (if f \<noteq> None \<and> still_running then [line] else [])"
| "in_flight Starting = []"
| "in_flight Waiting = []"
| "in_flight Relocking = []"
| "in_flight Done = []"

definition counted :: "log_queue \<Rightarrow> bool" where
  "counted q \<longleftrightarrow> unat (node_count q) = length (nodes q) \<and> node_count q \<le> max_count q"

definition log_open :: "log_sys \<Rightarrow> bool" where
  "log_open s \<longleftrightarrow> counted (queue s) \<and> initialized (queue s) \<and> running (queue s) \<and>
     fp (queue s) \<noteq> None \<and> thread_started (queue s) \<and> \<not> joining s \<and> writer s \<noteq> Done \<and>
     (\<forall>l f r. writer s = Writing l f r \<longrightarrow> f \<noteq> None \<and> r) \<and>
     accepted s = log_file s @ in_flight (writer s) @ nodes (queue s)"

definition log_closing :: "string list \<Rightarrow> log_sys \<Rightarrow> bool" where
  "log_closing written s \<longleftrightarrow> counted (queue s) \<and> initialized (queue s) \<and> \<not> running (queue s) \<and>
     fp (queue s) = None \<and> thread_started (queue s) \<and> joining s \<and>
     (writer s = Done \<longrightarrow> nodes (queue s) = []) \<and>
     log_file s @ in_flight (writer s) = written \<and> prefix written (accepted s)"

definition log_closed :: "log_sys \<Rightarrow> bool" where
  "log_closed s \<longleftrightarrow> nodes (queue s) = [] \<and> node_count (queue s) = 0 \<and> \<not> initialized (queue s) \<and> \<not> running (queue s) \<and>
     \<not> thread_started (queue s) \<and> \<not> joining s \<and> writer s = Done \<and> prefix (log_file s) (accepted s)"

lemmas log_phases = log_open_def log_closing_def log_closed_def counted_def

section \<open>Pushing\<close>

lemma counted_room:
  assumes "counted q" shows "max_count q \<le> node_count q \<longleftrightarrow> length (nodes q) = unat (max_count q)"
  using assms by (auto simp: counted_def word_le_nat_alt)

lemma push_open:
  assumes "log_open s"
  shows "log_open (push_step m line s)"
    and "accepted (push_step m line s) =
      (if m \<and> length (nodes (queue s)) < unat (max_count (queue s))
       then accepted s @ [line] else accepted s)"
    and "nodes (queue (push_step m line s)) =
      (if m \<and> length (nodes (queue s)) < unat (max_count (queue s))
       then nodes (queue s) @ [line] else nodes (queue s))"
    and "log_file (push_step m line s) = log_file s" "writer (push_step m line s) = writer s"
    and "max_count (queue (push_step m line s)) = max_count (queue s)"
proof -
  have le: "length (nodes (queue s)) \<le> unat (max_count (queue s))"
    using assms by (auto simp: log_phases word_le_nat_alt)
  have full: "max_count (queue s) \<le> node_count (queue s) \<longleftrightarrow>
      \<not> length (nodes (queue s)) < unat (max_count (queue s))"
    using counted_room [of "queue s"] le assms by (auto simp: log_open_def)
  have inc: "unat (node_count (queue s) + 1) = Suc (length (nodes (queue s)))"
      "node_count (queue s) + 1 \<le> max_count (queue s)"
    if "length (nodes (queue s)) < unat (max_count (queue s))"
  proof -
    have n: "unat (node_count (queue s)) = length (nodes (queue s))"
      using assms by (simp add: log_phases)
    have "unat (node_count (queue s)) < unat (max_count (queue s))" using that n by simp
    moreover have "unat (max_count (queue s)) < 2 ^ LENGTH(64)" by (rule unsigned_less)
    ultimately have "unat (node_count (queue s)) + 1 < 2 ^ 64" by simp
    then show u: "unat (node_count (queue s) + 1) = Suc (length (nodes (queue s)))"
      using n by (simp add: unat_word_ariths)
    show "node_count (queue s) + 1 \<le> max_count (queue s)"
      using u that by (simp add: word_le_nat_alt)
  qed
  show "log_open (push_step m line s)"
    using assms full inc by (auto simp: log_phases push_step_def log_queue_push_def Let_def)
  show "accepted (push_step m line s) =
      (if m \<and> length (nodes (queue s)) < unat (max_count (queue s))
       then accepted s @ [line] else accepted s)"
    and "nodes (queue (push_step m line s)) =
      (if m \<and> length (nodes (queue s)) < unat (max_count (queue s))
       then nodes (queue s) @ [line] else nodes (queue s))"
    and "log_file (push_step m line s) = log_file s" "writer (push_step m line s) = writer s"
    and "max_count (queue (push_step m line s)) = max_count (queue s)"
    using assms full by (auto simp: log_phases push_step_def log_queue_push_def Let_def)
qed

section \<open>The writer\<close>

definition writer_rank :: "log_sys \<Rightarrow> nat" where
  "writer_rank s =
     (let n = length (nodes (queue s)) in
      case writer s of
        Starting \<Rightarrow> 2 * n + 1
      | Waiting \<Rightarrow> if n = 0 \<and> running (queue s) then 0 else 2 * n + 1
      | Writing l f r \<Rightarrow> 2 * n + 2
      | Relocking \<Rightarrow> 2 * n + 1
      | Done \<Rightarrow> 0)"

lemma writer_rank_le: "writer_rank s \<le> 2 * length (nodes (queue s)) + 2"
  by (simp add: writer_rank_def Let_def split: writer.splits)

lemmas writer_simps = writer_step_def worker_outer_def worker_inner_def take_node_def

lemma take_node_counted:
  assumes "unat (n :: u64) = length xs" "n \<le> m" "xs \<noteq> []"
  shows "unat (n - 1) = length (tl xs)" "n - 1 \<le> m"
proof -
  have pos: "0 < n" using assms by (cases xs) (auto simp: word_less_nat_alt)
  then show u: "unat (n - 1) = length (tl xs)" using assms by (simp add: unat_minus_one)
  show "n - 1 \<le> m" using u assms by (cases xs) (simp_all add: word_le_nat_alt)
qed

interpretation drain: countdown writer_step log_open writer_rank
proof
  fix s :: log_sys
  assume s: "log_open s"
  note n = take_node_counted [of "node_count (queue s)" "nodes (queue s)" "max_count (queue s)"]
  show "log_open (writer_step s)"
    using s n by (cases "writer s"; cases "nodes (queue s)") (auto simp: log_phases writer_simps)
  show "writer_rank (writer_step s) < writer_rank s" if "0 < writer_rank s"
    using s that by (cases "writer s"; cases "nodes (queue s)")
      (auto simp: log_phases writer_simps writer_rank_def)
  show "writer_rank (writer_step s) = 0" if "writer_rank s = 0"
    using s that by (cases "writer s"; cases "nodes (queue s)")
      (auto simp: log_phases writer_simps writer_rank_def)
qed

interpretation finish: countdown writer_step "log_closing written" writer_rank for written
proof
  fix s :: log_sys
  assume s: "log_closing written s"
  note n = take_node_counted [of "node_count (queue s)" "nodes (queue s)" "max_count (queue s)"]
  show "log_closing written (writer_step s)"
    using s n by (cases "writer s"; cases "nodes (queue s)") (auto simp: log_phases writer_simps)
  show "writer_rank (writer_step s) < writer_rank s" if "0 < writer_rank s"
    using s that by (cases "writer s"; cases "nodes (queue s)")
      (auto simp: log_phases writer_simps writer_rank_def)
  show "writer_rank (writer_step s) = 0" if "writer_rank s = 0"
    using s that by (cases "writer s"; cases "nodes (queue s)")
      (auto simp: log_phases writer_simps writer_rank_def)
qed

lemma rank_zero_open: "log_open s \<Longrightarrow> writer_rank s = 0 \<Longrightarrow> writer s = Waiting \<and> nodes (queue s) = []"
  by (auto simp: writer_rank_def log_phases Let_def split: writer.splits if_splits)

lemma rank_zero_closing: "log_closing written s \<Longrightarrow> writer_rank s = 0 \<Longrightarrow> writer s = Done"
  by (auto simp: writer_rank_def log_phases Let_def split: writer.splits if_splits)

text \<open>While the program only waits, the writer puts every accepted line into the file.\<close>

lemma accepted_writer_step: "accepted (writer_step s) = accepted s"
  by (simp add: writer_step_def split: prod.split)

lemma accepted_writer_steps: "accepted ((writer_step ^^ n) s) = accepted s"
  by (induction n) (simp_all add: accepted_writer_step)

lemma writer_drains:
  assumes "log_open s" and "2 * length (nodes (queue s)) + 2 \<le> n"
  shows "log_file ((writer_step ^^ n) s) = accepted s \<and> writer ((writer_step ^^ n) s) = Waiting \<and>
    nodes (queue ((writer_step ^^ n) s)) = []"
proof -
  let ?s = "(writer_step ^^ n) s"
  have o: "log_open ?s" by (rule drain.iterate_inv [OF assms(1)])
  have "writer_rank ?s = 0"
    by (rule drain.settles [OF assms(1) order.trans [OF writer_rank_le assms(2)]])
  then have z: "writer ?s = Waiting" "nodes (queue ?s) = []" using rank_zero_open [OF o] by blast+
  have "accepted ?s = log_file ?s @ in_flight (writer ?s) @ nodes (queue ?s)"
    using o unfolding log_open_def by blast
  then show ?thesis using z accepted_writer_steps [of n s] by simp
qed

text \<open>A shutdown ends with the line in flight: what is still queued never reaches the file.\<close>

lemma shutdown_begins: "log_open s \<Longrightarrow> log_closing (log_file s @ in_flight (writer s)) (shutdown_begin s)"
  by (auto simp: log_phases shutdown_begin_def)

lemma shutdown_ends: "log_closing written s \<Longrightarrow> writer s = Done \<Longrightarrow> log_closed (shutdown_end s)"
  by (auto simp: log_phases shutdown_end_def)

lemma log_queue_shutdown_open:
  assumes "log_open s"
  shows "log_closed (log_queue_shutdown s)" and "accepted (log_queue_shutdown s) = accepted s"
    and "log_file (log_queue_shutdown s) = log_file s @ in_flight (writer s)"
proof -
  let ?b = "shutdown_begin s" and ?n = "2 * length (nodes (queue s)) + 2"
  let ?e = "(writer_step ^^ ?n) ?b"
  have b: "log_closing (log_file s @ in_flight (writer s)) ?b" by (rule shutdown_begins [OF assms])
  have e: "log_closing (log_file s @ in_flight (writer s)) ?e" by (rule finish.iterate_inv [OF b])
  have "writer_rank ?e = 0"
    by (rule finish.settles [OF b]) (use writer_rank_le [of ?b] in \<open>simp add: shutdown_begin_def\<close>)
  then have fin: "writer ?e = Done" using rank_zero_closing [OF e] by simp
  have eq: "log_queue_shutdown s = shutdown_end ?e"
    using assms by (simp add: log_queue_shutdown_def log_open_def shutdown_begin_def Let_def)
  show "log_closed (log_queue_shutdown s)" using shutdown_ends [OF e fin] eq by simp
  show "accepted (log_queue_shutdown s) = accepted s"
    using accepted_writer_steps [of ?n ?b] eq by (simp add: shutdown_end_def shutdown_begin_def)
  show "log_file (log_queue_shutdown s) = log_file s @ in_flight (writer s)"
    using e fin eq by (simp add: log_closing_def shutdown_end_def)
qed

section \<open>Every interleaving of the two threads\<close>

definition log_sys_ok :: "log_sys \<Rightarrow> bool" where
  "log_sys_ok s \<longleftrightarrow> log_open s \<or> (\<exists>written. log_closing written s) \<or> log_closed s"

lemma push_closed: "log_closed s \<Longrightarrow> push_step m line s = s"
  by (simp add: push_step_def log_queue_push_def log_closed_def)

lemma log_step_ok:
  assumes "log_sys_ok s" and "log_step s s'"
  shows "log_sys_ok s'"
  using assms(2)
proof cases
  case (log_push m line)
  then have "log_open s \<or> log_closed s" using assms(1) by (auto simp: log_sys_ok_def log_closing_def)
  then show ?thesis using log_push(1) push_open(1) [of s] push_closed [of s]
    by (auto simp: log_sys_ok_def)
next
  case log_write
  then have "log_open s \<or> (\<exists>x. log_closing x s)" using assms(1) by (auto simp: log_sys_ok_def log_closed_def)
  then show ?thesis using log_write(1) drain.step_inv [of s] finish.step_inv [of _ s]
    by (auto simp: log_sys_ok_def)
next
  case log_shutdown
  then have "log_open s" using assms(1) by (auto simp: log_sys_ok_def log_closed_def log_closing_def)
  then show ?thesis using log_shutdown(1) shutdown_begins [of s] by (auto simp: log_sys_ok_def)
next
  case log_joined
  then obtain x where "log_closing x s"
    using assms(1) by (auto simp: log_sys_ok_def log_closed_def log_open_def)
  then show ?thesis using log_joined shutdown_ends [of x s] by (auto simp: log_sys_ok_def)
qed

lemma log_reachable_ok: "log_reachable s0 s \<Longrightarrow> log_sys_ok s0 \<Longrightarrow> log_sys_ok s"
  by (induction rule: log_reachable.induct) (auto intro: log_step_ok)

lemma log_sys_ok_facts:
  assumes "log_sys_ok s"
  shows "unat (node_count (queue s)) = length (nodes (queue s))"
    and "prefix (log_file s) (accepted s)"
  using assms by (auto simp: log_sys_ok_def log_phases prefix_def)

section \<open>The public functions\<close>

definition env_works :: "log_env \<Rightarrow> bool" where
  "env_works env \<longleftrightarrow> (\<forall>p. mkdir_rc env p = 0) \<and> mutex_rc env = 0 \<and> cond_not_empty_rc env = 0 \<and>
     cond_not_full_rc env = 0 \<and> fopen_ok env \<and> thread_rc env = 0 \<and> node_malloc env"

definition logger_idle :: "logger \<Rightarrow> bool" where
  "logger_idle g \<longleftrightarrow> \<not> g_log_ready g \<and> log_closed (g_log_queue g) \<and> 0 < g_log_queue_max g \<and>
     accepted (g_log_queue g) = log_file (g_log_queue g)"

lemma initial_logger_idle: "logger_idle initial_logger"
  by (simp add: logger_idle_def initial_logger_def log_closed_def zero_queue_def)

lemma logger_prepare_works:
  assumes "env_works env" and "logger_idle g"
  shows "g_log_ready (logger_prepare env g)" and "log_open (g_log_queue (logger_prepare env g))"
    and "nodes (queue (g_log_queue (logger_prepare env g))) = []"
    and "max_count (queue (g_log_queue (logger_prepare env g))) = g_log_queue_max g"
    and "accepted (g_log_queue (logger_prepare env g)) = accepted (g_log_queue g)"
    and "log_file (g_log_queue (logger_prepare env g)) = log_file (g_log_queue g)"
    and "writer (g_log_queue (logger_prepare env g)) = Starting"
    and "console (logger_prepare env g) = console g"
  using assms
  by (auto simp: logger_prepare_def log_queue_init_def init_log_paths_def ensure_directory_def
      env_works_def logger_idle_def log_phases Let_def)

definition logger_active :: "logger \<Rightarrow> bool" where
  "logger_active g \<longleftrightarrow> g_log_ready g \<and> log_open (g_log_queue g)"

text \<open>A log call: what the system answers, the level, the message.\<close>

abbreviation write_all :: "(log_env \<times> int \<times> string) list \<Rightarrow> logger \<Rightarrow> logger" where
  "write_all \<equiv> fold (\<lambda>(env, level, message). logger_write env level message)"

abbreviation lines_of :: "(log_env \<times> int \<times> string) list \<Rightarrow> string list" where
  "lines_of \<equiv> map (\<lambda>(env, level, message). log_line env level message)"

lemma logger_write_active:
  assumes "env_works env" and "logger_active g"
    and "length (nodes (queue (g_log_queue g))) < unat (max_count (queue (g_log_queue g)))"
  shows "logger_active (logger_write env level msg g)"
    and "accepted (g_log_queue (logger_write env level msg g)) =
      accepted (g_log_queue g) @ [log_line env level msg]"
    and "nodes (queue (g_log_queue (logger_write env level msg g))) =
      nodes (queue (g_log_queue g)) @ [log_line env level msg]"
    and "max_count (queue (g_log_queue (logger_write env level msg g))) =
      max_count (queue (g_log_queue g))"
    and "log_file (g_log_queue (logger_write env level msg g)) = log_file (g_log_queue g)"
    and "writer (g_log_queue (logger_write env level msg g)) = writer (g_log_queue g)"
    and "console (logger_write env level msg g) =
      console g @ [(LOG_LEVEL_ERROR \<le> level, log_line env level msg)]"
proof -
  have o: "log_open (g_log_queue g)" and m: "node_malloc env"
    using assms by (simp_all add: logger_active_def env_works_def)
  note p = push_open [OF o, of True "log_line env level msg"]
  have eq: "logger_write env level msg g =
    g\<lparr>console := console g @ [(LOG_LEVEL_ERROR \<le> level, log_line env level msg)],
      g_log_queue := push_step True (log_line env level msg) (g_log_queue g)\<rparr>"
    using assms(2) m by (simp add: logger_write_def logger_active_def Let_def)
  show "logger_active (logger_write env level msg g)"
    using assms(2) p(1) by (simp add: eq logger_active_def)
qed (use assms push_open [of "g_log_queue g" True "log_line env level msg"] in
    \<open>simp_all add: logger_write_def logger_active_def Let_def env_works_def\<close>)

lemma write_all_active:
  assumes "\<forall>(env, level, msg) \<in> set calls. env_works env" and "logger_active g"
    and "length (nodes (queue (g_log_queue g))) + length calls
      \<le> unat (max_count (queue (g_log_queue g)))"
  shows "logger_active (write_all calls g) \<and>
    accepted (g_log_queue (write_all calls g)) = accepted (g_log_queue g) @ lines_of calls \<and>
    nodes (queue (g_log_queue (write_all calls g))) = nodes (queue (g_log_queue g)) @ lines_of calls \<and>
    log_file (g_log_queue (write_all calls g)) = log_file (g_log_queue g) \<and>
    writer (g_log_queue (write_all calls g)) = writer (g_log_queue g)"
  using assms
proof (induction calls arbitrary: g)
  case (Cons call calls)
  obtain env level msg where call: "call = (env, level, msg)" by (cases call)
  have e: "env_works env" using Cons.prems(1) call by simp
  have room: "length (nodes (queue (g_log_queue g))) < unat (max_count (queue (g_log_queue g)))"
    using Cons.prems(3) by simp
  note w = logger_write_active [OF e Cons.prems(2) room, of level msg]
  show ?case using Cons.IH [OF _ w(1)] Cons.prems w call by simp
qed simp

text \<open>The first call prepares the queue.\<close>

lemma logger_write_prepares:
  assumes "env_works env" and "logger_idle g"
  shows "logger_write env level msg g = logger_write env level msg (logger_prepare env g)
      \<lparr>console := console g @ [(LOG_LEVEL_ERROR \<le> level, log_line env level msg)]\<rparr>"
    and "logger_active (logger_prepare env g)"
proof -
  have r: "g_log_ready (logger_prepare env g)" by (rule logger_prepare_works(1) [OF assms])
  show "logger_active (logger_prepare env g)"
    using logger_prepare_works(1,2) [OF assms] by (simp add: logger_active_def)
  have "logger_prepare env (g\<lparr>console := c\<rparr>) = (logger_prepare env g)\<lparr>console := c\<rparr>" for c
    by (simp add: logger_prepare_def Let_def split: prod.split)
  then show "logger_write env level msg g = logger_write env level msg (logger_prepare env g)
      \<lparr>console := console g @ [(LOG_LEVEL_ERROR \<le> level, log_line env level msg)]\<rparr>"
    using r assms(2) by (simp add: logger_write_def Let_def logger_idle_def)
qed

lemma write_all_idle:
  assumes "\<forall>(env, level, msg) \<in> set calls. env_works env" and "logger_idle g" and "calls \<noteq> []"
    and "length calls \<le> unat (g_log_queue_max g)"
  shows "logger_active (write_all calls g) \<and>
    accepted (g_log_queue (write_all calls g)) = accepted (g_log_queue g) @ lines_of calls \<and>
    nodes (queue (g_log_queue (write_all calls g))) = lines_of calls \<and>
    log_file (g_log_queue (write_all calls g)) = log_file (g_log_queue g) \<and>
    writer (g_log_queue (write_all calls g)) = Starting"
proof (cases calls)
  case (Cons call rest)
  obtain env level msg where call: "call = (env, level, msg)" by (cases call)
  have e: "env_works env" using assms(1) call Cons by simp
  let ?p = "logger_prepare env g"
  note p = logger_prepare_works [OF e assms(2)] and q = logger_write_prepares [OF e assms(2)]
  have room: "length (nodes (queue (g_log_queue ?p))) < unat (max_count (queue (g_log_queue ?p)))"
    using p(3,4) assms(4) Cons by simp
  note w = logger_write_active [OF e q(2) room, of level msg]
  have a: "logger_active (logger_write env level msg g)"
    using w(1) by (simp add: q(1) logger_active_def)
  show ?thesis
    using write_all_active [of rest, OF _ a] assms(1,4) w p Cons call
    by (simp add: q(1))
qed (use assms in simp)

end
