(* ===== verification/Logger_Props.thy ===== *)
theory Logger_Props
  imports Logger_Facts
begin

text \<open>
  What the logger promises: levels, lines, paths and thresholds, the order of the file under every
  interleaving with the writer thread, and what a shutdown keeps.
\<close>

text \<open>An environment in which everything works, for concrete runs.\<close>

definition demo_env :: log_env where
  "demo_env =
     \<lparr>clock = Some (5, 42000000),
      localtime = (\<lambda>_. Some \<lparr>tm_year = 125, tm_mon = 0, tm_mday = 2, tm_hour = 3, tm_min = 4, tm_sec = 5\<rparr>),
      exepath = Some ''/srv/gear/bin/ge'', cwd = Some ''/'', mkdir_rc = (\<lambda>_. 0), mutex_rc = 0,
      cond_not_empty_rc = 0, cond_not_full_rc = 0, fopen_ok = True, thread_rc = 0, node_malloc = True\<rparr>"

lemma demo_env_works: "env_works demo_env"
  by (simp add: env_works_def demo_env_def)

section \<open>The order of the log file\<close>

text \<open>
  C7. Whatever the interleaving of log calls, of the writer thread and of a shutdown, the log file
  holds a prefix of the lines the queue accepted, in order and without duplicates or gaps; until the shutdown
  the accepted lines are exactly those in the file, the one the writer holds and those in the
  queue; and the counter \<open>count\<close> is the length of the queue, which never passes its maximum.
\<close>

theorem log_file_in_order:
  assumes "env_works env"
    and "log_reachable (g_log_queue (logger_write env level msg initial_logger)) s"
  shows "prefix (log_file s) (accepted s) \<and>
    unat (node_count (queue s)) = length (nodes (queue s)) \<and>
    length (nodes (queue s)) \<le> unat (max_count (queue s)) \<and>
    (running (queue s) \<longrightarrow> accepted s = log_file s @ in_flight (writer s) @ nodes (queue s))"
proof -
  have "logger_active (logger_write env level msg initial_logger)"
    using write_all_idle [OF _ initial_logger_idle, of "[(env, level, msg)]"] assms(1)
    by (simp add: initial_logger_def)
  then have "log_sys_ok (g_log_queue (logger_write env level msg initial_logger))"
    by (simp add: logger_active_def log_sys_ok_def)
  then have ok: "log_sys_ok s" by (rule log_reachable_ok [OF assms(2)])
  have "length (nodes (queue s)) \<le> unat (max_count (queue s))"
    using ok by (auto simp: log_sys_ok_def log_phases word_le_nat_alt)
  moreover have "log_open s" if "running (queue s)"
    using ok that by (auto simp: log_sys_ok_def log_closing_def log_closed_def)
  then have "running (queue s) \<longrightarrow> accepted s = log_file s @ in_flight (writer s) @ nodes (queue s)"
    by (simp add: log_open_def)
  ultimately show ?thesis using log_sys_ok_facts [OF ok] by simp
qed

theorem log_file_in_order_witness:
  "\<exists>s. log_reachable (g_log_queue (logger_write demo_env 1 ''up'' initial_logger)) s \<and>
     \<not> running (queue s) \<and> prefix (log_file s) (accepted s)"
proof -
  let ?s0 = "g_log_queue (logger_write demo_env 1 ''up'' initial_logger)"
  have "log_open ?s0"
    using write_all_idle [OF _ initial_logger_idle, of "[(demo_env, 1, ''up'')]"] demo_env_works
    by (simp add: initial_logger_def logger_active_def)
  then have "log_step ?s0 (shutdown_begin ?s0)"
    by (intro log_shutdown) (simp_all add: log_open_def)
  then have r: "log_reachable ?s0 (shutdown_begin ?s0)"
    by (rule log_reachable_step [OF log_reachable_init])
  show ?thesis
    using r log_file_in_order [OF demo_env_works r]
    by (intro exI [of _ "shutdown_begin ?s0"]) (simp add: shutdown_begin_def)
qed

text \<open>
  C21. If everything works, every line given to the logger while the queue has room is printed
  and reaches the file: after at most two steps of the writer per line and two more, the file holds exactly the
  lines of all calls, in order, each one time, and the writer waits.
\<close>

theorem logger_writes_every_line:
  assumes "\<forall>(env, level, msg) \<in> set calls. env_works env" and "calls \<noteq> []"
    and "length calls \<le> 10000" and "2 * length calls + 2 \<le> n"
  shows "log_file ((writer_step ^^ n) (g_log_queue (write_all calls initial_logger))) = lines_of calls \<and>
    writer ((writer_step ^^ n) (g_log_queue (write_all calls initial_logger))) = Waiting"
proof -
  have i: "accepted (g_log_queue initial_logger) = []" "unat (g_log_queue_max initial_logger) = 10000"
    by (simp_all add: initial_logger_def)
  note w = write_all_idle [OF assms(1) initial_logger_idle assms(2)]
  have "log_open (g_log_queue (write_all calls initial_logger))"
    and "nodes (queue (g_log_queue (write_all calls initial_logger))) = lines_of calls"
    and "accepted (g_log_queue (write_all calls initial_logger)) = lines_of calls"
    using w assms(3) i by (simp_all add: logger_active_def)
  then show ?thesis
    using writer_drains [of "g_log_queue (write_all calls initial_logger)" n] assms(4) by simp
qed

theorem logger_writes_every_line_witness:
  "log_file ((writer_step ^^ 6) (g_log_queue (write_all [(demo_env, 1, ''a''), (demo_env, 3, ''b'')]
     initial_logger))) =
   [''[2025-01-02 03:04:05.042] [INFO] a'' @ [CHR 0x0A],
    ''[2025-01-02 03:04:05.042] [ERROR] b'' @ [CHR 0x0A]]"
proof -
  have l: "log_line demo_env 1 ''a'' = ''[2025-01-02 03:04:05.042] [INFO] a'' @ [CHR 0x0A]"
    "log_line demo_env 3 ''b'' = ''[2025-01-02 03:04:05.042] [ERROR] b'' @ [CHR 0x0A]"
    by code_simp+
  show ?thesis
    using logger_writes_every_line [of "[(demo_env, 1, ''a''), (demo_env, 3, ''b'')]" 6]
      demo_env_works by (simp only: l list.map prod.case) simp
qed

section \<open>Shutdown\<close>

text \<open>
  C33. \<open>logger_shutdown\<close> returns: the writer thread ends within two steps per queued line and two
  more, and the queue is left empty and uninitialised. But it does not flush what is pending, as
  \<open>logger.h\<close> says: the writer drops the lines still queued, and after calls whose lines it had no
  time to write the file holds none of them.
\<close>

theorem logger_shutdown_drops_pending:
  assumes "\<forall>(env, level, msg) \<in> set calls. env_works env" and "calls \<noteq> []"
    and "length calls \<le> 10000"
    and "s = (writer_step ^^ k) (g_log_queue (write_all calls initial_logger))"
  shows "writer (log_queue_shutdown s) = Done \<and> nodes (queue (log_queue_shutdown s)) = [] \<and>
    \<not> initialized (queue (log_queue_shutdown s)) \<and>
    lines_of calls = log_file (log_queue_shutdown s) @ nodes (queue s) \<and>
    (k = 0 \<longrightarrow> log_file (log_queue_shutdown s) = [])"
proof -
  let ?s0 = "g_log_queue (write_all calls initial_logger)"
  have i: "accepted (g_log_queue initial_logger) = []" "log_file (g_log_queue initial_logger) = []"
    "unat (g_log_queue_max initial_logger) = 10000"
    by (simp_all add: initial_logger_def)
  have w: "log_open ?s0" "accepted ?s0 = lines_of calls" "log_file ?s0 = []" "writer ?s0 = Starting"
    using write_all_idle [OF assms(1) initial_logger_idle assms(2)] assms(3) i
    by (simp_all add: logger_active_def)
  have o: "log_open s" unfolding assms(4) by (rule drain.iterate_inv [OF w(1)])
  have "accepted s = lines_of calls" using accepted_writer_steps [of k ?s0] w(2) assms(4) by simp
  then have "lines_of calls = log_file (log_queue_shutdown s) @ nodes (queue s)"
    using o log_queue_shutdown_open(3) [OF o] by (simp add: log_open_def)
  moreover have "log_file (log_queue_shutdown s) = []" if "k = 0"
    using log_queue_shutdown_open(3) [OF o] w(3,4) assms(4) that by simp
  ultimately show ?thesis
    using log_queue_shutdown_open(1) [OF o] by (simp add: log_closed_def)
qed

theorem logger_shutdown_drops_pending_witness:
  "log_file (log_queue_shutdown
     (g_log_queue (write_all [(demo_env, 4, ''out of memory'')] initial_logger))) = []"
  using logger_shutdown_drops_pending [of "[(demo_env, 4, ''out of memory'')]" _ 0] demo_env_works
  by simp

section \<open>Levels\<close>

text \<open>The chain of comparisons, with the five names of the levels as parameters.\<close>

definition level_of :: "string \<Rightarrow> string \<Rightarrow> string \<Rightarrow> string \<Rightarrow> string \<Rightarrow> string \<Rightarrow> int" where
  "level_of d i w e f t =
     (if t = d then 0 else if t = i then 1 else if t = w then 2 else if t = e then 3
      else if t = f then 4 else 1)"

lemma level_of_names:
  assumes "distinct [d, i, w, e, f]"
  shows "level_of d i w e f d = 0" "level_of d i w e f i = 1" "level_of d i w e f w = 2"
    "level_of d i w e f e = 3" "level_of d i w e f f = 4"
    "level_of d i w e f t = 0 \<longleftrightarrow> t = d" "level_of d i w e f t = 2 \<longleftrightarrow> t = w"
    "level_of d i w e f t = 3 \<longleftrightarrow> t = e" "level_of d i w e f t = 4 \<longleftrightarrow> t = f"
  using assms by (auto simp: level_of_def)

abbreviation level_name :: "string \<Rightarrow> int" where
  "level_name \<equiv> level_of ''debug'' ''info'' ''warn'' ''error'' ''fatal''"

lemma lower_names:
  "map tolower ''debug'' = ''debug''" "map tolower ''info'' = ''info''"
  "map tolower ''warn'' = ''warn''" "map tolower ''error'' = ''error''"
  "map tolower ''fatal'' = ''fatal''" "map tolower ''DEBUG'' = ''debug''"
  "map tolower ''INFO'' = ''info''" "map tolower ''WARN'' = ''warn''"
  "map tolower ''ERROR'' = ''error''" "map tolower ''FATAL'' = ''fatal''"
  by code_simp+

lemma parse_level_name: "logger_parse_level (Some s) = level_name (map tolower s)"
  by (simp only: logger_parse_level_def equals_ignore_case_def prod.case option.case
      equals_loop_map level_of_def lower_names log_levels option.distinct if_False)

lemma distinct_names: "distinct [''debug'', ''info'', ''warn'', ''error'', ''fatal'']"
  by code_simp

lemmas level_names = level_of_names [OF distinct_names]

lemma level_strings:
  "logger_level_to_string 0 = ''DEBUG''" "logger_level_to_string 1 = ''INFO''"
  "logger_level_to_string 2 = ''WARN''" "logger_level_to_string 3 = ''ERROR''"
  "logger_level_to_string 4 = ''FATAL''"
  by (simp_all add: logger_level_to_string_def log_levels)

text \<open>
  Level names are parsed whatever their case, and back: a string is read as the level DEBUG,
  WARN, ERROR or FATAL exactly when it is that level's name up to case, and as INFO in every other
  case, the null pointer included.
\<close>

theorem level_names_round_trip:
  "logger_parse_level None = LOG_LEVEL_INFO \<and>
   (l \<in> {LOG_LEVEL_DEBUG, LOG_LEVEL_WARN, LOG_LEVEL_ERROR, LOG_LEVEL_FATAL} \<longrightarrow>
      (logger_parse_level (Some s) = l \<longleftrightarrow> map tolower s = map tolower (logger_level_to_string l))) \<and>
   (\<not> (\<exists>k \<in> {LOG_LEVEL_DEBUG, LOG_LEVEL_WARN, LOG_LEVEL_ERROR, LOG_LEVEL_FATAL}.
      map tolower s = map tolower (logger_level_to_string k)) \<longrightarrow>
      logger_parse_level (Some s) = LOG_LEVEL_INFO) \<and>
   logger_parse_level (Some (logger_level_to_string LOG_LEVEL_INFO)) = LOG_LEVEL_INFO"
proof -
  have n: "logger_parse_level None = 1" by (simp add: logger_parse_level_def log_levels)
  have r: "logger_parse_level (Some s) = l \<longleftrightarrow> map tolower s = map tolower (logger_level_to_string l)"
    if "l \<in> {0, 2, 3, 4}" for l
    using that unfolding insert_iff empty_iff
    by (elim disjE FalseE; hypsubst) (simp_all only: parse_level_name level_strings lower_names level_names)
  have i: "logger_parse_level (Some (logger_level_to_string 1)) = 1"
    by (simp only: parse_level_name level_strings lower_names level_names)
  have "logger_parse_level (Some s) \<in> {0, 1, 2, 3, 4}"
    unfolding parse_level_name level_of_def by simp
  then have o: "logger_parse_level (Some s) = 1"
    if "\<not> (\<exists>k \<in> {0, 2, 3, 4}. map tolower s = map tolower (logger_level_to_string k))"
    using r that by blast
  show ?thesis unfolding log_levels using n r o i by blast
qed

theorem level_names_round_trip_witness:
  "logger_parse_level (Some ''Warn'') = LOG_LEVEL_WARN \<and> logger_parse_level (Some ''warning'') = LOG_LEVEL_INFO"
proof -
  have "map tolower ''Warn'' = map tolower (logger_level_to_string LOG_LEVEL_WARN)" by code_simp
  moreover have "\<not> (\<exists>k \<in> {LOG_LEVEL_DEBUG, LOG_LEVEL_WARN, LOG_LEVEL_ERROR, LOG_LEVEL_FATAL}.
      map tolower ''warning'' = map tolower (logger_level_to_string k))" by code_simp
  ultimately show ?thesis
    using level_names_round_trip [of LOG_LEVEL_WARN "''Warn''"] level_names_round_trip [of _ "''warning''"]
    by blast
qed

section \<open>Thresholds\<close>

text \<open>
  C34. Whatever two numbers the configuration gives, 0 and values whose product with 8 wraps around
  included, the queue that is initialised from them has a positive capacity, a positive warning threshold
  no larger than it, the capacity asked for when that is positive; and the numbers have no effect
  once the logger is ready.
\<close>

theorem queue_thresholds_in_bounds:
  assumes "env_works env" and "\<not> g_log_ready g" and "\<not> initialized q"
    and "g' = logger_set_queue_params max_arg warn_arg g"
    and "log_queue_init env (g_log_queue_max g') (g_log_queue_warn g') path q = (r, q')"
  shows "r = 0 \<and> 0 < warn_threshold q' \<and> warn_threshold q' \<le> max_count q' \<and>
    max_count q' = (if 0 < max_arg then max_arg else 10000) \<and>
    (0 < warn_arg \<and> warn_arg \<le> max_count q' \<longrightarrow> warn_threshold q' = warn_arg) \<and>
    (g_log_ready h \<longrightarrow> logger_set_queue_params max_arg warn_arg h = h)"
proof -
  have q: "max_count q' = g_log_queue_max g'" "r = 0"
    "warn_threshold q' = (let w = (if 0 < g_log_queue_warn g' then g_log_queue_warn g' else 8000)
       in if g_log_queue_max g' < w then g_log_queue_max g' else w)"
    "0 < g_log_queue_max g'"
    using assms by (auto simp: log_queue_init_def env_works_def logger_set_queue_params_def Let_def
        split: if_splits)
  have m: "g_log_queue_max g' = (if 0 < max_arg then max_arg else 10000)"
    "0 < warn_arg \<Longrightarrow> warn_arg \<le> g_log_queue_max g' \<Longrightarrow> g_log_queue_warn g' = warn_arg"
    using assms(2) by (auto simp: assms(4) logger_set_queue_params_def Let_def)
  show ?thesis using q m assms(2) by (auto simp: Let_def logger_set_queue_params_def assms(4))
qed

theorem queue_thresholds_in_bounds_witness:
  "\<exists>q'. log_queue_init demo_env 1 0 ''log'' zero_queue = (0, q') \<and> max_count q' = 1 \<and> warn_threshold q' = 1"
proof -
  have w: "(8 :: u64) div 10 = 0" by code_simp
  let ?g = "logger_set_queue_params 1 3 initial_logger"
  have g: "g_log_queue_max ?g = 1" "g_log_queue_warn ?g = 0"
    using w by (simp_all add: logger_set_queue_params_def initial_logger_def Let_def)
  obtain r q' where q: "log_queue_init demo_env 1 0 ''log'' zero_queue = (r, q')" by fastforce
  have q2: "log_queue_init demo_env (g_log_queue_max ?g) (g_log_queue_warn ?g) ''log'' zero_queue = (r, q')"
    by (simp only: g q)
  have n: "\<not> g_log_ready initial_logger" "\<not> initialized zero_queue"
    by (simp_all add: initial_logger_def zero_queue_def)
  have "r = 0 \<and> 0 < warn_threshold q' \<and> warn_threshold q' \<le> max_count q' \<and>
      max_count q' = (if 0 < (1 :: u64) then 1 else 10000)"
    using queue_thresholds_in_bounds [OF demo_env_works n refl q2] by blast
  then have "r = 0" "0 < warn_threshold q'" "max_count q' = 1" "warn_threshold q' \<le> 1" by auto
  moreover have "x = 1" if "0 < x" "x \<le> 1" for x :: u64
    using that by (simp add: word_less_nat_alt word_le_nat_alt word_unat_eq_iff)
  ultimately have "r = 0" "max_count q' = 1" "warn_threshold q' = 1" by blast+
  then show ?thesis using q by blast
qed

section \<open>Lines and paths\<close>

text \<open>
  C35. A line never exceeds the buffer of 2048 bytes; it is the time, the level and the message, with the
  newline at its end, when these fit, and loses its newline, and the end of the message,
  otherwise; with a year of four digits the time takes 23 characters.
\<close>

theorem log_line_truncates:
  assumes "clock env = Some (sec, nsec)" and "0 \<le> nsec" and "nsec < 1000000000"
    and "localtime env sec = Some t" and "-1900 \<le> tm_year t" and "tm_year t < 8100"
    and "0 \<le> tm_mon t" and "tm_mon t \<le> 11" and "1 \<le> tm_mday t" and "tm_mday t \<le> 31"
    and "0 \<le> tm_hour t" and "tm_hour t \<le> 23" and "0 \<le> tm_min t" and "tm_min t \<le> 59"
    and "0 \<le> tm_sec t" and "tm_sec t \<le> 60"
    and "stamp = format_timestamp 32 (clock env) (localtime env)"
    and "label = logger_level_to_string level"
  shows "length stamp = 23 \<and> length (log_line env level msg) = min 2047 (30 + length label + length msg) \<and>
    parse_dec (drop 20 stamp) = nat (nsec div 1000000) \<and> parse_dec (take 4 stamp) = nat (tm_year t + 1900) \<and>
    (log_line env level msg = ''['' @ stamp @ ''] ['' @ label @ ''] '' @ msg @ [CHR 0x0A]
       \<longleftrightarrow> length label + length msg \<le> 2017)"
proof -
  have l: "length (dec_padded 4 (tm_year t + 1900)) = 4" "length (dec_padded 2 (tm_mon t + 1)) = 2"
    "length (dec_padded 2 (tm_mday t)) = 2" "length (dec_padded 2 (tm_hour t)) = 2"
    "length (dec_padded 2 (tm_min t)) = 2" "length (dec_padded 2 (tm_sec t)) = 2"
    "length (dec_padded 3 (nsec div 1000000)) = 3"
    using assms(2,3,5-16) by (simp_all add: dec_padded_length)
  have s: "stamp = dec_padded 4 (tm_year t + 1900) @ ''-'' @ dec_padded 2 (tm_mon t + 1) @ ''-'' @
      dec_padded 2 (tm_mday t) @ '' '' @ dec_padded 2 (tm_hour t) @ '':'' @
      dec_padded 2 (tm_min t) @ '':'' @ dec_padded 2 (tm_sec t) @ ''.'' @ dec_padded 3 (nsec div 1000000)"
    using l by (simp add: assms(17) format_timestamp_def assms(1,4) Let_def)
  have st: "length stamp = 23" using l by (simp add: s)
  have p: "parse_dec (drop 20 stamp) = nat (nsec div 1000000)"
    "parse_dec (take 4 stamp) = nat (tm_year t + 1900)"
    using l assms(2,5) by (simp_all add: s parse_dec_padded)
  let ?full = "''['' @ stamp @ ''] ['' @ label @ ''] '' @ msg @ [CHR 0x0A]"
  have full: "length ?full = 30 + length label + length msg" using st by simp
  have line: "log_line env level msg = take 2047 ?full"
    by (simp add: log_line_def fit_def assms(17,18))
  have "length (log_line env level msg) = min 2047 (30 + length label + length msg)"
    unfolding line length_take full by (simp add: min.commute)
  moreover have "take 2047 ?full = ?full \<longleftrightarrow> length ?full \<le> 2047"
    by (rule take_all_iff)
  then have "log_line env level msg = ?full \<longleftrightarrow> length label + length msg \<le> 2017"
    unfolding line full by simp
  ultimately show ?thesis using st p by simp
qed

theorem log_line_truncates_witness:
  "length (log_line demo_env LOG_LEVEL_INFO (replicate 3000 CHR ''x'')) = 2047"
  using log_line_truncates [of demo_env 5 42000000
      "\<lparr>tm_year = 125, tm_mon = 0, tm_mday = 2, tm_hour = 3, tm_min = 4, tm_sec = 5\<rparr>"
      _ _ LOG_LEVEL_INFO "replicate 3000 CHR ''x''"]
  by (simp add: demo_env_def)

text \<open>
  The path of the log file: for an executable two levels below the project root, it is
  log, type, name under the root, where the name is the process name, or the type when there is none (so a
  client logs to log/client/client/client.log); and the call fails exactly when one of the three directories neither exists nor can be made.
\<close>

theorem log_path_of_process:
  assumes "exepath env = Some (root @ slash # bin @ slash # exe)" and "no_sep bin" and "no_sep exe"
    and "length root < 1024" and "name = (case pname of Some n \<Rightarrow> n | None \<Rightarrow> ptype)"
    and "length root + length ptype < 1179" and "length root + length ptype + 2 * length name < 1205"
  shows "snd (init_log_paths env pname ptype) =
      root @ ''/log/'' @ ptype @ ''/'' @ name @ ''/'' @ name @ ''.log'' \<and>
    (fst (init_log_paths env pname ptype) = 0 \<longleftrightarrow>
      (\<forall>d \<in> {root @ ''/log'', root @ ''/log/'' @ ptype, root @ ''/log/'' @ ptype @ ''/'' @ name}.
         mkdir_rc env d \<in> {0, UV_EEXIST}))"
proof -
  have "get_project_root 1024 (exepath env) (cwd env) = root"
    using project_root_above [OF assms(2,3), of 1024 root "cwd env"] assms(1,4) by simp
  then show ?thesis
    using assms(4,6,7) by (simp add: init_log_paths_def Let_def assms(5) [symmetric] ensure_directory_def)
qed

theorem log_path_of_process_witness:
  "snd (init_log_paths demo_env None ''client'') = ''/srv/gear/log/client/client/client.log''"
  using log_path_of_process [of demo_env "''/srv/gear''" "''bin''" "''ge''" "''client''" "''client''" None]
  by (simp add: demo_env_def no_sep_def)

end
