(* ===== verification/Client_Log.thy ===== *)
theory Client_Log
  imports Logger_Facts
begin

text \<open>
  The client's own copy of the logger (\<open>ge/client/client_lua_bindings.c\<close>). It differs from the
  server's in three places: a log call waits while the queue is full instead of dropping the line,
  the writer does not look at \<open>running\<close> before it writes, and the shutdown keeps the file open
  until the writer has returned. The thresholds are constants and the path has no process name.

  The types of the queue and of the writer's positions are those of the server's logger, whose
  structure is the same; the third component of \<open>Writing\<close> is constantly true here.
\<close>

section \<open>Paths\<close>

definition c_ensure_directory :: "log_env \<Rightarrow> string \<Rightarrow> int" where
  "c_ensure_directory env path =
     (let r = mkdir_rc env path in if r = 0 \<or> r = UV_EEXIST then 0 else - 1)"

definition c_find_last_path_sep :: "string \<Rightarrow> nat option" where
  "c_find_last_path_sep path =
     (case (strrchr path slash, strrchr path backslash) of
        (None, b) \<Rightarrow> b
      | (Some s, None) \<Rightarrow> Some s
      | (Some s, Some b) \<Rightarrow> if b < s then Some s else Some b)"

definition c_get_project_root :: "nat \<Rightarrow> string option \<Rightarrow> string option \<Rightarrow> string" where
  "c_get_project_root buffer_size exe working =
     (let by_cwd = (case working of Some d \<Rightarrow> d | None \<Rightarrow> fit buffer_size ''.'') in
      case exe of
        None \<Rightarrow> by_cwd
      | Some exe_path \<Rightarrow>
          (case c_find_last_path_sep exe_path of
             None \<Rightarrow> by_cwd
           | Some last_sep \<Rightarrow>
               (let exe_path = take last_sep exe_path in
                case c_find_last_path_sep exe_path of
                  None \<Rightarrow> by_cwd
                | Some parent_sep \<Rightarrow> fit buffer_size (take parent_sep exe_path))))"

definition c_init_log_paths :: "log_env \<Rightarrow> nat \<Rightarrow> int \<times> string" where
  "c_init_log_paths env client_size =
     (let project_root = c_get_project_root 1024 (exepath env) (cwd env);
          log_dir = fit 1152 (project_root @ slash # ''log'');
          client_dir = fit 1184 (log_dir @ slash # ''client'');
          client_file = fit client_size (client_dir @ slash # ''client.log'') in
        (if c_ensure_directory env log_dir \<noteq> 0 \<or> c_ensure_directory env client_dir \<noteq> 0
         then - 1 else 0, client_file))"

text \<open>The copied helpers agree with the originals.\<close>

lemma c_helpers [simp]:
  "c_ensure_directory env = ensure_directory env"
  "c_find_last_path_sep = find_last_path_sep"
  "c_get_project_root = get_project_root"
proof -
  show "c_ensure_directory env = ensure_directory env"
    by (simp add: fun_eq_iff c_ensure_directory_def ensure_directory_def)
  show f: "c_find_last_path_sep = find_last_path_sep"
    by (simp add: fun_eq_iff c_find_last_path_sep_def find_last_path_sep_def split: option.split)
  show "c_get_project_root = get_project_root"
    unfolding fun_eq_iff c_get_project_root_def get_project_root_def f by (rule allI)+ (rule refl)
qed

section \<open>The queue\<close>

definition c_log_queue_init :: "log_env \<Rightarrow> string \<Rightarrow> log_queue \<Rightarrow> int \<times> log_queue" where
  "c_log_queue_init env file_path q =
     (if initialized q then (if fp q \<noteq> None then 0 else - 1, q)
      else if mutex_rc env \<noteq> 0 then (- 1, q)
      else if cond_not_empty_rc env \<noteq> 0 then (- 1, q)
      else if cond_not_full_rc env \<noteq> 0 then (- 1, q)
      else if \<not> fopen_ok env then (- 1, q\<lparr>fp := None\<rparr>)
      else
        let q = q\<lparr>fp := Some file_path, nodes := [], running := True, initialized := True,
                  node_count := 0, max_count := 10000, warn_threshold := 8000,
                  warn_emitted := False\<rparr> in
        if thread_rc env \<noteq> 0 then (- 1, q\<lparr>fp := None, running := False, initialized := False\<rparr>)
        else (0, q\<lparr>thread_started := True\<rparr>))"

text \<open>\<open>None\<close> while the caller has to wait on \<open>cond_not_full\<close>.\<close>

definition c_log_queue_push :: "bool \<Rightarrow> string \<Rightarrow> log_queue \<Rightarrow> (log_queue \<times> string list) option" where
  "c_log_queue_push malloc_ok line q =
     (if \<not> initialized q \<or> fp q = None then Some (q, [])
      else if \<not> malloc_ok then Some (q, [])
      else if max_count q \<le> node_count q \<and> running q then None
      else if \<not> running q then Some (q, [])
      else
        let q = q\<lparr>nodes := nodes q @ [line], node_count := node_count q + 1\<rparr> in
        if \<not> warn_emitted q \<and> warn_threshold q \<le> node_count q
        then Some (q\<lparr>warn_emitted := True\<rparr>, [queue_report ''queue near limit: '' q ''''])
        else Some (q, []))"

section \<open>The writer thread\<close>

definition c_take_node :: "log_queue \<Rightarrow> writer \<times> log_queue" where
  "c_take_node q =
     (Writing (hd (nodes q)) (fp q) True, q\<lparr>nodes := tl (nodes q), node_count := node_count q - 1\<rparr>)"

definition c_worker_outer :: "log_queue \<Rightarrow> writer \<times> log_queue" where
  "c_worker_outer q =
     (if running q \<or> nodes q \<noteq> []
      then if nodes q = [] then (Waiting, q) else c_take_node q
      else (Done, q))"

definition c_worker_inner :: "log_queue \<Rightarrow> writer \<times> log_queue" where
  "c_worker_inner q =
     (if nodes q \<noteq> [] then c_take_node q
      else c_worker_outer
        (if node_count q < warn_threshold q then q\<lparr>warn_emitted := False\<rparr> else q))"

fun c_log_queue_worker ::
  "writer \<Rightarrow> log_queue \<Rightarrow> string list \<Rightarrow> writer \<times> log_queue \<times> string list" where
  "c_log_queue_worker Starting q fl = (case c_worker_outer q of (pc, q) \<Rightarrow> (pc, q, fl))"
| "c_log_queue_worker Waiting q fl =
     (if nodes q = [] \<and> running q then (Waiting, q, fl)
      else case c_worker_inner q of (pc, q) \<Rightarrow> (pc, q, fl))"
| "c_log_queue_worker (Writing line f t) q fl =
     (Relocking, q, if f \<noteq> None then fl @ [line] else fl)"
| "c_log_queue_worker Relocking q fl = (case c_worker_inner q of (pc, q) \<Rightarrow> (pc, q, fl))"
| "c_log_queue_worker Done q fl = (Done, q, fl)"

section \<open>The two threads\<close>

definition c_writer_step :: "log_sys \<Rightarrow> log_sys" where
  "c_writer_step s =
     (case c_log_queue_worker (writer s) (queue s) (log_file s) of (pc, q, fl) \<Rightarrow>
        s\<lparr>writer := pc, queue := q, log_file := fl\<rparr>)"

definition c_push_try :: "bool \<Rightarrow> string \<Rightarrow> log_sys \<Rightarrow> log_sys option" where
  "c_push_try malloc_ok line s =
     (case c_log_queue_push malloc_ok line (queue s) of
        None \<Rightarrow> None
      | Some (q, out) \<Rightarrow>
          Some (s\<lparr>queue := q, reports := reports s @ out,
            accepted := (if nodes q = nodes (queue s) then accepted s else accepted s @ [line])\<rparr>))"

text \<open>
  The caller of \<open>log_queue_push\<close> alone with the writer thread: as long as it has to wait, the writer
  makes the steps. Without a writer that makes room it waits forever.
\<close>

partial_function (option) c_push_wait :: "bool \<Rightarrow> string \<Rightarrow> log_sys \<Rightarrow> log_sys option" where
  "c_push_wait malloc_ok line s =
     (case c_push_try malloc_ok line s of
        Some s' \<Rightarrow> Some s'
      | None \<Rightarrow> c_push_wait malloc_ok line (c_writer_step s))"

definition c_shutdown_begin :: "log_sys \<Rightarrow> log_sys" where
  "c_shutdown_begin s = s\<lparr>queue := (queue s)\<lparr>running := False\<rparr>, joining := True\<rparr>"

definition c_shutdown_end :: "log_sys \<Rightarrow> log_sys" where
  "c_shutdown_end s =
     s\<lparr>queue := (queue s)\<lparr>thread_started := False, fp := None, initialized := False, nodes := [],
         node_count := 0\<rparr>, joining := False\<rparr>"

definition c_log_queue_shutdown :: "log_sys \<Rightarrow> log_sys" where
  "c_log_queue_shutdown s =
     (if \<not> initialized (queue s) then s
      else let s = c_shutdown_begin s in
        c_shutdown_end
          (if thread_started (queue s)
           then (c_writer_step ^^ (2 * length (nodes (queue s)) + 2)) s else s))"

section \<open>Log calls of the client\<close>

record client_logger =
  c_log_queue :: log_sys
  c_log_ready :: bool
  c_client_log_file :: string
  c_stdout :: "string list"

definition initial_client_logger :: client_logger where
  "initial_client_logger =
     \<lparr>c_log_queue = \<lparr>queue = zero_queue, writer = Done, joining = False, log_file = [], accepted = [],
        reports = []\<rparr>, c_log_ready = False, c_client_log_file = '''', c_stdout = []\<rparr>"

definition c_log_line :: "string \<Rightarrow> string" where
  "c_log_line msg = fit 2048 (''[Client] '' @ msg @ [CHR 0x0A])"

definition c_log_prepare :: "log_env \<Rightarrow> client_logger \<Rightarrow> client_logger" where
  "c_log_prepare env g =
     (case c_init_log_paths env 1216 of (r, path) \<Rightarrow>
        let g = g\<lparr>c_client_log_file := path\<rparr> in
        if r \<noteq> 0 then g\<lparr>c_log_ready := False\<rparr>
        else case c_log_queue_init env path (queue (c_log_queue g)) of (r, q) \<Rightarrow>
          g\<lparr>c_log_queue := (c_log_queue g)
              \<lparr>queue := q,
               writer := (if thread_started q \<and> \<not> thread_started (queue (c_log_queue g))
                          then Starting else writer (c_log_queue g))\<rparr>,
            c_log_ready := (r = 0)\<rparr>)"

definition c_lua_log :: "log_env \<Rightarrow> string \<Rightarrow> client_logger \<Rightarrow> client_logger option" where
  "c_lua_log env msg g =
     (let line = c_log_line msg;
          g = g\<lparr>c_stdout := c_stdout g @ [line]\<rparr>;
          g = (if \<not> c_log_ready g then c_log_prepare env g else g) in
      if c_log_ready g
      then map_option (\<lambda>s. g\<lparr>c_log_queue := s\<rparr>) (c_push_wait (node_malloc env) line (c_log_queue g))
      else Some g)"

definition log_shutdown :: "client_logger \<Rightarrow> client_logger" where
  "log_shutdown g = g\<lparr>c_log_queue := c_log_queue_shutdown (c_log_queue g), c_log_ready := False\<rparr>"

end
