(* ===== verification/Client_Log_Facts.thy ===== *)
theory Client_Log_Facts
  imports Client_Log Logger_Props
begin

text \<open>
  Lemmas on the client's logger: one invariant for the running and the closing queue, the writer
  as two interpretations of \<open>countdown\<close>, log calls that wait, and the shutdown; then its properties.
\<close>

section \<open>The invariant\<close>














section \<open>Log calls that wait\<close>




section \<open>Shutdown\<close>


section \<open>Nothing is lost\<close>








end
