(* ===== verification/Uv_Inet.thy ===== *)
theory Uv_Inet
  imports C_Text
begin

text \<open>
  IPv4 addresses as text (\<open>ge/libuv/src/inet.c\<close>, \<open>uv_ip4_addr\<close> of \<open>ge/libuv/src/uv-common.c\<close>), as the
  server and the client use them: parsing, printing, and that these are inverse to each other.
\<close>

definition INET_EINVAL :: int where "INET_EINVAL = -22"
definition INET_ENOSPC :: int where "INET_ENOSPC = -28"

text \<open>
  The loop of \<open>inet_pton4\<close>: whether the current octet has a digit, the number of octets begun, the
  octets before the current one and the current one (\<open>*tp\<close>). The result is an error code or the number of
  octets and the bytes of \<open>tmp\<close> up to \<open>tp\<close>.
\<close>

fun pton4_loop :: "string \<Rightarrow> bool \<Rightarrow> nat \<Rightarrow> byte list \<Rightarrow> byte \<Rightarrow> int + nat \<times> byte list" where
  "pton4_loop [] saw_digit octets tmp tp = Inr (octets, tmp @ [tp])"
| "pton4_loop (ch # src) saw_digit octets tmp tp =
     (if ch \<in> set ''0123456789'' then
        let nw = unat tp * 10 + char_digit ch in
        if saw_digit \<and> tp = 0 then Inl INET_EINVAL
        else if 255 < nw then Inl INET_EINVAL
        else if \<not> saw_digit then
          if 4 < octets + 1 then Inl INET_EINVAL
          else pton4_loop src True (octets + 1) tmp (of_nat nw)
        else pton4_loop src saw_digit octets tmp (of_nat nw)
      else if ch = CHR ''.'' \<and> saw_digit then
        if octets = 4 then Inl INET_EINVAL
        else pton4_loop src False octets (tmp @ [tp]) 0
      else Inl INET_EINVAL)"

declare pton4_loop.simps(2) [simp del]

definition inet_pton4 :: "string \<Rightarrow> int + byte list" where
  "inet_pton4 src =
     (case pton4_loop src False 0 [] 0 of
        Inl e \<Rightarrow> Inl e
      | Inr (octets, tmp) \<Rightarrow> if octets < 4 then Inl INET_EINVAL else Inr tmp)"

definition inet_ntop4 :: "byte list \<Rightarrow> nat \<Rightarrow> int + string" where
  "inet_ntop4 src dst_size =
     (let tmp = dec_nat (unat (src ! 0)) @ ''.'' @ dec_nat (unat (src ! 1)) @ ''.'' @
                dec_nat (unat (src ! 2)) @ ''.'' @ dec_nat (unat (src ! 3)) in
      if dst_size \<le> length tmp then Inl INET_ENOSPC else Inr tmp)"

text \<open>
  \<open>struct sockaddr_in\<close>: port and address. A string that is no address leaves the zero address
  that \<open>memset\<close> wrote; the port is kept modulo 65536 (\<open>htons\<close>).
\<close>

record sockaddr_in =
  sin_port :: "16 word"
  sin_addr :: "byte list"

definition uv_ip4_addr :: "string \<Rightarrow> int \<Rightarrow> int \<times> sockaddr_in" where
  "uv_ip4_addr ip port =
     (case inet_pton4 ip of
        Inl e \<Rightarrow> (e, \<lparr>sin_port = word_of_int port, sin_addr = [0, 0, 0, 0]\<rparr>)
      | Inr a \<Rightarrow> (0, \<lparr>sin_port = word_of_int port, sin_addr = a\<rparr>))"

section \<open>The text read so far\<close>

definition dotted :: "byte list \<Rightarrow> string" where
  "dotted tmp = concat (map (\<lambda>b. dec_nat (unat b) @ ''.'') tmp)"

definition rendered :: "bool \<Rightarrow> byte list \<Rightarrow> byte \<Rightarrow> string" where
  "rendered saw_digit tmp tp = dotted tmp @ (if saw_digit then dec_nat (unat tp) else '''')"

lemma digits_char: "ch \<in> set ''0123456789'' \<longleftrightarrow> (\<exists>d < 10. ch = digit_char d)"
proof -
  have "set ''0123456789'' = digit_char ` set [0..<10]" by code_simp
  then have eq: "set ''0123456789'' = digit_char ` {0..<10}" by (simp only: set_upt)
  show ?thesis unfolding eq by auto
qed

lemma unat_small_byte: "n \<le> 255 \<Longrightarrow> unat (of_nat n :: byte) = n"
  by (simp add: unat_of_nat)

lemma dot_no_digit: "d < 10 \<Longrightarrow> digit_char d \<noteq> CHR ''.''"
proof
  assume "d < 10" "digit_char d = CHR ''.''"
  moreover have "CHR ''.'' \<notin> set ''0123456789''" by code_simp
  ultimately show False using digits_char [of "CHR ''.''"] by metis
qed

lemma dec_nat_snoc: "0 < n \<Longrightarrow> d < 10 \<Longrightarrow> dec_nat (10 * n + d) = dec_nat n @ [digit_char d]"
  by (subst dec_nat.simps) simp

lemma dec_nat_digit: "d < 10 \<Longrightarrow> dec_nat d = [digit_char d]"
  by (subst dec_nat.simps) simp

lemma dec_nat_digits: "set (dec_nat n) \<subseteq> set ''0123456789''"
proof (induction n rule: dec_nat.induct)
  case (1 n)
  have d: "digit_char (n mod 10) \<in> set ''0123456789''"
    unfolding digits_char by (rule exI [of _ "n mod 10"]) simp
  show ?case
  proof (cases "n < 10")
    case True
    then have "dec_nat n = [digit_char (n mod 10)]" by (simp add: dec_nat_digit)
    then show ?thesis using d by (simp only: list.set(2) list.set(1) insert_subset empty_subsetI)
  next
    case False
    then have "dec_nat n = dec_nat (n div 10) @ [digit_char (n mod 10)]" by (subst dec_nat.simps) simp
    then show ?thesis using 1 [OF False] d
      by (simp only: set_append Un_subset_iff list.set(2) [of "digit_char (n mod 10)" "[]"]
          list.set(1) insert_subset empty_subsetI)
  qed
qed

section \<open>Parsing accepts only canonical text\<close>

lemma pton4_loop_canonical:
  assumes "pton4_loop s saw oct tmp tp = Inr (n, bs)"
    and "oct = length tmp + (if saw then 1 else 0)" and "oct \<le> 4" and "\<not> saw \<longrightarrow> tp = 0 \<and> oct < 4"
  shows "\<exists>tmp' tp' saw'. bs = tmp' @ [tp'] \<and> n = length tmp' + (if saw' then 1 else 0) \<and> n \<le> 4 \<and>
    (\<not> saw' \<longrightarrow> n < 4) \<and> rendered saw tmp tp @ s = rendered saw' tmp' tp'"
  using assms
proof (induction s saw oct tmp tp rule: pton4_loop.induct)
  case (1 saw oct tmp tp)
  then show ?case by auto
next
  case (2 ch s saw oct tmp tp)
  consider (dig) d where "d < 10" "ch = digit_char d" "ch \<in> set ''0123456789''"
    | (dot) "ch \<notin> set ''0123456789''" "ch = CHR ''.''" "saw" "oct \<noteq> 4"
    using 2(4) digits_char [of ch] by (auto simp only: pton4_loop.simps split: if_splits)
  then show ?case
  proof cases
    case dig
    let ?nw = "unat tp * 10 + char_digit ch"
    have c: "char_digit ch = d" using dig by simp
    have small: "?nw \<le> 255" "\<not> (saw \<and> tp = 0)"
      using 2(4) dig(3) by (auto simp only: pton4_loop.simps Let_def split: if_splits)
    have u: "unat (of_nat ?nw :: byte) = ?nw" by (rule unat_small_byte [OF small(1)])
    show ?thesis
    proof (cases saw)
      case False
      have z: "unat tp = 0" using 2(7) False by simp
      have run: "pton4_loop s True (oct + 1) tmp (of_nat ?nw) = Inr (n, bs)"
        using 2(4,7) dig(3) small False by (simp only: pton4_loop.simps Let_def) simp
      have r: "rendered saw tmp tp @ ch # s = rendered True tmp (of_nat ?nw) @ s"
        using u z c dig False by (simp add: rendered_def dec_nat_digit)
      show ?thesis unfolding r
        by (rule 2(1) [OF dig(3) refl small(2) _ _ _ run]) (use small 2(5,7) False in simp_all)
    next
      case True
      have p: "0 < unat tp" using small(2) True by (simp add: unat_gt_0)
      have run: "pton4_loop s saw oct tmp (of_nat ?nw) = Inr (n, bs)"
        using 2(4) dig(3) small True by (simp only: pton4_loop.simps Let_def) simp
      have "dec_nat ?nw = dec_nat (unat tp) @ [ch]"
        using dec_nat_snoc [OF p dig(1)] c dig(2) by (simp add: mult.commute)
      then have r: "rendered saw tmp tp @ ch # s = rendered saw tmp (of_nat ?nw) @ s"
        using u True by (simp add: rendered_def)
      show ?thesis unfolding r
        by (rule 2(2) [OF dig(3) refl small(2) _ _ run]) (use small 2(5,6) True in simp_all)
    qed
  next
    case dot
    have run: "pton4_loop s False oct (tmp @ [tp]) 0 = Inr (n, bs)"
      using 2(4) dot by (simp only: pton4_loop.simps) simp
    have r: "rendered saw tmp tp @ ch # s = rendered False (tmp @ [tp]) 0 @ s"
      using dot by (simp add: rendered_def dotted_def)
    show ?thesis unfolding r
      by (rule 2(3) [OF dot(1) _ dot(4) run]) (use 2(5,6) dot in simp_all)
  qed
qed

section \<open>Printing and parsing back\<close>

lemma pton4_digit:
  assumes "d < 10"
  shows "pton4_loop (digit_char d # src) saw oct tmp tp =
    (if saw \<and> tp = 0 then Inl INET_EINVAL
     else if 255 < unat tp * 10 + d then Inl INET_EINVAL
     else if \<not> saw then
       if 4 < oct + 1 then Inl INET_EINVAL
       else pton4_loop src True (oct + 1) tmp (of_nat (unat tp * 10 + d))
     else pton4_loop src saw oct tmp (of_nat (unat tp * 10 + d)))"
proof -
  have "digit_char d \<in> set ''0123456789''" unfolding digits_char using assms by blast
  then show ?thesis using assms by (simp only: pton4_loop.simps Let_def char_digit_inverse) simp
qed

lemma pton4_number:
  assumes "n \<le> 255" and "oct < 4"
  shows "pton4_loop (dec_nat n @ rest) False oct tmp 0 = pton4_loop rest True (oct + 1) tmp (of_nat n)"
  using assms(1)
proof (induction n arbitrary: rest rule: dec_nat.induct)
  case (1 n)
  show ?case
  proof (cases "n < 10")
    case True
    then show ?thesis using assms(2) by (simp add: dec_nat_digit pton4_digit)
  next
    case False
    have u: "unat (of_nat (n div 10) :: byte) = n div 10" using 1(2) by (intro unat_small_byte) simp
    have "(of_nat (n div 10) :: byte) \<noteq> 0" using u False by (metis div_greater_zero_iff not_less
          unat_0 zero_less_numeral less_irrefl)
    moreover have "dec_nat n = dec_nat (n div 10) @ [digit_char (n mod 10)]"
      using False by (subst dec_nat.simps) simp
    moreover have "n div 10 * 10 + n mod 10 = n" by simp
    ultimately show ?thesis
      using 1(1) [OF False, of "digit_char (n mod 10) # rest"] 1(2) u pton4_digit [of "n mod 10"]
      by (simp only: append.assoc append.simps) simp
  qed
qed

lemma pton4_dot:
  "pton4_loop (CHR ''.'' # src) True oct tmp tp =
    (if oct = 4 then Inl INET_EINVAL else pton4_loop src False oct (tmp @ [tp]) 0)"
proof -
  have "CHR ''.'' \<notin> set ''0123456789''" by code_simp
  then show ?thesis by (simp only: pton4_loop.simps) simp
qed

lemma byte_le_255: "unat (b :: byte) \<le> 255"
  using unsigned_less [of b] by (simp add: less_Suc_eq_le [symmetric])

lemma dec_byte_length: "length (dec_nat (unat (b :: byte))) \<le> 3"
  using dec_nat_length [of "unat b" 3] byte_le_255 [of b] by simp

lemma pton4_byte:
  "oct < 4 \<Longrightarrow> pton4_loop (dec_nat (unat b) @ rest) False oct tmp 0 = pton4_loop rest True (oct + 1) tmp b"
  using pton4_number [OF byte_le_255] by simp

lemma ip4_text_round_trip_gen:
  assumes "16 \<le> n"
  shows "inet_pton4 s = Inr a \<longleftrightarrow> length a = 4 \<and> inet_ntop4 a n = Inr s"
proof
  assume "inet_pton4 s = Inr a"
  then obtain oct where l: "pton4_loop s False 0 [] 0 = Inr (oct, a)" and o: "4 \<le> oct"
    by (auto simp: inet_pton4_def split: sum.splits if_splits)
  obtain tmp tp where a: "a = tmp @ [tp]" and "length tmp = 3" and "s = rendered True tmp tp"
    using pton4_loop_canonical [OF l] o by (auto simp: rendered_def dotted_def)
  then obtain b c d where "a = [b, c, d, tp]" and "s = rendered True [b, c, d] tp"
    by (auto simp: length_Suc_conv numeral_eq_Suc)
  then show "length a = 4 \<and> inet_ntop4 a n = Inr s"
    using assms dec_byte_length [of b] dec_byte_length [of c] dec_byte_length [of d] dec_byte_length [of tp]
    by (simp add: inet_ntop4_def Let_def rendered_def dotted_def)
next
  assume "length a = 4 \<and> inet_ntop4 a n = Inr s"
  then obtain b c d e where a: "a = [b, c, d, e]"
    and s: "s = dec_nat (unat b) @ ''.'' @ dec_nat (unat c) @ ''.'' @ dec_nat (unat d) @ ''.'' @ dec_nat (unat e)"
    by (auto simp: inet_ntop4_def Let_def length_Suc_conv numeral_eq_Suc split: if_splits)
  show "inet_pton4 s = Inr a"
    using pton4_byte [of 3 e "[]"]
    by (simp add: s a inet_pton4_def pton4_byte pton4_dot numeral_3_eq_3)
qed

text \<open>
  C40. Printing an IPv4 address and parsing the text gives the address back, and parsing accepts no
  other text: a string denotes an address exactly when it is the text that printing this address
  gives (so no leading zeros, no missing or extra octets, no octet above 255, nothing around it).
\<close>

theorem ip4_text_round_trip:
  assumes "16 \<le> n"
  shows "inet_pton4 s = Inr a \<longleftrightarrow> length a = 4 \<and> inet_ntop4 a n = Inr s"
  by (rule ip4_text_round_trip_gen [OF assms])

theorem ip4_text_round_trip_witness:
  "inet_pton4 ''127.0.0.1'' = Inr [127, 0, 0, 1] \<and> inet_pton4 ''127.0.0.01'' \<noteq> Inr [127, 0, 0, 1]"
proof -
  have n: "inet_ntop4 [127, 0, 0, 1] 16 = Inr ''127.0.0.1''" by code_simp
  show ?thesis
    using ip4_text_round_trip [of 16 _ "[127, 0, 0, 1]"] n by simp
qed

text \<open>
  \<open>uv_ip4_addr\<close> of text that is no IPv4 address, such as the default host name of both clients,
  reports an error and leaves the address 0.0.0.0; its callers do not look at the result. The port
  is taken modulo 65536.
\<close>

theorem ip4_addr_of_no_address:
  assumes "\<forall>a. length a = 4 \<longrightarrow> inet_ntop4 a 16 \<noteq> Inr ip"
  shows "fst (uv_ip4_addr ip port) < 0 \<and> sin_addr (snd (uv_ip4_addr ip port)) = [0, 0, 0, 0] \<and>
    uint (sin_port (snd (uv_ip4_addr ip port))) = port mod 65536"
proof -
  have e: "inet_pton4 ip = Inl x \<Longrightarrow> x = INET_EINVAL" for x
  proof -
    have "pton4_loop s saw oct tmp tp = Inl x \<Longrightarrow> x = INET_EINVAL" for s saw oct tmp tp
      by (induction s saw oct tmp tp rule: pton4_loop.induct)
        (auto simp only: pton4_loop.simps Let_def split: if_splits)
    then show "inet_pton4 ip = Inl x \<Longrightarrow> x = INET_EINVAL"
      by (auto simp: inet_pton4_def split: sum.splits if_splits)
  qed
  obtain x where "inet_pton4 ip = Inl x"
  proof (cases "inet_pton4 ip")
    case (Inr a)
    have "(16 :: nat) \<le> 16" by simp
    from iffD1 [OF ip4_text_round_trip_gen [OF this] Inr] assms show ?thesis by blast
  qed
  then show ?thesis using e by (simp add: uv_ip4_addr_def INET_EINVAL_def uint_word_of_int)
qed

theorem ip4_addr_of_no_address_witness:
  "sin_addr (snd (uv_ip4_addr ''localhost'' 8080)) = [0, 0, 0, 0]"
proof -
  have "inet_pton4 ''localhost'' = Inl INET_EINVAL" by code_simp
  then have "\<forall>a. length a = 4 \<longrightarrow> inet_ntop4 a 16 \<noteq> Inr ''localhost''"
    using ip4_text_round_trip_gen [of 16 "''localhost''"] by simp
  from ip4_addr_of_no_address [OF this, of 8080] show ?thesis by blast
qed

end
