(* ===== verification/Client.thy ===== *)
theory Client
  imports Server_State Uv_Run Uv_Inet
begin

text \<open>
  The client (\<open>ge/client/client.c\<close>, \<open>client.h\<close>) with the bindings of its scripts
  (\<open>ge/client/client_lua_bindings.c\<close>; its logger is in \<open>Client_Log\<close>) and its entry point. One socket
  and one terminal handle live in the static context; closing them has no callback.

  What the socket, the terminal, the allocator and the Lua state answer is input. A script is a
  tree of calls, as on the server. The memory a write request points to belongs to someone else:
  the model follows it until the kernel has taken all of it.
\<close>

section \<open>The state\<close>

datatype chid = SocketHandle | TtyHandle

type_synonym client_loop = "(chid, unit, unit) uv_loop"

datatype 'l client_act =
    ClReturn 'l
  | ClError 'l string
  | ClSend "byte list" "lua_ret \<Rightarrow> 'l client_act"
  | ClIsConnected "bool \<Rightarrow> 'l client_act"
  | ClDisconnect "'l client_act"
  | ClLog string "'l client_act"

record 'l client_script =
  on_server_message :: "'l \<Rightarrow> (byte list \<Rightarrow> 'l client_act) option"
  on_user_input :: "'l \<Rightarrow> (byte list \<Rightarrow> 'l client_act) option"
  on_connected :: "'l \<Rightarrow> 'l client_act option"
  on_disconnected :: "'l \<Rightarrow> 'l client_act option"

datatype client_event =
    CallServerMessage "byte list"
  | CallUserInput "byte list"
  | CallConnected
  | CallDisconnected
  | Printed "byte list"
  | PrintedConnected string int
  | PrintedDisconnected
  | ClStderr string
  | ClLogLine string
  | Sent "byte list"

text \<open>What the data of a write request belongs to.\<close>

datatype write_source = ReadBuffer nat | LuaString | Literal

text \<open>
  \<open>client_context_t\<close>, and around it: the live read buffers with their sizes, the number of live
  write requests, the outcomes of coming allocations and whether the kernel takes the data of
  coming writes at once (both succeed when the list runs out), the sources of the writes it has not
  taken yet. \<open>connect_req\<close> is whether the connect request is outstanding.
\<close>

record 'l client =
  cuv :: client_loop
  connect_req :: bool
  clua :: "'l option"
  cscript :: "'l client_script"
  host :: "string option"
  port :: int
  script_path :: "string option"
  connected :: bool
  c_bufs :: "(nat \<times> nat) list"
  c_reqs :: int
  c_mallocs :: "bool list"
  kernel_takes :: "bool list"
  untaken :: "write_source list"
  out :: "client_event list"

definition set_cuv :: "client_loop \<Rightarrow> 'l client \<Rightarrow> 'l client" where
  "set_cuv L w = w\<lparr>cuv := L\<rparr>"

definition show_event :: "client_event \<Rightarrow> 'l client \<Rightarrow> 'l client" where
  "show_event e w = w\<lparr>out := out w @ [e]\<rparr>"

definition on_cuv :: "(client_loop \<Rightarrow> client_loop res) \<Rightarrow> 'l client \<Rightarrow> 'l client res" where
  "on_cuv f w = then_do (f (cuv w)) (\<lambda>L. Ret (set_cuv L w))"

definition on_cuv_rc ::
  "(client_loop \<Rightarrow> (int \<times> client_loop) res) \<Rightarrow> 'l client \<Rightarrow> (int \<times> 'l client) res" where
  "on_cuv_rc f w = then_do (f (cuv w)) (\<lambda>(r, L). Ret (r, set_cuv L w))"

definition c_malloc :: "'l client \<Rightarrow> bool \<times> 'l client" where
  "c_malloc w = (case c_mallocs w of [] \<Rightarrow> (True, w) | b # bs \<Rightarrow> (b, w\<lparr>c_mallocs := bs\<rparr>))"

definition c_free_buf :: "nat option \<Rightarrow> 'l client \<Rightarrow> 'l client res" where
  "c_free_buf b w =
     (case b of
        None \<Rightarrow> Ret w
      | Some i \<Rightarrow> if i \<in> fst ` set (c_bufs w) then Ret (w\<lparr>c_bufs := filter (\<lambda>x. fst x \<noteq> i) (c_bufs w)\<rparr>)
                 else Fault DoubleFree)"

section \<open>Sending\<close>

text \<open>
  \<open>client_send\<close>. The request is used without a look at the result of \<open>malloc\<close>; it is freed by
  \<open>on_write\<close>, so not when \<open>uv_write\<close> fails.
\<close>

definition client_send :: "write_source \<Rightarrow> byte list \<Rightarrow> 'l client \<Rightarrow> (int \<times> 'l client) res" where
  "client_send src data w =
     (if \<not> connected w then Ret (- 1, w)
      else case c_malloc w of (req, w) \<Rightarrow>
        if \<not> req then Fault NullDeref
        else
          let w = w\<lparr>c_reqs := c_reqs w + 1\<rparr> in
          then_do (on_cuv_rc (\<lambda>L. uv_write L SocketHandle data) w) (\<lambda>(r, w).
            if r \<noteq> 0 then Ret (r, w)
            else
              let at_once = (untaken w = [] \<and> (case kernel_takes w of [] \<Rightarrow> True | b # _ \<Rightarrow> b)) in
              Ret (0, show_event (Sent data)
                (w\<lparr>kernel_takes := tl (kernel_takes w),
                   untaken := (if at_once then untaken w else untaken w @ [src])\<rparr>))))"

definition on_write :: "int \<Rightarrow> byte list \<Rightarrow> 'l client \<Rightarrow> 'l client res" where
  "on_write status bs w =
     (let w = (if status < 0 then show_event (ClStderr ''Write error'') w else w) in
        Ret (w\<lparr>c_reqs := c_reqs w - 1\<rparr>))"

text \<open>
  The kernel takes more of the data: \<open>uv__write\<close> reads it where it was, which is a use after free
  if its owner has gone. A Lua string may have been collected since (\<open>collected\<close>).
\<close>

fun source_alive :: "bool \<Rightarrow> 'l client \<Rightarrow> write_source \<Rightarrow> bool" where
  "source_alive collected w (ReadBuffer b) = (b \<in> fst ` set (c_bufs w))"
| "source_alive collected w LuaString = (\<not> collected)"
| "source_alive collected w Literal = True"

definition write_more :: "bool \<Rightarrow> 'l client \<Rightarrow> 'l client res" where
  "write_more collected w =
     (if \<forall>s \<in> set (untaken w). source_alive collected w s then Ret (w\<lparr>untaken := []\<rparr>)
      else Fault UseAfterFree)"

section \<open>Scripts\<close>

text \<open>
  \<open>lua_send_data\<close>, \<open>lua_is_connected\<close>, \<open>lua_disconnect\<close> and \<open>lua_log\<close>, as a script calls them;
  \<open>disconnect\<close> is \<open>client_disconnect\<close>. The strings a script sends live on its stack during the call.
\<close>

definition c_lua_send_data :: "byte list \<Rightarrow> 'l client \<Rightarrow> (lua_ret \<times> 'l client) res" where
  "c_lua_send_data data w =
     (if \<not> connected w then Ret (LuaFalse (Msg ''Not connected''), w)
      else then_do (client_send LuaString data w) (\<lambda>(r, w).
        Ret (if r = 0 then LuaTrue else LuaFalse (Strerror r), w)))"

definition lua_is_connected :: "'l client \<Rightarrow> bool" where
  "lua_is_connected w = connected w"

primrec run_client_lua ::
  "('l client \<Rightarrow> 'l client res) \<Rightarrow> 'l client_act \<Rightarrow> 'l client \<Rightarrow> (bool \<times> 'l client) res" where
  "run_client_lua disconnect (ClReturn l) w = Ret (True, w\<lparr>clua := Some l\<rparr>)"
| "run_client_lua disconnect (ClError l m) w = Ret (False, w\<lparr>clua := Some l\<rparr>)"
| "run_client_lua disconnect (ClSend bs k) w =
     then_do (c_lua_send_data bs w) (\<lambda>(r, w). run_client_lua disconnect (k r) w)"
| "run_client_lua disconnect (ClIsConnected k) w = run_client_lua disconnect (k (lua_is_connected w)) w"
| "run_client_lua disconnect (ClDisconnect k) w = then_do (disconnect w) (run_client_lua disconnect k)"
| "run_client_lua disconnect (ClLog m k) w = run_client_lua disconnect k (show_event (ClLogLine m) w)"

text \<open>
  \<open>lua_getglobal\<close>, \<open>lua_isfunction\<close>, \<open>lua_pcall\<close>; without the function, the default.
\<close>

definition client_call ::
  "('l client \<Rightarrow> 'l client res) \<Rightarrow> client_event \<Rightarrow> ('l \<Rightarrow> 'l client_act option) \<Rightarrow>
   ('l client \<Rightarrow> 'l client res) \<Rightarrow> 'l client \<Rightarrow> 'l client res" where
  "client_call disconnect e f otherwise w =
     (case clua w of
        None \<Rightarrow> Fault NullDeref
      | Some l \<Rightarrow>
          (case f l of
             None \<Rightarrow> otherwise w
           | Some act \<Rightarrow> then_do (run_client_lua disconnect act (show_event e w)) (\<lambda>(ok, w).
               Ret (if ok then w else show_event (ClStderr ''Lua error'') w))))"

text \<open>
  \<open>client_disconnect\<close>. Its callback runs with \<open>connected\<close> cleared, so a call of \<open>disconnect\<close> in there
  returns at once; \<open>nested_disconnect\<close> is that call.
\<close>

definition nested_disconnect :: "'l client \<Rightarrow> 'l client res" where
  "nested_disconnect w = (if connected w then Fault Diverges else Ret w)"

definition client_disconnect :: "'l client \<Rightarrow> 'l client res" where
  "client_disconnect w =
     (if connected w then
        then_do (client_call nested_disconnect CallDisconnected (on_disconnected (cscript w)) Ret
            (w\<lparr>connected := False\<rparr>)) (\<lambda>w.
        then_do (on_cuv (\<lambda>L. uv_close L SocketHandle None) w) (\<lambda>w.
        then_do (on_cuv (\<lambda>L. uv_close L TtyHandle None) w) (\<lambda>w.
          Ret (show_event PrintedDisconnected w))))
      else Ret w)"

section \<open>Reading\<close>

definition c_alloc_buffer :: "nat \<Rightarrow> 'l client \<Rightarrow> (nat option \<times> nat) \<times> 'l client" where
  "c_alloc_buffer suggested_size w =
     (case c_malloc w of (ok, w) \<Rightarrow>
        if \<not> ok then ((None, suggested_size), w)
        else let b = Suc (fold max (map fst (c_bufs w)) 0) in
          ((Some b, suggested_size), w\<lparr>c_bufs := (b, suggested_size) # c_bufs w\<rparr>))"

definition c_on_read :: "read_result \<Rightarrow> nat option \<Rightarrow> 'l client \<Rightarrow> 'l client res" where
  "c_on_read nread buf w =
     (case nread of
        ReadError e \<Rightarrow>
          then_do (client_disconnect (if e \<noteq> UV_EOF then show_event (ClStderr ''Read error'') w else w))
            (c_free_buf buf)
      | ReadData data \<Rightarrow>
          if data = [] then c_free_buf buf w
          else
            then_do (client_call client_disconnect (CallServerMessage data)
                (\<lambda>l. map_option (\<lambda>f. f data) (on_server_message (cscript w) l))
                (\<lambda>w. Ret (show_event (Printed data) w)) w)
              (c_free_buf buf))"

text \<open>
  \<open>on_tty_read\<close> strips one newline and then one carriage return, and writes a NUL behind what is
  left: one byte beyond the buffer when the data fills it.
\<close>

definition strip_newline :: "byte list \<Rightarrow> byte list" where
  "strip_newline data =
     (let data = (if data \<noteq> [] \<and> last data = 10 then butlast data else data) in
        if data \<noteq> [] \<and> last data = 13 then butlast data else data)"

definition write_nul :: "nat option \<Rightarrow> nat \<Rightarrow> 'l client \<Rightarrow> 'l client res" where
  "write_nul buf n w =
     (case buf of
        None \<Rightarrow> Fault NullDeref
      | Some b \<Rightarrow> deref (map_of (c_bufs w) b) (\<lambda>len. if n < len then Ret w else Fault OutOfBounds))"

definition on_tty_read :: "read_result \<Rightarrow> nat option \<Rightarrow> 'l client \<Rightarrow> 'l client res" where
  "on_tty_read nread buf w =
     (case nread of
        ReadError e \<Rightarrow>
          c_free_buf buf (if e \<noteq> UV_EOF then show_event (ClStderr ''TTY read error'') w else w)
      | ReadData data \<Rightarrow>
          if data = [] then c_free_buf buf w
          else let line = strip_newline data in
            if line = [] then c_free_buf buf w
            else
              then_do (write_nul buf (length line) w) (\<lambda>w.
              then_do (client_call client_disconnect (CallUserInput line)
                  (\<lambda>l. map_option (\<lambda>f. f line) (on_user_input (cscript w) l))
                  (\<lambda>w. then_do (client_send (case buf of Some b \<Rightarrow> ReadBuffer b | None \<Rightarrow> Literal) line w)
                     (\<lambda>(_, w). then_do (client_send Literal [10] w) (\<lambda>(_, w). Ret w)))
                  w)
                (c_free_buf buf)))"

text \<open>The read callback that \<open>on_connect\<close> gave to each of the two handles.\<close>

definition client_read_cb :: "chid \<Rightarrow> read_result \<Rightarrow> nat option \<Rightarrow> 'l client \<Rightarrow> 'l client res" where
  "client_read_cb h = (case h of SocketHandle \<Rightarrow> c_on_read | TtyHandle \<Rightarrow> on_tty_read)"

section \<open>Connecting\<close>

text \<open>\<open>on_connect\<close>; the results of \<open>uv_read_start\<close> are not looked at.\<close>

definition on_connect :: "int \<Rightarrow> 'l client \<Rightarrow> 'l client res" where
  "on_connect status w =
     (if status < 0 then Ret ((show_event (ClStderr ''Connection error'') w)\<lparr>connected := False\<rparr>)
      else
        let w = show_event (PrintedConnected (case host w of Some h \<Rightarrow> h | None \<Rightarrow> '''') (port w))
                  (w\<lparr>connected := True\<rparr>) in
        then_do (on_cuv_rc (\<lambda>L. uv_read_start L SocketHandle 0) w) (\<lambda>(_, w).
        then_do (on_cuv_rc (\<lambda>L. uv_read_start L TtyHandle 0) w) (\<lambda>(_, w).
          client_call client_disconnect CallConnected (on_connected (cscript w)) Ret w)))"

text \<open>
  \<open>uv_tcp_connect\<close> with the results of \<open>socket\<close> and of \<open>connect\<close> (0 also while the connection is in
  progress or was refused at once, which is reported later).
\<close>

definition uv_tcp_connect :: "int \<Rightarrow> int \<Rightarrow> 'l client \<Rightarrow> (int \<times> 'l client) res" where
  "uv_tcp_connect socket_rc connect_rc w =
     deref (handles (cuv w) SocketHandle) (\<lambda>x.
       if htype x \<noteq> UV_TCP then Ret (UV_EINVAL, w)
       else if connect_req w then Ret (UV_EALREADY, w)
       else if socket_rc \<noteq> 0 then Ret (socket_rc, w)
       else
         then_do (on_cuv (\<lambda>L. uv__stream_open L SocketHandle True True) w) (\<lambda>w.
           if connect_rc \<noteq> 0 then Ret (connect_rc, w)
           else Ret (0, w\<lparr>connect_req := True,
                          cuv := (cuv w)\<lparr>active_reqs := active_reqs (cuv w) + 1\<rparr>\<rparr>)))"

definition client_connect :: "int \<Rightarrow> int \<Rightarrow> 'l client \<Rightarrow> (sockaddr_in \<times> int \<times> 'l client) res" where
  "client_connect socket_rc connect_rc w =
     (let (_, addr) = uv_ip4_addr (case host w of Some h \<Rightarrow> h | None \<Rightarrow> '''') (port w) in
        then_do (uv_tcp_connect socket_rc connect_rc w) (\<lambda>(r, w). Ret (addr, r, w)))"

text \<open>\<open>uv__stream_connect\<close>: the socket became writable or failed; \<open>err\<close> is the socket's error.\<close>

definition uv__stream_connect :: "int \<Rightarrow> 'l client \<Rightarrow> 'l client res" where
  "uv__stream_connect err w =
     assert_that (connect_req w)
       (then_do (on_connect err (w\<lparr>connect_req := False,
            cuv := (cuv w)\<lparr>active_reqs := active_reqs (cuv w) - 1\<rparr>\<rparr>)) (\<lambda>w.
        deref (handles (cuv w) SocketHandle) (\<lambda>x.
          if \<not> fd_open x then Ret w
          else if err < 0 then uv__stream_destroy cuv set_cuv on_write SocketHandle w
          else Ret w)))"

section \<open>Start and end\<close>

text \<open>
  \<open>uv_tty_init\<close> on the standard input: it fails, before it touches the handle, when the descriptor is a
  file or unknown (\<open>tty_rc\<close>); the stream is readable or writable as the descriptor is.
\<close>

definition uv_tty_init :: "int \<Rightarrow> bool \<Rightarrow> bool \<Rightarrow> client_loop \<Rightarrow> (int \<times> client_loop) res" where
  "uv_tty_init tty_rc rd wr L =
     (if tty_rc \<noteq> 0 then Ret (tty_rc, L)
      else then_do (uv__stream_init L TtyHandle UV_TTY) (\<lambda>L.
           then_do (uv__stream_open L TtyHandle rd wr) (\<lambda>L. Ret (0, L))))"

text \<open>The assignment \<open>handle.data = ctx\<close>.\<close>

definition set_cdata :: "client_loop \<Rightarrow> chid \<Rightarrow> client_loop res" where
  "set_cdata L h = deref (handles L h) (\<lambda>x. Ret (set_handle L h (x\<lparr>hdata := Some ()\<rparr>)))"

text \<open>What loading and running the script does: fails, or leaves a Lua state with its functions.\<close>

datatype 'l loaded = LoadFails | RunFails | Loads 'l "'l client_script"

definition client_ctx0 :: "'l client_script \<Rightarrow> u64 \<Rightarrow> 'l client" where
  "client_ctx0 scr now =
     \<lparr>cuv = \<lparr>handles = [SocketHandle \<mapsto> zero_handle, TtyHandle \<mapsto> zero_handle], loop_time = now,
        timer_heap = [], timer_counter = 0, ready_queue = [], closing_handles = [], detached = [],
        handle_queue = [], active_handles = 0, active_reqs = 0, write_queue = [], stop_flag = False\<rparr>,
      connect_req = False, clua = None, cscript = scr, host = None, port = 0, script_path = None,
      connected = False, c_bufs = [], c_reqs = 0, c_mallocs = [], kernel_takes = [], untaken = [],
      out = []\<rparr>"

definition client_init ::
  "string option \<Rightarrow> int \<Rightarrow> string option \<Rightarrow> 'l option \<Rightarrow> 'l loaded \<Rightarrow> int \<Rightarrow> bool \<Rightarrow> bool \<Rightarrow>
   'l client \<Rightarrow> (int \<times> 'l client) res" where
  "client_init host_arg port_arg script_arg new_state load tty_rc rd wr w =
     (let w = w\<lparr>host := Some (case host_arg of Some h \<Rightarrow> h | None \<Rightarrow> ''localhost''), port := port_arg,
                script_path := script_arg, connected := False\<rparr> in
      case new_state of
        None \<Rightarrow> Ret (- 1, show_event (ClStderr ''Failed to create Lua state'') w)
      | Some l0 \<Rightarrow>
          let w = w\<lparr>clua := Some l0\<rparr>;
              rest = (\<lambda>w.
                then_do (on_cuv_rc (\<lambda>L. uv_tcp_init L SocketHandle) w) (\<lambda>(_, w).
                then_do (on_cuv (\<lambda>L. set_cdata L SocketHandle) w) (\<lambda>w.
                then_do (on_cuv_rc (uv_tty_init tty_rc rd wr) w) (\<lambda>(_, w).
                then_do (on_cuv (\<lambda>L. set_cdata L TtyHandle) w) (\<lambda>w. Ret (0, w)))))) in
          if script_arg = None then rest w
          else case load of
            LoadFails \<Rightarrow> Ret (- 1, show_event (ClStderr ''Failed to load script file'') w)
          | RunFails \<Rightarrow> Ret (- 1, show_event (ClStderr ''Script execution error'') w)
          | Loads l scr \<Rightarrow> rest (w\<lparr>clua := Some l, cscript := scr\<rparr>))"

text \<open>
  \<open>client_cleanup\<close>: it disconnects, ends the logger (\<open>Client_Log.log_shutdown\<close>) and releases the Lua
  state and the strings. The handles it closes were closed for nothing if the loop has returned.
\<close>

definition client_cleanup :: "'l client \<Rightarrow> 'l client res" where
  "client_cleanup w =
     then_do (if connected w then client_disconnect w else Ret w) (\<lambda>w.
       Ret (w\<lparr>clua := None, host := None, script_path := None\<rparr>))"

section \<open>The client as a sequence of events\<close>

datatype client_input =
    ConnectDone int
  | Readable_by chid "kernel_read list"
  | Writable bool
  | Write_done int
  | Close_pass
  | Interrupt

definition client_handle :: "client_input \<Rightarrow> 'l client \<Rightarrow> 'l client res" where
  "client_handle i w =
     (case i of
        ConnectDone err \<Rightarrow> uv__stream_connect err w
      | Readable_by h ks \<Rightarrow> uv__read cuv set_cuv (\<lambda>_. c_alloc_buffer) client_read_cb h (take 32 ks) w
      | Writable collected \<Rightarrow> write_more collected w
      | Write_done status \<Rightarrow> uv__write_complete cuv set_cuv on_write status SocketHandle w
      | Close_pass \<Rightarrow> uv__run_closing_handles cuv set_cuv (\<lambda>_ _. Ret) on_write w
      | Interrupt \<Rightarrow> client_disconnect w)"

text \<open>When the loop delivers an event; the signal may come at any time.\<close>

fun client_enabled :: "client_input \<Rightarrow> 'l client \<Rightarrow> bool" where
  "client_enabled (ConnectDone err) w = connect_req w"
| "client_enabled (Readable_by h ks) w =
     (case handles (cuv w) h of None \<Rightarrow> False | Some x \<Rightarrow> f_reading x)"
| "client_enabled (Writable collected) w = (untaken w \<noteq> [])"
| "client_enabled (Write_done status) w = (write_queue (cuv w) \<noteq> [])"
| "client_enabled Close_pass w = True"
| "client_enabled Interrupt w = True"

fun run_client :: "client_input list \<Rightarrow> 'l client \<Rightarrow> 'l client res" where
  "run_client [] w = Ret w"
| "run_client (i # is) w =
     (if client_enabled i w then then_do (client_handle i w) (run_client is) else run_client is w)"

section \<open>The entry point\<close>

text \<open>
  \<open>main\<close> of \<open>ge/client/client_main.c\<close>: arguments with their defaults, then init, connect, loop and
  cleanup. \<open>atoi\<close> and the inputs of the loop are arguments; the result is the exit status.
\<close>

record client_args =
  a_host :: string
  a_port :: int
  a_script :: string

definition client_arguments :: "(string \<Rightarrow> int) \<Rightarrow> string list \<Rightarrow> client_args" where
  "client_arguments atoi argv =
     (let argc = length argv in
      \<lparr>a_host = (if 1 < argc then argv ! 1 else ''localhost''),
       a_port = (if 2 < argc then atoi (argv ! 2) else 8080),
       a_script = (if 3 < argc then argv ! 3 else ''chat_client.lua'')\<rparr>)"

definition client_main ::
  "(string \<Rightarrow> int) \<Rightarrow> string list \<Rightarrow> 'l option \<Rightarrow> 'l loaded \<Rightarrow> int \<Rightarrow> bool \<Rightarrow> bool \<Rightarrow> int \<Rightarrow> int \<Rightarrow>
   client_input list \<Rightarrow> 'l client \<Rightarrow> (int \<times> 'l client) res" where
  "client_main atoi argv new_state load tty_rc rd wr socket_rc connect_rc inputs w =
     (let args = client_arguments atoi argv in
      then_do (client_init (Some (a_host args)) (a_port args) (Some (a_script args)) new_state load
          tty_rc rd wr w) (\<lambda>(r, w).
        if r \<noteq> 0 then Ret (1, show_event (ClStderr ''Client initialization failed'') w)
        else
          then_do (client_connect socket_rc connect_rc w) (\<lambda>(_, r, w).
            if r \<noteq> 0 then
              then_do (client_cleanup (show_event (ClStderr ''Failed to connect'') w)) (\<lambda>w. Ret (1, w))
            else
              then_do (run_client inputs w) (\<lambda>w.
              then_do (client_cleanup w) (\<lambda>w. Ret (0, w))))))"

end
