(* ===== verification/Client_Facts.thy ===== *)
theory Client_Facts
  imports Client Uv_Timer_Facts
begin

text \<open>
  Lemmas on the client: the invariant of its two streams, and that every handler keeps it and
  returns, with any script, while the terminal is one, memory lasts, the kernel takes writes at once and
  no line of input fills a read buffer.
\<close>

section \<open>The invariant\<close>

abbreviation being_closed :: "client_loop \<Rightarrow> chid list" where
  "being_closed L \<equiv> closing_handles L @ detached L"

definition stream_ok :: "client_loop \<Rightarrow> chid \<Rightarrow> (unit, unit) uv_handle \<Rightarrow> bool" where
  "stream_ok L h x \<longleftrightarrow>
     htype x = (case h of SocketHandle \<Rightarrow> UV_TCP | TtyHandle \<Rightarrow> UV_TTY) \<and>
     f_closing x = (h \<in> set (being_closed L) \<or> f_closed x) \<and>
     (f_closed x \<longrightarrow> h \<notin> set (being_closed L)) \<and>
     (f_closing x \<longrightarrow> close_cb x = None \<and> \<not> f_reading x)"

definition streams_ok :: "client_loop \<Rightarrow> bool \<Rightarrow> bool \<Rightarrow> bool" where
  "streams_ok L conn req \<longleftrightarrow>
     timer_heap L = [] \<and> distinct (being_closed L) \<and>
     (\<forall>h. \<exists>x. handles L h = Some x \<and> stream_ok L h x) \<and>
     (conn \<or> req \<longrightarrow> (\<forall>h x. handles L h = Some x \<longrightarrow> \<not> f_closing x) \<and>
        (\<forall>x. handles L SocketHandle = Some x \<longrightarrow> fd_open x)) \<and>
     \<not> (conn \<and> req)"

definition client_core :: "'l client \<Rightarrow> bool" where
  "client_core w \<longleftrightarrow> streams_ok (cuv w) (connected w) (connect_req w) \<and> clua w \<noteq> None \<and>
     untaken w = [] \<and> kernel_takes w = [] \<and> c_mallocs w = []"

lemma streams_okE:
  assumes "streams_ok L conn req"
  obtains x where "handles L h = Some x" and "stream_ok L h x"
  using assms unfolding streams_ok_def by blast

lemma streams_timers: "streams_ok L conn req \<Longrightarrow> timers_ok L"
proof (rule timers_okI)
  assume s: "streams_ok L conn req"
  then show "heap_ok (timer_less_than (handles L)) (timer_heap L)" "distinct (timer_heap L)"
    by (simp_all add: streams_ok_def heap_ok_def)
  show "h \<in> set (timer_heap L) \<longleftrightarrow> is_active_timer (handles L h)" for h
  proof -
    obtain x where "handles L h = Some x" "stream_ok L h x" using streams_okE [OF s] .
    then show ?thesis using s
      by (cases h) (auto simp: streams_ok_def stream_ok_def is_active_timer_Some)
  qed
qed

text \<open>Updates of a stream's flags, and of what the invariant does not mention.\<close>

lemma streams_flags:
  assumes s: "streams_ok L conn req" and x: "handles L h = Some x"
    and L: "handles L' = (handles L)(h \<mapsto> x')" "timer_heap L' = timer_heap L"
      "closing_handles L' = closing_handles L" "detached L' = detached L"
    and x': "htype x' = htype x" "f_closing x' = f_closing x" "f_closed x' = f_closed x"
      "close_cb x' = close_cb x" "f_reading x' \<longrightarrow> \<not> f_closing x" "fd_open x' = fd_open x"
  shows "streams_ok L' conn req"
  unfolding streams_ok_def
proof (intro conjI allI impI)
  show "timer_heap L' = []" "distinct (being_closed L')" "\<not> (conn \<and> req)"
    using s L by (simp_all add: streams_ok_def)
  fix k
  show "\<exists>y. handles L' k = Some y \<and> stream_ok L' k y"
  proof (cases "k = h")
    case True
    then show ?thesis using streams_okE [OF s, of h] x x' by (auto simp: L stream_ok_def)
  next
    case False
    then show ?thesis using streams_okE [OF s, of k] by (auto simp: L stream_ok_def)
  qed
next
  fix k y
  assume "conn \<or> req" "handles L' k = Some y"
  then show "\<not> f_closing y" using s x x' by (auto simp: L streams_ok_def split: if_splits)
next
  fix y
  assume "conn \<or> req" "handles L' SocketHandle = Some y"
  then show "fd_open y" using s x x' by (auto simp: L streams_ok_def split: if_splits)
qed

lemma streams_same:
  assumes "streams_ok L conn req" and "handles L' = handles L" "timer_heap L' = timer_heap L"
      "closing_handles L' = closing_handles L" "detached L' = detached L"
  shows "streams_ok L' conn req"
  using assms by (simp add: streams_ok_def stream_ok_def)

lemma streams_disconnect: "streams_ok L conn req \<Longrightarrow> streams_ok L False req"
  by (auto simp: streams_ok_def)

text \<open>Closing an open stream.\<close>

lemma streams_close:
  assumes s: "streams_ok L False False" and x: "handles L h = Some x" "\<not> f_closing x"
  obtains L' where "uv_close L h None = Ret L'" and "streams_ok L' False False"
    and "\<And>k y. k \<noteq> h \<Longrightarrow> handles L' k = Some y \<longleftrightarrow> handles L k = Some y"
    and "detached L' = detached L"
proof -
  have so: "stream_ok L h x" using streams_okE [OF s, of h] x by auto
  then have ty: "htype x = UV_TCP \<or> htype x = UV_TTY" "htype x \<noteq> UV_TIMER" and nc: "\<not> uv__is_closing x"
    using x by (auto simp: stream_ok_def uv__is_closing_def split: chid.splits)
  obtain L' x' where L': "uv_close L h None = Ret L'" "timers_ok L'" "handles L' = (handles L)(h \<mapsto> x')"
    and x': "x' = x\<lparr>f_closing := True, close_cb := None, f_active := False, f_reading := False,
           f_readable := False, f_writable := False, fd_open := False\<rparr>"
    and r: "closing_handles L' = h # closing_handles L" "detached L' = detached L"
    by (rule uv_close_stream [OF streams_timers [OF s] x(1) ty(1) nc]) blast
  have other: "stream_ok L' k y" if "k \<noteq> h" "stream_ok L k y" for k y
    using that by (simp add: stream_ok_def r)
  have all: "\<exists>y. handles L' k = Some y \<and> stream_ok L' k y" for k
  proof (cases "k = h")
    case True
    then show ?thesis using so x nc by (auto simp: L'(3) x' r stream_ok_def uv__is_closing_def)
  next
    case False
    obtain y where "handles L k = Some y" "stream_ok L k y" using streams_okE [OF s] .
    then show ?thesis using other [OF False] False by (simp add: L'(3))
  qed
  have "\<not> is_active_timer (handles L' k)" for k
    using all [of k] by (auto simp: is_active_timer_Some stream_ok_def split: chid.splits)
  then have heap: "timer_heap L' = []" using timers_ok_mem_iff [OF L'(2)] by (cases "timer_heap L'") auto
  have "h \<notin> set (being_closed L)" using so x(2) by (simp add: stream_ok_def)
  then have "streams_ok L' False False"
    using s heap all by (auto simp: streams_ok_def r)
  then show thesis using that L'(1,3) r by simp
qed

section \<open>Operations that keep the invariant\<close>

text \<open>
  \<open>keeps offline f\<close>: from a state that satisfies the invariant, and is not connected if \<open>offline\<close>,
  \<open>f\<close> returns, and leaves the invariant, the read buffers, and a client that is not connected as it is.
\<close>

definition keeps_to :: "'l client \<Rightarrow> 'l client \<Rightarrow> bool" where
  "keeps_to w w' \<longleftrightarrow> client_core w' \<and> c_bufs w' = c_bufs w \<and> connect_req w' = connect_req w \<and>
     detached (cuv w') = detached (cuv w) \<and> (\<not> connected w \<longrightarrow> \<not> connected w' \<and> cuv w' = cuv w)"

definition keeps :: "bool \<Rightarrow> ('l client \<Rightarrow> 'l client res) \<Rightarrow> bool" where
  "keeps offline f \<longleftrightarrow>
     (\<forall>w. client_core w \<and> (offline \<longrightarrow> \<not> connected w) \<longrightarrow> (\<exists>w'. f w = Ret w' \<and> keeps_to w w'))"

lemma keeps_to_trans: "keeps_to w1 w2 \<Longrightarrow> keeps_to w2 w3 \<Longrightarrow> keeps_to w1 w3"
  by (simp add: keeps_to_def)

lemma keeps_to_refl: "client_core w \<Longrightarrow> keeps_to w w"
  by (simp add: keeps_to_def)

lemma keeps_Ret [intro, simp]: "keeps offline Ret"
  by (simp add: keeps_def keeps_to_def)

lemma client_core_ignores [simp]:
  "client_core (show_event e w) = client_core w" "client_core (w\<lparr>c_reqs := n\<rparr>) = client_core w"
  "client_core (w\<lparr>c_bufs := bs\<rparr>) = client_core w" "client_core (w\<lparr>clua := Some l\<rparr>) =
     (streams_ok (cuv w) (connected w) (connect_req w) \<and> untaken w = [] \<and> kernel_takes w = [] \<and>
      c_mallocs w = [])"
  by (simp_all add: client_core_def show_event_def)

lemma show_event_simps [simp]:
  "cuv (show_event e w) = cuv w" "connected (show_event e w) = connected w"
  "c_bufs (show_event e w) = c_bufs w" "connect_req (show_event e w) = connect_req w" "clua (show_event e w) = clua w"
  "cscript (show_event e w) = cscript w" "c_mallocs (show_event e w) = c_mallocs w"
  by (simp_all add: show_event_def)

text \<open>Sending.\<close>

lemma client_send_ok:
  assumes w: "client_core w"
  obtains r w' where "client_send src data w = Ret (r, w')" and "keeps_to w w'"
    and "connected w' = connected w" and "cscript w' = cscript w"
proof (cases "connected w")
  case False
  then show thesis using that [of "- 1" w] w by (simp add: client_send_def keeps_to_def)
next
  case True
  note conn = this
  have s: "streams_ok (cuv w) True False" using w True by (auto simp: client_core_def streams_ok_def)
  obtain x where x: "handles (cuv w) SocketHandle = Some x" "stream_ok (cuv w) SocketHandle x"
    using streams_okE [OF s] .
  then have fd: "fd_open x" and ty: "htype x = UV_TCP" using s by (auto simp: streams_ok_def stream_ok_def)
  show thesis
  proof (cases "f_writable x")
    case False
    have "client_send src data w = Ret (UV_EPIPE, w\<lparr>c_reqs := c_reqs w + 1\<rparr>)"
      using w True False x(1) fd ty
      by (simp add: client_send_def c_malloc_def client_core_def on_cuv_rc_def uv_write_def
          UV_EPIPE_def set_cuv_def Let_def)
    then show thesis using that [of UV_EPIPE "w\<lparr>c_reqs := c_reqs w + 1\<rparr>"] w by (simp add: keeps_to_def)
  next
    case True
    let ?L = "(cuv w)\<lparr>active_reqs := active_reqs (cuv w) + 1,
      write_queue := write_queue (cuv w) @ [(SocketHandle, data)]\<rparr>"
    let ?w = "show_event (Sent data) (w\<lparr>c_reqs := c_reqs w + 1, cuv := ?L\<rparr>)"
    have "streams_ok ?L (connected w) (connect_req w)"
      by (rule streams_same [of "cuv w"]) (use w in \<open>simp_all add: client_core_def\<close>)
    then have core: "client_core ?w" using w by (simp add: client_core_def show_event_def)
    have k: "keeps_to w ?w"
      unfolding keeps_to_def by (intro conjI core) (simp_all add: show_event_def conn)
    have "client_send src data w = Ret (0, ?w)"
      using w True x(1) fd ty \<open>connected w\<close>
      by (simp add: client_send_def c_malloc_def client_core_def on_cuv_rc_def uv_write_def
          set_cuv_def Let_def show_event_def)
    then show thesis by (rule that [OF _ k]) (simp_all add: show_event_def)
  qed
qed

text \<open>Scripts: calls of \<open>disconnect\<close> aside, they only send.\<close>

lemma run_client_lua_ok:
  assumes d: "keeps offline disconnect" and w: "client_core w" "offline \<longrightarrow> \<not> connected w"
  shows "\<exists>b w'. run_client_lua disconnect act w = Ret (b, w') \<and> keeps_to w w'"
  using w
proof (induction act arbitrary: w)
  case (ClReturn l)
  then show ?case by (auto simp: keeps_to_def client_core_def)
next
  case (ClError l m)
  then show ?case by (auto simp: keeps_to_def client_core_def)
next
  case (ClSend bs k)
  show ?case
  proof (cases "connected w")
    case False
    then show ?thesis using ClSend by (simp add: c_lua_send_data_def)
  next
    case True
    obtain r w1 where s: "client_send LuaString bs w = Ret (r, w1)" "keeps_to w w1"
      using client_send_ok [OF ClSend.prems(1)] .
    have w1: "client_core w1" "offline \<longrightarrow> \<not> connected w1"
      using s(2) ClSend.prems by (simp_all add: keeps_to_def)
    obtain b w2 where "run_client_lua disconnect
        (k (if r = 0 then LuaTrue else LuaFalse (Strerror r))) w1 = Ret (b, w2)" "keeps_to w1 w2"
      using ClSend.IH [OF rangeI w1] by blast
    then show ?thesis using s True keeps_to_trans by (auto simp: c_lua_send_data_def)
  qed
next
  case (ClIsConnected k)
  then show ?case by simp
next
  case (ClDisconnect act)
  obtain w1 where w1: "disconnect w = Ret w1" "client_core w1" "offline \<longrightarrow> \<not> connected w1"
    "keeps_to w w1"
    using d ClDisconnect.prems by (auto simp: keeps_def keeps_to_def)
  obtain b w2 where "run_client_lua disconnect act w1 = Ret (b, w2)" "keeps_to w1 w2"
    using ClDisconnect.IH [OF w1(2,3)] by blast
  then show ?case using w1 keeps_to_trans by auto
next
  case (ClLog m act)
  have "client_core (show_event (ClLogLine m) w)" "offline \<longrightarrow> \<not> connected (show_event (ClLogLine m) w)"
    using ClLog.prems by simp_all
  from ClLog.IH [OF this] show ?case by (auto simp: keeps_to_def)
qed

lemma client_call_ok:
  fixes disconnect :: "'l client \<Rightarrow> 'l client res"
  assumes d: "keeps offline disconnect" and o: "keeps offline otherwise"
  shows "keeps offline (client_call disconnect e f otherwise)"
  unfolding keeps_def
proof (intro allI impI)
  fix w :: "'l client"
  assume w: "client_core w \<and> (offline \<longrightarrow> \<not> connected w)"
  then obtain l where l: "clua w = Some l" by (auto simp: client_core_def)
  show "\<exists>w'. client_call disconnect e f otherwise w = Ret w' \<and> keeps_to w w'"
  proof (cases "f l")
    case None
    then show ?thesis using l o w by (auto simp: client_call_def keeps_def)
  next
    case (Some act)
    obtain b w' where "run_client_lua disconnect act (show_event e w) = Ret (b, w')"
      "keeps_to (show_event e w) w'"
      using run_client_lua_ok [OF d, of "show_event e w" act] w by auto
    then show ?thesis using l Some by (auto simp: client_call_def keeps_to_def)
  qed
qed

text \<open>Disconnecting.\<close>

lemma nested_disconnect_keeps: "keeps True nested_disconnect"
  by (simp add: keeps_def nested_disconnect_def keeps_to_def)

lemma close_stream_keeps:
  assumes w: "client_core w" "\<not> connected w" "\<not> connect_req w"
    and x: "handles (cuv w) h = Some x" "\<not> f_closing x"
  obtains L where "on_cuv (\<lambda>L. uv_close L h None) w = Ret (set_cuv L w)" and "client_core (set_cuv L w)"
    and "\<And>k y. k \<noteq> h \<Longrightarrow> handles L k = Some y \<longleftrightarrow> handles (cuv w) k = Some y"
    and "detached L = detached (cuv w)"
proof -
  have s: "streams_ok (cuv w) False False" using w by (simp add: client_core_def)
  obtain L where L: "uv_close (cuv w) h None = Ret L" "streams_ok L False False"
    "\<And>k y. k \<noteq> h \<Longrightarrow> handles L k = Some y \<longleftrightarrow> handles (cuv w) k = Some y"
    "detached L = detached (cuv w)"
    by (rule streams_close [OF s x]) blast
  have "client_core (set_cuv L w)" using w L(2) by (simp add: client_core_def set_cuv_def)
  then show thesis using that [of L] L by (simp add: on_cuv_def)
qed

lemma client_disconnect_core:
  fixes w :: "'l client"
  assumes w: "client_core w" "connected w"
  obtains w' where "client_disconnect w = Ret w'" and "client_core w'" and "\<not> connected w'"
    and "c_bufs w' = c_bufs w" and "\<not> connect_req w'" and "detached (cuv w') = detached (cuv w)"
proof -
  let ?w0 = "w\<lparr>connected := False\<rparr>"
  have s: "streams_ok (cuv w) True False" using w by (auto simp: client_core_def streams_ok_def)
  have w0: "client_core ?w0" "\<not> connected ?w0"
    using w streams_disconnect by (auto simp: client_core_def)
  have "keeps True (client_call nested_disconnect CallDisconnected (on_disconnected (cscript w)) (Ret :: 'l client \<Rightarrow> _))"
    by (rule client_call_ok [OF nested_disconnect_keeps keeps_Ret])
  then obtain w1 where w1: "client_call nested_disconnect CallDisconnected (on_disconnected (cscript w)) Ret ?w0
      = Ret w1" "keeps_to ?w0 w1"
    using w0 unfolding keeps_def by blast
  have nr: "\<not> connect_req w" using w unfolding client_core_def streams_ok_def by blast
  have c1: "client_core w1" "\<not> connected w1" "\<not> connect_req w1" "cuv w1 = cuv w"
    using w1(2) nr by (simp_all add: keeps_to_def)
  have open_all: "\<exists>x. handles (cuv w) h = Some x \<and> \<not> f_closing x" for h
    using s unfolding streams_ok_def by blast
  obtain x where x: "handles (cuv w1) SocketHandle = Some x" "\<not> f_closing x"
    using open_all c1(4) by auto
  obtain L2 where L2: "on_cuv (\<lambda>L. uv_close L SocketHandle None) w1 = Ret (set_cuv L2 w1)"
    "client_core (set_cuv L2 w1)"
    "\<And>k y. k \<noteq> SocketHandle \<Longrightarrow> handles L2 k = Some y \<longleftrightarrow> handles (cuv w1) k = Some y"
    "detached L2 = detached (cuv w1)"
    by (rule close_stream_keeps [OF c1(1-3) x]) blast
  let ?w2 = "set_cuv L2 w1"
  obtain t where t: "handles (cuv ?w2) TtyHandle = Some t" "\<not> f_closing t"
    using open_all [of TtyHandle] c1(4) L2(3) by (auto simp: set_cuv_def)
  have n2: "\<not> connected ?w2" "\<not> connect_req ?w2" using c1 by (simp_all add: set_cuv_def)
  obtain L3 where L3: "on_cuv (\<lambda>L. uv_close L TtyHandle None) ?w2 = Ret (set_cuv L3 ?w2)"
    "client_core (set_cuv L3 ?w2)"
    "\<And>k y. k \<noteq> TtyHandle \<Longrightarrow> handles L3 k = Some y \<longleftrightarrow> handles (cuv ?w2) k = Some y"
    "detached L3 = detached (cuv ?w2)"
    by (rule close_stream_keeps [OF L2(2) n2 t]) blast
  show thesis
  proof (rule that)
    show "client_disconnect w = Ret (show_event PrintedDisconnected (set_cuv L3 ?w2))"
      using w(2) w1(1) L2(1) L3(1) by (simp add: client_disconnect_def)
    show "client_core (show_event PrintedDisconnected (set_cuv L3 ?w2))" using L3(2) by simp
    show "\<not> connected (show_event PrintedDisconnected (set_cuv L3 ?w2))"
      using c1(2) by (simp add: set_cuv_def)
    show "\<not> connect_req (show_event PrintedDisconnected (set_cuv L3 ?w2))"
      using c1(3) by (simp add: set_cuv_def)
    show "detached (cuv (show_event PrintedDisconnected (set_cuv L3 ?w2))) = detached (cuv w)"
      using L2(4) L3(4) c1(4) by (simp add: set_cuv_def)
    show "c_bufs (show_event PrintedDisconnected (set_cuv L3 ?w2)) = c_bufs w"
      using w1(2) by (simp add: set_cuv_def keeps_to_def)
  qed
qed

lemma client_disconnect_keeps: "keeps False client_disconnect"
  unfolding keeps_def
proof (intro allI impI)
  fix w :: "'l client"
  assume w: "client_core w \<and> (False \<longrightarrow> \<not> connected w)"
  show "\<exists>w'. client_disconnect w = Ret w' \<and> keeps_to w w'"
  proof (cases "connected w")
    case True
    then have r: "\<not> connect_req w" using w by (auto simp: client_core_def streams_ok_def)
    obtain w' where "client_disconnect w = Ret w'" "client_core w'" "c_bufs w' = c_bufs w" "\<not> connect_req w'"
      "detached (cuv w') = detached (cuv w)"
      using client_disconnect_core [of w] w True by blast
    then show ?thesis using True r by (simp add: keeps_to_def)
  next
    case False
    then show ?thesis using w by (simp add: client_disconnect_def keeps_to_def)
  qed
qed

lemmas client_call_keeps = client_call_ok [OF client_disconnect_keeps]

end
