(* ===== verification/Client_Run.thy ===== *)
theory Client_Run
  imports Client_Facts
begin

text \<open>
  Every event of the client: the two read callbacks with their buffers, \<open>uv__read\<close> around them,
  connecting, completed writes, the closing pass; then sequences of events and the whole program.
\<close>

section \<open>Read callbacks\<close>

text \<open>The buffer of the read in progress is the newest one.\<close>

definition holds_buf :: "nat \<Rightarrow> nat \<Rightarrow> (nat \<times> nat) list \<Rightarrow> 'l client \<Rightarrow> bool" where
  "holds_buf b len bs w \<longleftrightarrow> c_bufs w = (b, len) # bs \<and> b \<notin> fst ` set bs"

lemma filter_other_bufs: "b \<notin> fst ` set bs \<Longrightarrow> filter (\<lambda>x. fst x \<noteq> b) bs = bs"
  by (auto simp: filter_id_conv)

lemma c_free_buf_own:
  assumes "holds_buf b len bs w"
  shows "c_free_buf (Some b) w = Ret (w\<lparr>c_bufs := bs\<rparr>)"
  using assms filter_other_bufs [of b bs] by (simp add: c_free_buf_def holds_buf_def)

lemma fold_max_upper: "x \<in> set xs \<Longrightarrow> x \<le> fold max xs (n :: nat)"
proof -
  have "\<And>n. n \<le> fold max xs n \<and> (\<forall>x \<in> set xs. x \<le> fold max xs n)"
  proof (induction xs)
    case (Cons a xs)
    show ?case using Cons.IH [of "max a n"] by auto
  qed simp
  then show "x \<in> set xs \<Longrightarrow> x \<le> fold max xs n" by blast
qed

lemma c_alloc_buffer_ok:
  assumes "client_core w"
  obtains b where "c_alloc_buffer n w = ((Some b, n), w\<lparr>c_bufs := (b, n) # c_bufs w\<rparr>)"
    and "holds_buf b n (c_bufs w) (w\<lparr>c_bufs := (b, n) # c_bufs w\<rparr>)"
proof -
  let ?b = "Suc (fold max (map fst (c_bufs w)) 0)"
  have "?b \<notin> fst ` set (c_bufs w)"
    using fold_max_upper [of _ "map fst (c_bufs w)" 0] by fastforce
  then show thesis using that [of ?b] assms
    by (simp add: c_alloc_buffer_def c_malloc_def client_core_def holds_buf_def)
qed

definition settles_to :: "(nat \<times> nat) list \<Rightarrow> 'l client \<Rightarrow> 'l client \<Rightarrow> bool" where
  "settles_to bs w w' \<longleftrightarrow> client_core w' \<and> c_bufs w' = bs \<and> detached (cuv w') = detached (cuv w)"

text \<open>A callback that keeps the invariant and then frees its buffer.\<close>

lemma keeps_then_free:
  assumes k: "keeps False f" and w: "client_core w" and h: "holds_buf b len bs w"
  shows "\<exists>w'. then_do (f w) (c_free_buf (Some b)) = Ret w' \<and> settles_to bs w w'"
proof -
  obtain w1 where w1: "f w = Ret w1" "keeps_to w w1"
    using k w unfolding keeps_def by blast
  have h1: "holds_buf b len bs w1" using h w1(2) by (simp add: holds_buf_def keeps_to_def)
  have "settles_to bs w (w1\<lparr>c_bufs := bs\<rparr>)" using w1(2) by (simp add: settles_to_def keeps_to_def)
  then show ?thesis using w1(1) c_free_buf_own [OF h1] by auto
qed

lemma settles_free: "client_core w \<Longrightarrow> holds_buf b len bs w \<Longrightarrow>
    \<exists>w'. c_free_buf (Some b) w = Ret w' \<and> settles_to bs w w'"
  by (simp add: c_free_buf_own settles_to_def)

lemma show_keeps: "keeps False (\<lambda>w. Ret (show_event e w))"
  by (auto simp: keeps_def keeps_to_def)

lemma c_on_read_ok:
  assumes w: "client_core w" and h: "holds_buf b len bs w"
  shows "\<exists>w'. c_on_read r (Some b) w = Ret w' \<and> settles_to bs w w'"
proof (cases r)
  case (ReadError e)
  let ?w = "if e \<noteq> UV_EOF then show_event (ClStderr ''Read error'') w else w"
  have "client_core ?w" "holds_buf b len bs ?w" "cuv ?w = cuv w" using w h by (simp_all add: holds_buf_def)
  then show ?thesis
    using keeps_then_free [OF client_disconnect_keeps, of ?w b len bs] ReadError
    by (cases "e = UV_EOF") (simp_all add: c_on_read_def settles_to_def)
next
  case (ReadData data)
  show ?thesis
  proof (cases "data = []")
    case True
    then show ?thesis using settles_free [OF w h] ReadData by (simp add: c_on_read_def)
  next
    case False
    then show ?thesis
      using keeps_then_free [OF client_call_keeps [OF show_keeps] w h] ReadData
      by (simp add: c_on_read_def)
  qed
qed

lemma send_line_keeps:
  "keeps False (\<lambda>w. then_do (client_send src line w)
     (\<lambda>(_, w). then_do (client_send Literal [10] w) (\<lambda>(_, w). Ret w)))"
  unfolding keeps_def
proof (intro allI impI)
  fix w :: "'l client"
  assume w: "client_core w \<and> (False \<longrightarrow> \<not> connected w)"
  obtain r1 w1 where w1: "client_send src line w = Ret (r1, w1)" "keeps_to w w1"
    using client_send_ok [of w src line] w by blast
  have "client_core w1" using w1(2) by (simp add: keeps_to_def)
  then obtain r2 w2 where w2: "client_send Literal [10] w1 = Ret (r2, w2)" "keeps_to w1 w2"
    using client_send_ok [of w1 Literal "[10]"] by blast
  show "\<exists>w'. then_do (client_send src line w)
     (\<lambda>(_, w). then_do (client_send Literal [10] w) (\<lambda>(_, w). Ret w)) = Ret w' \<and> keeps_to w w'"
    using w1 w2 keeps_to_trans [OF w1(2) w2(2)] by simp
qed

lemma on_tty_read_ok:
  assumes w: "client_core w" and h: "holds_buf b len bs w"
    and fits: "\<And>d. r = ReadData d \<Longrightarrow> length (strip_newline d) < len"
  shows "\<exists>w'. on_tty_read r (Some b) w = Ret w' \<and> settles_to bs w w'"
proof (cases r)
  case (ReadError e)
  let ?w = "if e \<noteq> UV_EOF then show_event (ClStderr ''TTY read error'') w else w"
  have "client_core ?w" "holds_buf b len bs ?w" "cuv ?w = cuv w" using w h by (simp_all add: holds_buf_def)
  then show ?thesis
    using settles_free [of ?w b len bs] ReadError
    by (cases "e = UV_EOF") (simp_all add: on_tty_read_def settles_to_def)
next
  case (ReadData data)
  show ?thesis
  proof (cases "data = [] \<or> strip_newline data = []")
    case True
    then show ?thesis using settles_free [OF w h] ReadData by (auto simp: on_tty_read_def Let_def)
  next
    case False
    have nul: "write_nul (Some b) (length (strip_newline data)) w = Ret w"
      using fits [OF ReadData] h by (simp add: write_nul_def holds_buf_def)
    show ?thesis
      using keeps_then_free [OF client_call_keeps [OF send_line_keeps] w h] ReadData False nul
      by (simp add: on_tty_read_def Let_def)
  qed
qed

text \<open>A read result that does not fill the buffer of a terminal.\<close>

definition fits_buffer :: "chid \<Rightarrow> kernel_read \<Rightarrow> bool" where
  "fits_buffer h k \<longleftrightarrow>
     (h = TtyHandle \<longrightarrow> (\<forall>bs. k = KernelData bs \<longrightarrow> length (strip_newline (take 65536 bs)) < 65536))"

lemma client_read_cb_ok:
  assumes w: "client_core w" and h: "holds_buf b 65536 bs w"
    and "\<And>d. r = ReadData d \<Longrightarrow> h = TtyHandle \<Longrightarrow> length (strip_newline d) < 65536"
  shows "\<exists>w'. client_read_cb h r (Some b) w = Ret w' \<and> settles_to bs w w'"
  using c_on_read_ok [OF w h, of r] on_tty_read_ok [OF w h, of r] assms(3)
  by (cases h) (simp_all add: client_read_cb_def)

section \<open>The read loop\<close>

lemma core_stop_reading:
  assumes w: "client_core w" and x: "handles (cuv w) h = Some x"
    and flags: "x' = x\<lparr>f_reading := False\<rparr> \<or> x' = x\<lparr>f_readable := False, f_writable := False\<rparr>"
  shows "client_core (set_cuv (set_handle (cuv w) h x') w)"
proof -
  have s: "streams_ok (cuv w) (connected w) (connect_req w)" using w by (simp add: client_core_def)
  have "f_reading x \<longrightarrow> \<not> f_closing x" using streams_okE [OF s, of h] x by (auto simp: stream_ok_def)
  then have "streams_ok (set_handle (cuv w) h x') (connected w) (connect_req w)"
    using flags by (intro streams_flags [OF s x, of _ x']) (auto simp: set_handle_def)
  then show ?thesis using w by (simp add: client_core_def set_cuv_def)
qed

lemma core_handle_stop:
  assumes w: "client_core w" and x: "handles (cuv w) h = Some x"
  obtains L where "uv__handle_stop (set_handle (cuv w) h (x\<lparr>f_reading := False\<rparr>)) h = Ret L"
    and "client_core (set_cuv L w)" and "detached L = detached (cuv w)"
proof -
  obtain n where n: "uv__handle_stop (set_handle (cuv w) h (x\<lparr>f_reading := False\<rparr>)) h =
      Ret ((cuv w)\<lparr>handles := (handles (cuv w))(h \<mapsto> x\<lparr>f_reading := False, f_active := False\<rparr>),
             active_handles := n\<rparr>)" (is "_ = Ret ?L")
    using handle_stop_flags [OF x] .
  have s: "streams_ok (cuv w) (connected w) (connect_req w)" using w by (simp add: client_core_def)
  have "streams_ok ?L (connected w) (connect_req w)"
    by (rule streams_flags [OF s x, of _ "x\<lparr>f_reading := False, f_active := False\<rparr>"]) simp_all
  then have "client_core (set_cuv ?L w)" using w by (simp add: client_core_def set_cuv_def)
  then show thesis using that [OF n] by simp
qed

lemma settles_trans:
  "settles_to bs w w1 \<Longrightarrow> settles_to (c_bufs w1) w1 w2 \<Longrightarrow> settles_to bs w w2"
  by (simp add: settles_to_def)

lemma client_read_ok:
  assumes "client_core w" and "\<forall>k \<in> set ks. fits_buffer h k"
  shows "\<exists>w'. uv__read cuv set_cuv (\<lambda>_. c_alloc_buffer) client_read_cb h ks w = Ret w' \<and>
    settles_to (c_bufs w) w w'"
  using assms
proof (induction ks arbitrary: w)
  case Nil
  then show ?case by (simp add: settles_to_def)
next
  case (Cons k ks)
  have s: "streams_ok (cuv w) (connected w) (connect_req w)" using Cons.prems by (simp add: client_core_def)
  obtain x where x: "handles (cuv w) h = Some x" using streams_okE [OF s] .
  show ?case
  proof (cases "f_reading x")
    case False
    then show ?thesis using x Cons.prems by (simp add: settles_to_def)
  next
    case True
    obtain b where a: "c_alloc_buffer 65536 w = ((Some b, 65536), w\<lparr>c_bufs := (b, 65536) # c_bufs w\<rparr>)"
      and hb: "holds_buf b 65536 (c_bufs w) (w\<lparr>c_bufs := (b, 65536) # c_bufs w\<rparr>)"
      using c_alloc_buffer_ok [OF Cons.prems(1)] .
    let ?w = "w\<lparr>c_bufs := (b, 65536) # c_bufs w\<rparr>"
    have w1: "client_core ?w" "handles (cuv ?w) h = Some x" "detached (cuv ?w) = detached (cuv w)"
      using Cons.prems(1) x by simp_all
    have cb: "\<exists>w'. client_read_cb h r (Some b) v = Ret w' \<and> settles_to (c_bufs w) w w'"
      if "client_core v" "c_bufs v = (b, 65536) # c_bufs w" "detached (cuv v) = detached (cuv w)"
        "\<And>d. r = ReadData d \<Longrightarrow> h = TtyHandle \<Longrightarrow> length (strip_newline d) < 65536" for r v
      using client_read_cb_ok [OF that(1), of b "c_bufs w" r h] hb that(2-4)
      by (simp add: holds_buf_def settles_to_def)
    show ?thesis
    proof (cases k)
      case KernelAgain
      then show ?thesis using cb [OF w1(1) _ w1(3), of "ReadData []"] x True a
        by (simp add: strip_newline_def)
    next
      case KernelEof
      obtain L where L: "uv__handle_stop (set_handle (cuv ?w) h (x\<lparr>f_reading := False\<rparr>)) h = Ret L"
        "client_core (set_cuv L ?w)" "detached L = detached (cuv ?w)"
        by (rule core_handle_stop [OF w1(1,2)]) blast
      then show ?thesis using cb [OF L(2), of "ReadError UV_EOF"] x True a KernelEof w1
        by (simp add: uv__stream_eof_def set_cuv_def)
    next
      case (KernelError e)
      let ?v = "set_cuv (set_handle (cuv ?w) h (x\<lparr>f_readable := False, f_writable := False\<rparr>)) ?w"
      have v: "client_core ?v" by (rule core_stop_reading [OF w1(1,2)]) simp
      obtain w2 where w2: "client_read_cb h (ReadError e) (Some b) ?v = Ret w2" "settles_to (c_bufs w) w w2"
        using cb [OF v, of "ReadError e"] by (auto simp: set_cuv_def set_handle_def)
      have c2: "client_core w2" using w2(2) by (simp add: settles_to_def)
      then obtain x2 where x2: "handles (cuv w2) h = Some x2"
        using streams_okE [of "cuv w2" "connected w2" "connect_req w2" h] by (auto simp: client_core_def)
      obtain L where L: "uv__handle_stop (set_handle (cuv w2) h (x2\<lparr>f_reading := False\<rparr>)) h = Ret L"
        "client_core (set_cuv L w2)" "detached L = detached (cuv w2)"
        by (rule core_handle_stop [OF c2 x2]) blast
      have "settles_to (c_bufs w) w (set_cuv L w2)"
        using L w2(2) by (simp add: settles_to_def set_cuv_def)
      then show ?thesis using KernelError x True a w2 x2 L(1) by simp
    next
      case (KernelData bs)
      obtain w2 where w2: "client_read_cb h (ReadData (take 65536 bs)) (Some b) ?w = Ret w2"
        "settles_to (c_bufs w) w w2"
        using cb [OF w1(1) _ w1(3), of "ReadData (take 65536 bs)"] Cons.prems(2) KernelData
        by (auto simp: fits_buffer_def)
      have c2: "client_core w2" "c_bufs w2 = c_bufs w" "detached (cuv w2) = detached (cuv w)"
        using w2(2) by (simp_all add: settles_to_def)
      show ?thesis
      proof (cases "length bs < 65536")
        case True
        then show ?thesis using KernelData x \<open>f_reading x\<close> a w2 by simp
      next
        case False
        obtain w3 where "uv__read cuv set_cuv (\<lambda>_. c_alloc_buffer) client_read_cb h ks w2 = Ret w3"
          "settles_to (c_bufs w) w w3"
          using Cons.IH [OF c2(1)] Cons.prems(2) c2 by (auto simp: settles_to_def)
        then show ?thesis using KernelData x \<open>f_reading x\<close> a w2 False by simp
      qed
    qed
  qed
qed

section \<open>Completed writes and closed streams\<close>

definition same_streams :: "'l client \<Rightarrow> 'l client \<Rightarrow> bool" where
  "same_streams w w' \<longleftrightarrow> client_core w' \<and> c_bufs w' = c_bufs w \<and>
     handles (cuv w') = handles (cuv w) \<and> closing_handles (cuv w') = closing_handles (cuv w) \<and>
     detached (cuv w') = detached (cuv w) \<and> connected w' = connected w \<and> connect_req w' = connect_req w"

lemma same_streams_trans: "same_streams w1 w2 \<Longrightarrow> same_streams w2 w3 \<Longrightarrow> same_streams w1 w3"
  by (simp add: same_streams_def)

lemma on_write_ok:
  assumes w: "client_core w"
  shows "\<exists>w'. on_write status bs (set_cuv ((cuv w)\<lparr>write_queue := q, active_reqs := n\<rparr>) w) = Ret w' \<and>
    same_streams w w'"
proof -
  have "streams_ok ((cuv w)\<lparr>write_queue := q, active_reqs := n\<rparr>) (connected w) (connect_req w)"
    by (rule streams_same [of "cuv w"]) (use w in \<open>simp_all add: client_core_def\<close>)
  then show ?thesis using w
    by (simp add: on_write_def Let_def same_streams_def client_core_def set_cuv_def show_event_def)
qed

lemma write_callbacks_ok:
  assumes "client_core w"
  shows "\<exists>w'. write_callbacks cuv set_cuv on_write reqs w = Ret w' \<and> same_streams w w'"
  using assms
proof (induction reqs arbitrary: w)
  case Nil
  then show ?case by (simp add: same_streams_def)
next
  case (Cons r reqs)
  obtain h bs where r: "r = (h, bs)" by (cases r)
  obtain w1 where w1: "on_write UV_ECANCELED bs (set_cuv ((cuv w)\<lparr>active_reqs := active_reqs (cuv w) - 1\<rparr>) w) = Ret w1"
    "same_streams w w1"
    using on_write_ok [OF Cons.prems, where status = UV_ECANCELED and bs = bs and
        q = "write_queue (cuv w)" and n = "active_reqs (cuv w) - 1"] by auto
  have "client_core w1" using w1(2) by (simp add: same_streams_def)
  from Cons.IH [OF this] w1 r show ?case using same_streams_trans by fastforce
qed

lemma stream_destroy_ok:
  assumes w: "client_core w"
  shows "\<exists>w'. uv__stream_destroy cuv set_cuv on_write h w = Ret w' \<and> same_streams w w'"
proof -
  let ?w = "set_cuv ((cuv w)\<lparr>write_queue := filter (\<lambda>r. fst r \<noteq> h) (write_queue (cuv w))\<rparr>) w"
  have "streams_ok (cuv ?w) (connected w) (connect_req w)"
    by (rule streams_same [of "cuv w"]) (use w in \<open>simp_all add: client_core_def set_cuv_def\<close>)
  then have c: "client_core ?w" using w by (simp add: client_core_def set_cuv_def)
  obtain w' where "write_callbacks cuv set_cuv on_write (filter (\<lambda>r. fst r = h) (write_queue (cuv w))) ?w = Ret w'"
    "same_streams ?w w'" using write_callbacks_ok [OF c] by blast
  then show ?thesis by (simp add: uv__stream_destroy_def Let_def same_streams_def set_cuv_def)
qed

text \<open>Finishing the first handle of the detached chain.\<close>

lemma finish_close_ok:
  assumes w: "client_core w" and d: "detached (cuv w) = p # q"
  obtains w' where "uv__finish_close cuv set_cuv (\<lambda>_ _. Ret) on_write p (set_cuv ((cuv w)\<lparr>detached := q\<rparr>) w) = Ret w'"
    and "client_core w'" and "c_bufs w' = c_bufs w" and "detached (cuv w') = q"
    and "connected w' = connected w"
proof -
  have s: "streams_ok (cuv w) (connected w) (connect_req w)" using w by (simp add: client_core_def)
  obtain x where x: "handles (cuv w) p = Some x" "stream_ok (cuv w) p x" using streams_okE [OF s] .
  have fc: "f_closing x" "\<not> f_closed x" "close_cb x = None" and ty: "htype x = UV_TCP \<or> htype x = UV_TTY"
    using x(2) d by (auto simp: stream_ok_def split: chid.splits)
  have nc: "\<not> connected w" "\<not> connect_req w" using s fc(1) x(1) unfolding streams_ok_def by blast+
  let ?L = "(set_handle (cuv w) p (x\<lparr>f_closed := True\<rparr>))\<lparr>detached := q\<rparr>"
  have p: "p \<notin> set (closing_handles (cuv w) @ q)" using s d by (auto simp: streams_ok_def)
  have Lok: "streams_ok ?L False False"
    using s d x fc p nc unfolding streams_ok_def by (auto simp: set_handle_def stream_ok_def)
  let ?v = "set_cuv ?L w"
  have v: "client_core ?v" using w Lok nc by (simp add: client_core_def set_cuv_def)
  obtain w1 where w1: "uv__stream_destroy cuv set_cuv on_write p ?v = Ret w1" "same_streams ?v w1"
    using stream_destroy_ok [OF v] by blast
  have h1: "handles (cuv w1) p = Some (x\<lparr>f_closed := True\<rparr>)" "connected w1 = connected w"
    "connect_req w1 = connect_req w" "detached (cuv w1) = q" "client_core w1" "c_bufs w1 = c_bufs w"
    using w1(2) by (simp_all add: same_streams_def set_cuv_def set_handle_def)
  have s1: "streams_ok (cuv w1) False False" using h1 nc by (simp add: client_core_def)
  obtain L2 where L2: "uv__handle_unref (cuv w1) p = Ret L2"
    "handles L2 = (handles (cuv w1))(p \<mapsto> x\<lparr>f_closed := True, f_ref := False\<rparr>)" "timer_heap L2 = timer_heap (cuv w1)"
    "closing_handles L2 = closing_handles (cuv w1)" "detached L2 = detached (cuv w1)"
  proof (cases "f_ref x")
    case True
    then show thesis using that [of "set_handle (cuv w1) p (x\<lparr>f_closed := True, f_ref := False\<rparr>)"] h1(1) fc
      by (simp add: uv__handle_unref_def set_handle_def)
  next
    case False
    have "x\<lparr>f_closed := True, f_ref := False\<rparr> = x\<lparr>f_closed := True\<rparr>" using False by (cases x) simp
    then have "handles (cuv w1) = (handles (cuv w1))(p \<mapsto> x\<lparr>f_closed := True, f_ref := False\<rparr>)"
      using h1(1) by (simp add: fun_upd_idem)
    then show thesis using that [of "cuv w1"] h1(1) False by (simp add: uv__handle_unref_def)
  qed
  let ?w' = "set_cuv (L2\<lparr>handle_queue := remove1 p (handle_queue L2)\<rparr>) w1"
  have x1: "f_reading (x\<lparr>f_closed := True\<rparr>) \<longrightarrow> \<not> f_closing (x\<lparr>f_closed := True\<rparr>)"
    using x(2) fc by (simp add: stream_ok_def)
  have "streams_ok (L2\<lparr>handle_queue := remove1 p (handle_queue L2)\<rparr>) False False"
    by (rule streams_flags [OF s1 h1(1), of _ "x\<lparr>f_closed := True, f_ref := False\<rparr>"])
      (use L2 x1 in simp_all)
  then have c: "client_core ?w'" using h1 nc by (simp add: client_core_def set_cuv_def)
  have run: "uv__finish_close cuv set_cuv (\<lambda>_ _. Ret) on_write p (set_cuv ((cuv w)\<lparr>detached := q\<rparr>) w) = Ret ?w'"
  proof -
    have e: "set_handle ((cuv w)\<lparr>detached := q\<rparr>) p y = (set_handle (cuv w) p y)\<lparr>detached := q\<rparr>" for y
      by (simp add: set_handle_def)
    then show ?thesis
      using x(1) fc ty w1(1) L2(1,2)
      by (elim disjE) (simp_all add: uv__finish_close_def Let_def set_cuv_def e)
  qed
  show thesis by (rule that [OF run c]) (use h1 L2 in \<open>simp_all add: set_cuv_def\<close>)
qed

lemma finish_closing_ok:
  assumes "client_core w" and "detached (cuv w) = q"
  shows "\<exists>w'. finish_closing cuv set_cuv (\<lambda>_ _. Ret) on_write q w = Ret w' \<and>
    settles_to (c_bufs w) (w\<lparr>cuv := (cuv w)\<lparr>detached := []\<rparr>\<rparr>) w'"
  using assms
proof (induction q arbitrary: w)
  case Nil
  then show ?case by (simp add: settles_to_def)
next
  case (Cons p q)
  obtain w1 where w1: "uv__finish_close cuv set_cuv (\<lambda>_ _. Ret) on_write p (set_cuv ((cuv w)\<lparr>detached := q\<rparr>) w) = Ret w1"
    "client_core w1" "c_bufs w1 = c_bufs w" "detached (cuv w1) = q"
    by (rule finish_close_ok [OF Cons.prems]) blast
  then show ?case using Cons.IH [OF w1(2,4)] by (auto simp: settles_to_def)
qed

lemma close_pass_ok:
  assumes w: "client_core w" and d: "detached (cuv w) = []"
  shows "\<exists>w'. uv__run_closing_handles cuv set_cuv (\<lambda>_ _. Ret) on_write w = Ret w' \<and> settles_to (c_bufs w) w w'"
proof -
  let ?w = "set_cuv ((cuv w)\<lparr>closing_handles := [], detached := closing_handles (cuv w)\<rparr>) w"
  have "streams_ok (cuv ?w) (connected w) (connect_req w)"
    using w d by (simp add: client_core_def streams_ok_def stream_ok_def set_cuv_def)
  then have c: "client_core ?w" using w by (simp add: client_core_def set_cuv_def)
  from finish_closing_ok [OF c, of "closing_handles (cuv w)"] show ?thesis
    using d by (auto simp: uv__run_closing_handles_def settles_to_def set_cuv_def)
qed

end
