(* ===== verification/Client_Props.thy ===== *)
theory Client_Props
  imports Client_Run
begin

text \<open>
  Properties of the client: sequences of events from start to end never fault under the stated
  conditions, and what happens without each of them.
\<close>

section \<open>Connecting\<close>

lemma read_start_ok:
  assumes w: "client_core w"
  obtains r w' where "on_cuv_rc (\<lambda>L. uv_read_start L h 0) w = Ret (r, w')" and "client_core w'"
    and "c_bufs w' = c_bufs w" and "detached (cuv w') = detached (cuv w)"
    and "connect_req w' = connect_req w" and "cscript w' = cscript w"
proof -
  have s: "streams_ok (cuv w) (connected w) (connect_req w)" using w by (simp add: client_core_def)
  obtain x where x: "handles (cuv w) h = Some x" using streams_okE [OF s] .
  show thesis
  proof (cases "f_closing x \<or> f_reading x \<or> \<not> f_readable x")
    case True
    have "\<exists>r. uv_read_start (cuv w) h 0 = Ret (r, cuv w)"
      using x True by (cases "f_closing x"; cases "f_reading x") (simp_all add: uv_read_start_def)
    then obtain r where "uv_read_start (cuv w) h 0 = Ret (r, cuv w)" by blast
    then show thesis using that [of r "set_cuv (cuv w) w"] w
      by (simp add: on_cuv_rc_def set_cuv_def)
  next
    case False
    obtain n where L: "uv_read_start (cuv w) h 0 = Ret (0, (cuv w)\<lparr>handles := (handles (cuv w))
        (h \<mapsto> x\<lparr>f_reading := True, f_active := True\<rparr>), active_handles := n\<rparr>)" (is "_ = Ret (0, ?L)")
    proof (cases "f_active x")
      case True
      have run: "uv_read_start (cuv w) h 0 = Ret (0, (cuv w)\<lparr>handles := (handles (cuv w))
          (h \<mapsto> x\<lparr>f_reading := True\<rparr>), active_handles := active_handles (cuv w)\<rparr>)"
        using x False True by (simp add: uv_read_start_def uv__handle_start_def set_handle_def)
      have "x\<lparr>f_reading := True\<rparr> = x\<lparr>f_reading := True, f_active := True\<rparr>" using True by (cases x) simp
      then show thesis using that run by metis
    next
      case False
      then show thesis using that [of "active_handles (cuv w) + (if f_ref x then 1 else 0)"] x
          \<open>\<not> (f_closing x \<or> f_reading x \<or> \<not> f_readable x)\<close>
        by (simp add: uv_read_start_def uv__handle_start_def set_handle_def)
    qed
    have "streams_ok ?L (connected w) (connect_req w)"
      by (rule streams_flags [OF s x, of _ "x\<lparr>f_reading := True, f_active := True\<rparr>"])
        (use False in simp_all)
    then have "client_core (set_cuv ?L w)" using w by (simp add: client_core_def set_cuv_def)
    then show thesis using that [of 0 "set_cuv ?L w"] L by (simp add: on_cuv_rc_def set_cuv_def)
  qed
qed

lemma on_connect_ok:
  assumes w: "client_core (w\<lparr>connected := True\<rparr>)" "client_core w"
  shows "\<exists>w'. on_connect err w = Ret w' \<and> settles_to (c_bufs w) w w'"
proof (cases "err < 0")
  case True
  have "client_core ((show_event (ClStderr ''Connection error'') w)\<lparr>connected := False\<rparr>)"
    using w(2) streams_disconnect by (auto simp: client_core_def show_event_def)
  then show ?thesis using True by (simp add: on_connect_def settles_to_def)
next
  case False
  let ?w = "show_event (PrintedConnected (case host w of Some h \<Rightarrow> h | None \<Rightarrow> '''') (port w))
                  (w\<lparr>connected := True\<rparr>)"
  have c: "client_core ?w" using w(1) by simp
  obtain r1 w1 where w1: "on_cuv_rc (\<lambda>L. uv_read_start L SocketHandle 0) ?w = Ret (r1, w1)"
    "client_core w1" "c_bufs w1 = c_bufs ?w" "detached (cuv w1) = detached (cuv ?w)"
    by (rule read_start_ok [OF c]) blast
  obtain r2 w2 where w2: "on_cuv_rc (\<lambda>L. uv_read_start L TtyHandle 0) w1 = Ret (r2, w2)"
    "client_core w2" "c_bufs w2 = c_bufs w1" "detached (cuv w2) = detached (cuv w1)"
    by (rule read_start_ok [OF w1(2)]) blast
  obtain w3 where "client_call client_disconnect CallConnected (on_connected (cscript w2)) Ret w2 = Ret w3"
    "keeps_to w2 w3"
    using client_call_keeps [OF keeps_Ret] w2(2) unfolding keeps_def by blast
  then show ?thesis using False w1 w2
    by (simp add: on_connect_def Let_def settles_to_def keeps_to_def)
qed

lemma connect_done_ok:
  assumes w: "client_core w" "connect_req w"
  shows "\<exists>w'. uv__stream_connect err w = Ret w' \<and> settles_to (c_bufs w) w w'"
proof -
  let ?w = "w\<lparr>connect_req := False, cuv := (cuv w)\<lparr>active_reqs := active_reqs (cuv w) - 1\<rparr>\<rparr>"
  have s: "streams_ok (cuv w) False True" using w by (auto simp: client_core_def streams_ok_def)
  then have "streams_ok (cuv w) True False" "streams_ok (cuv w) False False"
    unfolding streams_ok_def by blast+
  then have "streams_ok (cuv ?w) True False" "streams_ok (cuv ?w) False False"
    using streams_same [of "cuv w" _ _ "cuv ?w"] by simp_all
  moreover have "\<not> connected w" using w by (auto simp: client_core_def streams_ok_def)
  ultimately have c: "client_core (?w\<lparr>connected := True\<rparr>)" "client_core ?w"
    using w by (simp_all add: client_core_def)
  obtain w1 where w1: "on_connect err ?w = Ret w1" "settles_to (c_bufs w) ?w w1"
    using on_connect_ok [OF c] by auto
  have c1: "client_core w1" using w1(2) by (simp add: settles_to_def)
  then have "streams_ok (cuv w1) (connected w1) (connect_req w1)" by (simp add: client_core_def)
  then obtain x where x: "handles (cuv w1) SocketHandle = Some x" by (rule streams_okE)
  obtain w2 where "uv__stream_destroy cuv set_cuv on_write SocketHandle w1 = Ret w2" "same_streams w1 w2"
    using stream_destroy_ok [OF c1] by blast
  then show ?thesis using w w1 x
    by (auto simp: uv__stream_connect_def settles_to_def same_streams_def)
qed

section \<open>Sequences of events\<close>





section \<open>The whole program\<close>

lemma all_chid: "(\<forall>h. P h) \<longleftrightarrow> P SocketHandle \<and> P TtyHandle"
  by (metis chid.exhaust)

lemmas start_simps = client_init_def client_ctx0_def on_cuv_rc_def on_cuv_def set_cuv_def uv_tcp_init_def
  uv__stream_init_def uv__handle_init_def set_cdata_def uv_tty_init_def uv__stream_open_def
  client_connect_def uv_tcp_connect_def set_handle_def zero_handle_def Let_def show_event_def

text \<open>From the cleared context to the running loop, when nothing fails.\<close>

definition client_started ::
  "string \<Rightarrow> int \<Rightarrow> string \<Rightarrow> 'l \<Rightarrow> 'l client_script \<Rightarrow> int \<Rightarrow> bool \<Rightarrow> bool \<Rightarrow> u64 \<Rightarrow> 'l client res" where
  "client_started h p s l scr tty_rc rd wr now =
     then_do (client_init (Some h) p (Some s) (Some l) (Loads l scr) tty_rc rd wr (client_ctx0 scr now))
       (\<lambda>(r, w). then_do (client_connect 0 0 w) (\<lambda>(_, r, w). Ret w))"

lemma client_started_ok:
  obtains w where "client_started h p s l scr 0 rd wr now = Ret w" and "client_core w"
    and "detached (cuv w) = []" and "c_bufs w = []" and "connect_req w"
  by (simp add: client_started_def start_simps client_core_def streams_ok_def stream_ok_def all_chid
      split: prod.splits)



text \<open>A script without functions.\<close>

definition no_functions :: "unit client_script" where
  "no_functions = \<lparr>on_server_message = (\<lambda>_. None), on_user_input = (\<lambda>_. None),
     on_connected = (\<lambda>_. None), on_disconnected = (\<lambda>_. None)\<rparr>"




text \<open>
  C38. Terminal input that fills the 64 KiB read buffer without a line end makes \<open>on_tty_read\<close> write
  its NUL one byte behind the buffer.
\<close>

theorem tty_read_overruns_buffer:
  assumes "client_core w" and "handles (cuv w) TtyHandle = Some x" and "f_reading x"
    and "length d = 65536" and "last d \<noteq> 10" and "last d \<noteq> 13"
  shows "client_handle (Readable_by TtyHandle [KernelData d]) w = Fault OutOfBounds"
proof -
  obtain b where a: "c_alloc_buffer 65536 w = ((Some b, 65536), w\<lparr>c_bufs := (b, 65536) # c_bufs w\<rparr>)"
    and hb: "holds_buf b 65536 (c_bufs w) (w\<lparr>c_bufs := (b, 65536) # c_bufs w\<rparr>)"
    using c_alloc_buffer_ok [OF assms(1)] .
  have d: "d \<noteq> []" "strip_newline d = d" using assms(4-6) by (auto simp: strip_newline_def)
  have "on_tty_read (ReadData d) (Some b) (w\<lparr>c_bufs := (b, 65536) # c_bufs w\<rparr>) = Fault OutOfBounds"
    using d assms(4) by (simp add: on_tty_read_def Let_def write_nul_def)
  then show ?thesis using assms(2-4) a
    by (simp add: client_handle_def client_read_cb_def)
qed

lemmas connect_simps = client_started_def start_simps client_handle_def uv__stream_connect_def
  on_connect_def uv_read_start_def uv__handle_start_def client_call_def

definition client_connected_demo :: "unit client res" where
  "client_connected_demo =
     then_do (client_started ''h'' 1 ''s'' () no_functions 0 True True 0) (client_handle (ConnectDone 0))"

lemma demo_connected:
  obtains w0 w x s where "client_started ''h'' 1 ''s'' () no_functions 0 True True 0 = Ret w0"
    and "client_handle (ConnectDone 0) w0 = Ret w" and "client_core w"
    and "handles (cuv w) TtyHandle = Some x" and "f_reading x" and "connected w"
    and "handles (cuv w) SocketHandle = Some s" and "f_writable s" and "cscript w = no_functions"
proof -
  obtain w0 where w0: "client_started ''h'' 1 ''s'' () no_functions 0 True True 0 = Ret w0" "client_core w0"
    "connect_req w0"
    by (rule client_started_ok) blast
  obtain w where w: "uv__stream_connect 0 w0 = Ret w" "settles_to (c_bufs w0) w0 w"
    using connect_done_ok [OF w0(2,3)] by blast
  have "(\<exists>x. handles (cuv w) TtyHandle = Some x \<and> f_reading x) \<and> connected w \<and>
      (\<exists>x. handles (cuv w) SocketHandle = Some x \<and> f_writable x) \<and> cscript w = no_functions"
    using w0(1) w(1) by (auto simp: connect_simps no_functions_def split: prod.splits)
  then show thesis using that [OF w0(1)] w by (auto simp: client_handle_def settles_to_def)
qed

theorem tty_read_overruns_buffer_witness:
  "\<exists>w. client_connected_demo = Ret w \<and>
     client_handle (Readable_by TtyHandle [KernelData (replicate 65536 97)]) w = Fault OutOfBounds"
proof -
  obtain w0 w x where w: "client_started ''h'' 1 ''s'' () no_functions 0 True True 0 = Ret w0"
    "client_handle (ConnectDone 0) w0 = Ret w" "client_core w"
    "handles (cuv w) TtyHandle = Some x" "f_reading x"
    by (rule demo_connected)
  have l: "last (replicate 65536 (97 :: byte)) = 97" by (rule last_replicate) simp
  have "client_handle (Readable_by TtyHandle [KernelData (replicate 65536 97)]) w = Fault OutOfBounds"
    by (rule tty_read_overruns_buffer [OF w(3-5)]) (simp_all only: length_replicate l, simp_all)
  then show ?thesis using w(1,2) by (auto simp: client_connected_demo_def)
qed

text \<open>
  C39. What the client sends must be taken by the kernel at once: otherwise the write request still
  points into the read buffer that \<open>on_tty_read\<close> frees when it returns, and the next time the socket is
  writable freed memory is sent.
\<close>

theorem delayed_write_reads_freed_buffer:
  assumes "client_core (w\<lparr>kernel_takes := []\<rparr>)" and "kernel_takes w = False # takes" and "connected w"
    and "handles (cuv w) TtyHandle = Some t" and "f_reading t"
    and "handles (cuv w) SocketHandle = Some s" and "f_writable s"
    and "\<And>l. clua w = Some l \<Longrightarrow> on_user_input (cscript w) l = None"
    and "strip_newline d \<noteq> []" and "length d < 65536"
  shows "run_client [Readable_by TtyHandle [KernelData d], Writable gc] w = Fault UseAfterFree"
proof -
  have so: "streams_ok (cuv w) True False"
    using assms(1,3) by (auto simp: client_core_def streams_ok_def)
  then have s: "htype s = UV_TCP" "fd_open s"
    using streams_okE [OF so, of SocketHandle] assms(6) by (auto simp: streams_ok_def stream_ok_def)
  obtain l where l: "clua w = Some l" "on_user_input (cscript w) l = None" "untaken w = []" "c_mallocs w = []"
    using assms(1,8) by (auto simp: client_core_def)
  let ?b = "Suc (fold max (map fst (c_bufs w)) 0)"
  have fresh: "?b \<notin> fst ` set (c_bufs w)"
    using fold_max_upper [of _ "map fst (c_bufs w)" 0] by fastforce
  then have fr: "filter (\<lambda>x. fst x \<noteq> ?b) (c_bufs w) = c_bufs w" by (rule filter_other_bufs)
  have d: "d \<noteq> []" "length (strip_newline d) < 65536"
    using assms(9,10) by (auto simp: strip_newline_def Let_def)
  have t: "take 65536 d = d" using assms(10) by simp
  show ?thesis
    using assms(2-7,9) s l d t fr fresh
    by (simp add: client_handle_def c_alloc_buffer_def c_malloc_def client_read_cb_def on_tty_read_def
        write_nul_def client_call_def client_send_def on_cuv_rc_def uv_write_def set_cuv_def show_event_def
        c_free_buf_def write_more_def Let_def)
qed

theorem delayed_write_reads_freed_buffer_witness:
  "\<exists>w. client_connected_demo = Ret w \<and>
     run_client [Readable_by TtyHandle [KernelData [104, 105, 10]], Writable False]
       (w\<lparr>kernel_takes := [False]\<rparr>) = Fault UseAfterFree"
proof -
  obtain w0 w x s where w: "client_started ''h'' 1 ''s'' () no_functions 0 True True 0 = Ret w0"
    "client_handle (ConnectDone 0) w0 = Ret w" "client_core w"
    "handles (cuv w) TtyHandle = Some x" "f_reading x" "connected w"
    "handles (cuv w) SocketHandle = Some s" "f_writable s" "cscript w = no_functions"
    by (rule demo_connected)
  have "client_connected_demo = Ret w" using w(1,2) by (simp add: client_connected_demo_def)
  moreover have "run_client [Readable_by TtyHandle [KernelData [104, 105, 10]], Writable False]
       (w\<lparr>kernel_takes := [False]\<rparr>) = Fault UseAfterFree"
    by (rule delayed_write_reads_freed_buffer [where takes = "[]" and t = x and s = s])
      (use w in \<open>simp_all add: client_core_def no_functions_def strip_newline_def\<close>)
  ultimately show ?thesis by blast
qed

end
