(* ===== verification/Bson.thy ===== *)
theory Bson
  imports Wire_Facts
begin

text \<open>
  BSON documents as the program builds them: the append functions of libbson
  (\<open>ge/libbson/src/bson/bson.c\<close>) on the bytes of a document, and \<open>ge/src/bson_handler.c\<close>, which
  turns Lua tables into documents.

  A document is its bytes. Where its memory lies and how it grows is left out: whether
  \<open>_bson_grow\<close> finds memory for a new length is the parameter \<open>grow\<close> (the move of a small document
  to the heap before its first child asks for at most 128 bytes and counts with the append).
\<close>

section \<open>Documents\<close>

definition BSON_MAX_SIZE :: nat where "BSON_MAX_SIZE = 2147483647"

text \<open>\<open>bson_encode_length\<close>: the length of the document in its first four bytes.\<close>

definition bson_encode_length :: "byte list \<Rightarrow> byte list" where
  "bson_encode_length b = le_bytes (word_of_nat (length b)) @ drop 4 b"

text \<open>\<open>bson_new\<close>, and the argument list of one append with its limit.\<close>

definition bson_new :: "byte list" where
  "bson_new = [5, 0, 0, 0, 0]"

fun add_arguments :: "nat \<Rightarrow> byte list list \<Rightarrow> bool" where
  "add_arguments n_bytes [] = True"
| "add_arguments n_bytes (a # as) =
     (if BSON_MAX_SIZE - n_bytes < length a then False else add_arguments (n_bytes + length a) as)"

text \<open>
  The bytes go where the final NUL was, the length is encoded anew, and a NUL ends the document
  again. A failed append leaves the document as it is.
\<close>

definition append_bytes :: "(nat \<Rightarrow> bool) \<Rightarrow> byte list list \<Rightarrow> byte list \<Rightarrow> bool \<times> byte list" where
  "append_bytes grow args b =
     (let n_bytes = length (concat args) in
      if \<not> add_arguments 0 args then (False, b)
      else if BSON_MAX_SIZE - length b < n_bytes then (False, b)
      else if \<not> grow (length b + n_bytes) then (False, b)
      else (True, bson_encode_length (butlast b @ concat args @ [0])))"

definition le64 :: "u64 \<Rightarrow> byte list" where
  "le64 x = map (\<lambda>k. word_of_nat (unat x div 2 ^ (8 * k))) [0, 1, 2, 3, 4, 5, 6, 7]"

definition BSON_TYPE_DOUBLE :: byte where "BSON_TYPE_DOUBLE = 1"
definition BSON_TYPE_UTF8 :: byte where "BSON_TYPE_UTF8 = 2"
definition BSON_TYPE_DOCUMENT :: byte where "BSON_TYPE_DOCUMENT = 3"
definition BSON_TYPE_ARRAY :: byte where "BSON_TYPE_ARRAY = 4"
definition BSON_TYPE_BOOL :: byte where "BSON_TYPE_BOOL = 8"
definition BSON_TYPE_NULL :: byte where "BSON_TYPE_NULL = 10"
definition BSON_TYPE_INT32 :: byte where "BSON_TYPE_INT32 = 16"
definition BSON_TYPE_INT64 :: byte where "BSON_TYPE_INT64 = 18"

lemmas bson_types = BSON_TYPE_DOUBLE_def BSON_TYPE_UTF8_def BSON_TYPE_DOCUMENT_def BSON_TYPE_ARRAY_def
  BSON_TYPE_BOOL_def BSON_TYPE_NULL_def BSON_TYPE_INT32_def BSON_TYPE_INT64_def

text \<open>
  The append functions. A double is its eight bytes as a 64-bit word. Keys and strings are C strings
  here, their lengths the ones \<open>strlen\<close> gave.
\<close>

definition bson_append_int64 :: "(nat \<Rightarrow> bool) \<Rightarrow> byte list \<Rightarrow> byte list \<Rightarrow> u64 \<Rightarrow> bool \<times> byte list" where
  "bson_append_int64 grow b key v = append_bytes grow [[BSON_TYPE_INT64], key, [0], le64 v] b"

definition bson_append_double :: "(nat \<Rightarrow> bool) \<Rightarrow> byte list \<Rightarrow> byte list \<Rightarrow> u64 \<Rightarrow> bool \<times> byte list" where
  "bson_append_double grow b key v = append_bytes grow [[BSON_TYPE_DOUBLE], key, [0], le64 v] b"

definition bson_append_bool :: "(nat \<Rightarrow> bool) \<Rightarrow> byte list \<Rightarrow> byte list \<Rightarrow> bool \<Rightarrow> bool \<times> byte list" where
  "bson_append_bool grow b key v =
     append_bytes grow [[BSON_TYPE_BOOL], key, [0], [if v then 1 else 0]] b"

definition bson_append_utf8 ::
  "(nat \<Rightarrow> bool) \<Rightarrow> byte list \<Rightarrow> byte list \<Rightarrow> byte list \<Rightarrow> bool \<times> byte list" where
  "bson_append_utf8 grow b key v =
     (if 4294967294 < length v then (False, b)
      else append_bytes grow
        [[BSON_TYPE_UTF8], key, [0], le_bytes (word_of_nat (length v) + 1), v, [0]] b)"

text \<open>
  \<open>_bson_append_bson_begin\<close> puts an empty document behind the key and hands it out as the child, which
  grows in place; \<open>_bson_append_bson_end\<close> takes it over. The bytes of the parent behind the key
  are the child's in between.
\<close>

definition bson_append_document_begin ::
  "(nat \<Rightarrow> bool) \<Rightarrow> byte list \<Rightarrow> byte list \<Rightarrow> bool \<times> byte list \<times> byte list" where
  "bson_append_document_begin grow b key =
     (case append_bytes grow [[BSON_TYPE_DOCUMENT], key, [0], [5, 0, 0, 0, 0]] b of
        (ok, b') \<Rightarrow> (ok, b', bson_new))"

definition bson_append_document_end :: "byte list \<Rightarrow> byte list \<Rightarrow> byte list" where
  "bson_append_document_end b child = bson_encode_length (take (length b - 6) b @ child @ [0])"

section \<open>Documents from bytes and back\<close>

text \<open>\<open>bson_new_from_data\<close> and \<open>bson_init_static\<close> accept the same bytes.\<close>

definition bson_new_from_data :: "byte list \<Rightarrow> byte list option" where
  "bson_new_from_data data =
     (if length data < 5 \<or> BSON_MAX_SIZE < length data \<or> data ! (length data - 1) \<noteq> 0 then None
      else if (sint (word_of_nat (le_value (take 4 data)) :: u32)) \<noteq> int (length data) then None
      else Some data)"

definition bson_init_static :: "byte list \<Rightarrow> byte list option" where
  "bson_init_static data =
     (if length data < 5 \<or> BSON_MAX_SIZE < length data then None
      else if le_value (take 4 data) \<noteq> length data then None
      else if data ! (length data - 1) \<noteq> 0 then None
      else Some data)"

text \<open>
  \<open>bson_to_buffer\<close>: the result and the contents written. The length is read in the byte order of
  the host from the little-endian header; copying more than the document holds reads beyond it.
\<close>

definition bson_to_buffer :: "bool \<Rightarrow> byte list option \<Rightarrow> int \<Rightarrow> (int \<times> byte list) res" where
  "bson_to_buffer host_le bson buffer_size =
     (case bson of
        None \<Rightarrow> Ret (- 1, [])
      | Some data \<Rightarrow>
          if buffer_size \<le> 0 then Ret (- 1, [])
          else let len = load_u32 host_le (take 4 data) in
            if buffer_size < uint len then Ret (- 1, [])
            else if length data < unat len then Fault OutOfBounds
            else Ret (uint len, take (unat len) data))"

section \<open>Lua tables to documents\<close>

text \<open>
  Lua values as far as the code distinguishes them. A table is its entries in the order in which
  \<open>lua_next\<close> visits them. Integers and floats are 64-bit words.
\<close>

datatype lua_val =
    LNil
  | LBool bool
  | LInt u64
  | LNum u64
  | LStr "byte list"
  | LTab "(lua_val \<times> lua_val) list"
  | LOther

text \<open>The C string in a Lua string ends at its first NUL.\<close>

definition cstr :: "byte list \<Rightarrow> byte list" where
  "cstr s = takeWhile (\<lambda>b. b \<noteq> 0) s"

fun is_number :: "lua_val \<Rightarrow> bool" where
  "is_number (LInt i) = True"
| "is_number (LNum d) = True"
| "is_number v = False"

text \<open>
  \<open>lua_tostring\<close> on a key; \<open>number_text\<close> is Lua's conversion of numbers. It replaces a number on the
  stack by its text, so that the next \<open>lua_next\<close> looks for the string key: it continues behind that key, or
  raises an error when the table has no such key.
\<close>

definition lua_tostring_key :: "(lua_val \<Rightarrow> byte list) \<Rightarrow> lua_val \<Rightarrow> byte list option" where
  "lua_tostring_key number_text k =
     (case k of
        LStr s \<Rightarrow> Some s
      | LInt i \<Rightarrow> Some (number_text k)
      | LNum d \<Rightarrow> Some (number_text k)
      | _ \<Rightarrow> None)"

fun entries_after :: "byte list \<Rightarrow> (lua_val \<times> lua_val) list \<Rightarrow> (lua_val \<times> lua_val) list option" where
  "entries_after s [] = None"
| "entries_after s ((k, v) # es) = (if k = LStr s then Some es else entries_after s es)"

text \<open>
  \<open>append_lua_table_to_bson\<close> on the entries still to visit of the table \<open>all\<close>. The result is the
  document, or \<open>None\<close> when Lua raised an error. A table can make the loop run forever, hence the fuel.
  The results of the appends are not looked at; a child whose begin failed is used uninitialised.
\<close>

fun append_entries ::
  "(nat \<Rightarrow> bool) \<Rightarrow> (lua_val \<Rightarrow> byte list) \<Rightarrow> nat \<Rightarrow> (lua_val \<times> lua_val) list \<Rightarrow>
   (lua_val \<times> lua_val) list \<Rightarrow> byte list \<Rightarrow> byte list option res" where
  "append_entries grow nt 0 all es b = Fault Diverges"
| "append_entries grow nt (Suc n) all [] b = Ret (Some b)"
| "append_entries grow nt (Suc n) all ((k, v) # es) b =
     (case lua_tostring_key nt k of
        None \<Rightarrow> append_entries grow nt n all es b
      | Some ks \<Rightarrow>
          then_do
            (let key = cstr ks in
             case v of
               LInt i \<Rightarrow> Ret (Some (snd (bson_append_int64 grow b key i)))
             | LNum d \<Rightarrow> Ret (Some (snd (bson_append_double grow b key d)))
             | LStr s \<Rightarrow> Ret (Some (snd (bson_append_utf8 grow b key (cstr s))))
             | LBool c \<Rightarrow> Ret (Some (snd (bson_append_bool grow b key c)))
             | LTab t \<Rightarrow>
                 (case bson_append_document_begin grow b key of
                    (ok, b', child) \<Rightarrow>
                      if \<not> ok then Fault OutOfBounds
                      else then_do (append_entries grow nt n t t child) (\<lambda>c.
                        Ret (map_option (bson_append_document_end b') c)))
             | _ \<Rightarrow> Ret (Some b))
            (\<lambda>r. case r of
               None \<Rightarrow> Ret None
             | Some b \<Rightarrow>
                 if is_number k
                 then (case entries_after ks all of
                         None \<Rightarrow> Ret None
                       | Some es \<Rightarrow> append_entries grow nt n all es b)
                 else append_entries grow nt n all es b))"

text \<open>
  \<open>bson_from_lua_table\<close>: \<open>Some None\<close> when the value is no table, \<open>None\<close> when Lua raised an error.
\<close>

definition bson_from_lua_table ::
  "(nat \<Rightarrow> bool) \<Rightarrow> (lua_val \<Rightarrow> byte list) \<Rightarrow> nat \<Rightarrow> lua_val \<Rightarrow> byte list option option res" where
  "bson_from_lua_table grow nt fuel v =
     (case v of
        LTab t \<Rightarrow> then_do (append_entries grow nt fuel t t bson_new) (\<lambda>r. Ret (map_option Some r))
      | _ \<Rightarrow> Ret (Some None))"

section \<open>The document of a table\<close>

text \<open>
  The specification: the elements of a table one after the other, and a document around them.
\<close>

definition document :: "byte list \<Rightarrow> byte list" where
  "document body = le_bytes (word_of_nat (length body + 5)) @ body @ [0]"

fun element :: "byte list \<Rightarrow> lua_val \<Rightarrow> byte list" and
  elements :: "(lua_val \<times> lua_val) list \<Rightarrow> byte list" where
  "element key (LInt i) = BSON_TYPE_INT64 # key @ 0 # le64 i"
| "element key (LNum d) = BSON_TYPE_DOUBLE # key @ 0 # le64 d"
| "element key (LStr s) =
     BSON_TYPE_UTF8 # key @ 0 # le_bytes (word_of_nat (length (cstr s)) + 1) @ cstr s @ [0]"
| "element key (LBool c) = BSON_TYPE_BOOL # key @ [0, if c then 1 else 0]"
| "element key (LTab t) = BSON_TYPE_DOCUMENT # key @ 0 # document (elements t)"
| "element key LNil = []"
| "element key LOther = []"
| "elements [] = []"
| "elements ((k, v) # es) = (case k of LStr s \<Rightarrow> element (cstr s) v | _ \<Rightarrow> []) @ elements es"

text \<open>Tables whose keys are strings, all the way down, and the fuel they need.\<close>

fun string_keyed :: "lua_val \<Rightarrow> bool" and string_entries :: "(lua_val \<times> lua_val) list \<Rightarrow> bool" where
  "string_keyed (LTab t) = string_entries t"
| "string_keyed v = True"
| "string_entries [] = True"
| "string_entries ((k, v) # es) = ((\<exists>s. k = LStr s) \<and> string_keyed v \<and> string_entries es)"

fun val_fuel :: "lua_val \<Rightarrow> nat" and entries_fuel :: "(lua_val \<times> lua_val) list \<Rightarrow> nat" where
  "val_fuel (LTab t) = entries_fuel t"
| "val_fuel v = 0"
| "entries_fuel [] = 1"
| "entries_fuel ((k, v) # es) = Suc (val_fuel v + entries_fuel es)"

end
