(* ===== verification/Bson_Facts.thy ===== *)
theory Bson_Facts
  imports Bson
begin

text \<open>
  Lemmas on documents: what an append does to the document of given elements, that
  \<open>append_lua_table_to_bson\<close> builds the document of a table, and what the conversions from and to
  bytes make of it.
\<close>

lemma length_document [simp]: "length (document body) = length body + 5"
  by (simp add: document_def)

lemma butlast_document: "butlast (document body) = le_bytes (word_of_nat (length body + 5)) @ body"
  by (simp add: document_def butlast_append)

lemma encode_length_document:
  assumes "length hdr = 4"
  shows "bson_encode_length (hdr @ body @ [0]) = document body"
  using assms by (simp add: bson_encode_length_def document_def add.commute)

lemma bson_new_document: "bson_new = document []"
proof -
  have "le_bytes 5 = [5, 0, 0, 0]" by (simp add: le_bytes_def)
  then show ?thesis by (simp add: bson_new_def document_def)
qed

text \<open>Appending, when the size limit allows it and memory lasts.\<close>

lemma add_arguments_fits: "n + length (concat args) \<le> BSON_MAX_SIZE \<Longrightarrow> add_arguments n args"
  by (induction args arbitrary: n) auto

definition grows :: "(nat \<Rightarrow> bool) \<Rightarrow> bool" where
  "grows grow \<longleftrightarrow> (\<forall>n \<le> BSON_MAX_SIZE. grow n)"

lemma append_document:
  assumes "grows grow" and "length body + length (concat args) + 5 \<le> BSON_MAX_SIZE"
  shows "append_bytes grow args (document body) = (True, document (body @ concat args))"
proof -
  have a: "add_arguments 0 args" using assms(2) by (intro add_arguments_fits) simp
  have g: "grow (length body + 5 + length (concat args))"
    using assms by (simp add: grows_def add.assoc add.commute)
  have "bson_encode_length (butlast (document body) @ concat args @ [0]) = document (body @ concat args)"
    using encode_length_document [of "le_bytes (word_of_nat (length body + 5))" "body @ concat args"]
    by (simp add: butlast_document)
  moreover have "\<not> BSON_MAX_SIZE - length (document body) < length (concat args)" using assms(2) by simp
  ultimately show ?thesis using a g by (simp add: append_bytes_def Let_def)
qed

lemma begin_document:
  assumes "grows grow" and "length body + length key + 12 \<le> BSON_MAX_SIZE"
  shows "bson_append_document_begin grow (document body) key =
    (True, document (body @ BSON_TYPE_DOCUMENT # key @ [0, 5, 0, 0, 0, 0]), document [])"
  using append_document [OF assms(1), of body "[[BSON_TYPE_DOCUMENT], key, [0], [5, 0, 0, 0, 0]]"] assms(2)
  by (simp add: bson_append_document_begin_def bson_new_document)

lemma end_document:
  "bson_append_document_end (document (pre @ [5, 0, 0, 0, 0])) (document inner) =
    document (pre @ document inner)"
proof -
  have "take (length (document (pre @ [5, 0, 0, 0, 0])) - 6) (document (pre @ [5, 0, 0, 0, 0])) =
      le_bytes (word_of_nat (length pre + 10)) @ pre"
    by (simp add: document_def add.commute)
  then show ?thesis
    using encode_length_document [of "le_bytes (word_of_nat (length pre + 10))" "pre @ document inner"]
    by (simp add: bson_append_document_end_def add.commute)
qed

lemma append_entries_document:
  assumes "grows grow" and "string_entries es" and "entries_fuel es \<le> n"
    and "length body + length (elements es) + 5 \<le> BSON_MAX_SIZE"
  shows "append_entries grow nt n all es (document body) = Ret (Some (document (body @ elements es)))"
  using assms(2-)
proof (induction n arbitrary: all es body)
  case 0
  then show ?case by (cases es) auto
next
  case (Suc n)
  show ?case
  proof (cases es)
    case Nil
    then show ?thesis by simp
  next
    case (Cons e rest)
    obtain k v where e: "e = (k, v)" by (cases e)
    obtain s where k: "k = LStr s" using Suc.prems(1) Cons e by auto
    have rest: "string_entries rest" "entries_fuel rest \<le> n" and sk: "string_keyed v" "val_fuel v \<le> n"
      using Suc.prems(1,2) Cons e by simp_all
    have size: "length body + length (element (cstr s) v) + length (elements rest) + 5 \<le> BSON_MAX_SIZE"
      using Suc.prems(3) Cons e k by simp
    have next_entries: "append_entries grow nt n all rest (document (body @ element (cstr s) v)) =
        Ret (Some (document (body @ elements es)))"
      using Suc.IH [OF rest, of "body @ element (cstr s) v"] size Cons e k by simp
    have app: "append_bytes grow args (document body) = (True, document (body @ element (cstr s) v))"
      if "concat args = element (cstr s) v" for args
      using append_document [OF assms(1), of body args] that size by simp
    show ?thesis
    proof (cases v)
      case (LTab t)
      let ?pre = "body @ BSON_TYPE_DOCUMENT # cstr s @ [0]"
      have len: "length body + length (cstr s) + 12 \<le> BSON_MAX_SIZE"
        "length (elements t) + 5 \<le> BSON_MAX_SIZE"
        using size LTab by simp_all
      have b: "bson_append_document_begin grow (document body) (cstr s) =
          (True, document (?pre @ [5, 0, 0, 0, 0]), document [])"
        using begin_document [OF assms(1) len(1)] by simp
      have c: "append_entries grow nt n t t (document []) = Ret (Some (document (elements t)))"
        using Suc.IH [of t "[]" t] sk LTab len(2) by simp
      have "bson_append_document_end (document (?pre @ [5, 0, 0, 0, 0])) (document (elements t)) =
          document (body @ element (cstr s) v)"
        using end_document [of ?pre "elements t"] LTab by simp
      then show ?thesis using next_entries b c LTab Cons e k by (simp add: lua_tostring_key_def)
    next
      case (LStr u)
      have "length (cstr u) \<le> 4294967294" using size LStr by (simp add: BSON_MAX_SIZE_def)
      then show ?thesis
        using app [of "[[BSON_TYPE_UTF8], cstr s, [0], le_bytes (word_of_nat (length (cstr u)) + 1), cstr u, [0]]"]
          next_entries Cons e k LStr
        by (simp add: lua_tostring_key_def bson_append_utf8_def)
    next
      case (LInt i)
      then show ?thesis using app [of "[[BSON_TYPE_INT64], cstr s, [0], le64 i]"] next_entries Cons e k
        by (simp add: lua_tostring_key_def bson_append_int64_def)
    next
      case (LNum d)
      then show ?thesis using app [of "[[BSON_TYPE_DOUBLE], cstr s, [0], le64 d]"] next_entries Cons e k
        by (simp add: lua_tostring_key_def bson_append_double_def)
    next
      case (LBool c)
      then show ?thesis
        using app [of "[[BSON_TYPE_BOOL], cstr s, [0], [if c then 1 else 0]]"] next_entries Cons e k
        by (simp add: lua_tostring_key_def bson_append_bool_def)
    next
      case LNil
      then show ?thesis using next_entries Cons e k by (simp add: lua_tostring_key_def)
    next
      case LOther
      then show ?thesis using next_entries Cons e k by (simp add: lua_tostring_key_def)
    qed
  qed
qed

section \<open>Documents are accepted\<close>

lemma document_header:
  assumes "length body + 5 \<le> BSON_MAX_SIZE"
  shows "le_value (take 4 (document body)) = length body + 5"
proof -
  have "le_value (take 4 (document body)) = unat (word_of_nat (length body + 5) :: u32)"
    by (simp add: document_def le_value_le_bytes del: of_nat_add)
  also have "\<dots> = length body + 5"
    using assms by (simp add: unat_of_nat BSON_MAX_SIZE_def del: of_nat_add)
  finally show ?thesis .
qed

lemma document_last: "document body ! (length (document body) - 1) = 0"
  by (simp add: document_def nth_append)

lemma init_static_document:
  "length body + 5 \<le> BSON_MAX_SIZE \<Longrightarrow> bson_init_static (document body) = Some (document body)"
  using document_header [of body] document_last [of body] by (simp add: bson_init_static_def)

lemma sint_of_small: "n < 2 ^ 31 \<Longrightarrow> sint (word_of_nat n :: u32) = int n"
  by (simp add: sint_uint signed_take_bit_int_eq_self_iff unsigned_of_nat take_bit_nat_eq_self)

lemma new_from_data_document:
  "length body + 5 \<le> BSON_MAX_SIZE \<Longrightarrow> bson_new_from_data (document body) = Some (document body)"
  using document_header [of body] document_last [of body] sint_of_small [of "length body + 5"]
  by (simp add: bson_new_from_data_def BSON_MAX_SIZE_def del: of_nat_add)

lemma to_buffer_document:
  assumes "length (document body) \<le> BSON_MAX_SIZE" and "0 < buffer_size"
  shows "bson_to_buffer True (Some (document body)) buffer_size =
    (if buffer_size < int (length (document body)) then Ret (- 1, [])
     else Ret (int (length (document body)), document body))"
proof -
  have s: "length body + 5 \<le> BSON_MAX_SIZE" using assms(1) by simp
  have "unat (load_u32 True (take 4 (document body))) = length (document body)"
    unfolding load_u32_def if_True document_header [OF s]
    using s by (simp add: unat_of_nat BSON_MAX_SIZE_def del: of_nat_add)
  moreover then have "uint (load_u32 True (take 4 (document body))) = int (length (document body))"
    by (metis uint_nat)
  ultimately show ?thesis using assms(2) by (simp add: bson_to_buffer_def Let_def)
qed

end
