(* ===== verification/Bson_Props.thy ===== *)
theory Bson_Props
  imports Bson_Facts
begin

text \<open>
  The properties of the BSON handler: the document of a table, and the tables it cannot convert.
\<close>


definition demo_table :: "(lua_val \<times> lua_val) list" where
  "demo_table =
     [(LStr [97], LInt 7), (LStr [98, 0, 99], LStr [104, 105, 0, 33]), (LStr [99], LOther),
      (LStr [100], LTab [(LStr [101], LBool True)])]"

lemma demo_table_document:
  "document (elements demo_table) =
     [38, 0, 0, 0, 18, 97, 0, 7, 0, 0, 0, 0, 0, 0, 0, 2, 98, 0, 3, 0, 0, 0, 104, 105, 0,
      3, 100, 0, 9, 0, 0, 0, 8, 101, 0, 1, 0, 0]"
  by (simp add: demo_table_def document_def bson_types cstr_def le64_def le_bytes_def)




end
