(* ===== verification/Bson_Iter.thy ===== *)
theory Bson_Iter
  imports Bson
begin

text \<open>
  Iterating over the bytes of a BSON document: \<open>ge/libbson/src/bson/bson-iter.c\<close> on 32-bit offsets, and
  the reference it is measured against, which uses natural numbers and cannot wrap around. Reads beyond the
  document are faults.
\<close>

section \<open>Memory\<close>

definition read_byte :: "byte list \<Rightarrow> nat \<Rightarrow> byte res" where
  "read_byte data i = (if i < length data then Ret (data ! i) else Fault OutOfBounds)"

text \<open>\<open>mlib_read_u32le\<close> and \<open>mlib_read_u64le\<close>.\<close>

definition u32_at :: "byte list \<Rightarrow> nat \<Rightarrow> nat" where
  "u32_at data i = le_value (take 4 (drop i data))"

definition read_u32 :: "byte list \<Rightarrow> nat \<Rightarrow> u32 res" where
  "read_u32 data i =
     (if i + 4 \<le> length data then Ret (word_of_nat (u32_at data i)) else Fault OutOfBounds)"

definition read_u64 :: "byte list \<Rightarrow> nat \<Rightarrow> u64 res" where
  "read_u64 data i =
     (if i + 8 \<le> length data then Ret (word_of_nat (le_value (take 8 (drop i data))))
      else Fault OutOfBounds)"

section \<open>The iterator\<close>

text \<open>\<open>bson_iter_t\<close> without the cached value; \<open>raw\<close> is the document, \<open>None\<close> when the pointer is null.\<close>

record bson_iter =
  raw :: "byte list option"
  iter_len :: u32
  off :: u32
  type_at :: u32
  key_at :: u32
  d1 :: u32
  d2 :: u32
  d3 :: u32
  d4 :: u32
  next_off :: u32
  err_off :: u32

definition zero_iter :: bson_iter where
  "zero_iter = \<lparr>raw = None, iter_len = 0, off = 0, type_at = 0, key_at = 0, d1 = 0, d2 = 0, d3 = 0,
     d4 = 0, next_off = 0, err_off = 0\<rparr>"

definition bson_iter_init :: "byte list \<Rightarrow> bool \<times> bson_iter" where
  "bson_iter_init bson =
     (if length bson < 5 then (False, zero_iter)
      else (True, zero_iter\<lparr>raw := Some bson, iter_len := word_of_nat (length bson), next_off := 4\<rparr>))"

text \<open>The loops \<open>for (; o < len; o++) if (!data[o]) ...\<close>: the offset of the next NUL.\<close>

function scan_nul :: "byte list \<Rightarrow> u32 \<Rightarrow> u32 \<Rightarrow> u32 option res" where
  "scan_nul data len p =
     (if p < len
      then then_do (read_byte data (unat p)) (\<lambda>b. if b = 0 then Ret (Some p) else scan_nul data len (p + 1))
      else Ret None)"
  by pat_completeness auto
termination
proof (relation "measure (\<lambda>(data, len, p). unat len - unat p)", goal_cases)
  case (2 data len p b)
  then have "unat p < unat len" by (simp add: word_less_nat_alt)
  moreover have "unat len < 2 ^ LENGTH(32)" by (rule unsigned_less)
  ultimately have "unat p < unat len \<and> unat (p + 1) = unat p + 1" by (simp add: unat_word_ariths)
  then have "unat len - unat (p + 1) < unat len - unat p" by linarith
  then show ?case by simp
qed simp

declare scan_nul.simps [simp del]

section \<open>One element\<close>

text \<open>
  The cases of the switch in \<open>_bson_iter_next_internal\<close>, from the offset \<open>p\<close> behind the key (called
  \<open>o\<close> in the code): \<open>Inl\<close> for \<open>goto mark_invalid\<close>, \<open>Inr\<close> with the offset for \<open>break\<close>.
\<close>

type_synonym iter_step = "(bson_iter + u32 \<times> bson_iter) res"

definition invalid_at :: "u32 \<Rightarrow> bson_iter \<Rightarrow> iter_step" where
  "invalid_at e it = Ret (Inl (it\<lparr>err_off := e\<rparr>))"

definition ends_at :: "u32 \<Rightarrow> u32 \<Rightarrow> bson_iter \<Rightarrow> iter_step" where
  "ends_at p e it = Ret (Inr (p, it\<lparr>next_off := e\<rparr>))"

definition iter_string :: "byte list \<Rightarrow> u32 \<Rightarrow> u32 \<Rightarrow> bson_iter \<Rightarrow> iter_step" where
  "iter_string data len p it =
     (if len \<le> p + 4 then invalid_at p it
      else let it = it\<lparr>d2 := p + 4\<rparr> in
        then_do (read_u32 data (unat (d1 it))) (\<lambda>l.
          if len - (p + 4) < l then invalid_at p it
          else let it = it\<lparr>next_off := p + 4 + l\<rparr> in
            if l = 0 \<or> len \<le> next_off it then invalid_at p it
            else then_do (read_byte data (unat (d2 it) + unat (l - 1))) (\<lambda>b.
              if b \<noteq> 0 then invalid_at (p + 4 + l - 1) it else ends_at p (next_off it) it)))"

definition iter_binary :: "byte list \<Rightarrow> u32 \<Rightarrow> u32 \<Rightarrow> bson_iter \<Rightarrow> iter_step" where
  "iter_binary data len p it =
     (if len - 4 \<le> p then invalid_at p it
      else let it = it\<lparr>d2 := p + 4, d3 := p + 5\<rparr> in
        then_do (read_u32 data (unat (d1 it))) (\<lambda>l.
          if len - p - 4 \<le> l then invalid_at p it
          else then_do (read_byte data (unat (d2 it))) (\<lambda>subtype.
            if subtype = 2 then
              if l < 4 then invalid_at p it
              else then_do (read_u32 data (unat (d3 it))) (\<lambda>bin_len.
                if sint bin_len \<noteq> uint (l - 4) then invalid_at (d3 it) it
                else ends_at p (p + 5 + l) it)
            else ends_at p (p + 5 + l) it)))"

definition iter_document :: "byte list \<Rightarrow> u32 \<Rightarrow> u32 \<Rightarrow> bson_iter \<Rightarrow> iter_step" where
  "iter_document data len p it =
     (if len - 4 \<le> p then invalid_at p it
      else then_do (read_u32 data (unat (d1 it))) (\<lambda>l.
        if len < l \<or> len - p < l then invalid_at p it else ends_at p (p + l) it))"

definition iter_bool :: "byte list \<Rightarrow> u32 \<Rightarrow> u32 \<Rightarrow> bson_iter \<Rightarrow> iter_step" where
  "iter_bool data len p it =
     (if len \<le> d1 it then invalid_at p it
      else then_do (read_byte data (unat (d1 it))) (\<lambda>val.
        if val \<noteq> 0 \<and> val \<noteq> 1 then invalid_at p it else ends_at p (p + 1) it))"

definition iter_regex :: "byte list \<Rightarrow> u32 \<Rightarrow> u32 \<Rightarrow> bson_iter \<Rightarrow> iter_step" where
  "iter_regex data len p it =
     then_do (scan_nul data len p) (\<lambda>eor. case eor of
       None \<Rightarrow> invalid_at (next_off it) it
     | Some q \<Rightarrow> let it = it\<lparr>d2 := q + 1\<rparr> in
         then_do (scan_nul data len (q + 1)) (\<lambda>eoo. case eoo of
           None \<Rightarrow> invalid_at (next_off it) it
         | Some p \<Rightarrow> ends_at p (p + 1) it))"

definition iter_dbpointer :: "byte list \<Rightarrow> u32 \<Rightarrow> u32 \<Rightarrow> bson_iter \<Rightarrow> iter_step" where
  "iter_dbpointer data len p it =
     (if len - 4 \<le> p then invalid_at p it
      else let it = it\<lparr>d2 := p + 4\<rparr> in
        then_do (read_u32 data (unat (d1 it))) (\<lambda>l.
          if l = 0 \<or> len - p - 4 < l then invalid_at p it
          else then_do (read_byte data (unat p + unat l + 3)) (\<lambda>b.
            if b \<noteq> 0 then invalid_at (p + l + 3) it
            else ends_at p (p + 4 + l + 12) (it\<lparr>d3 := p + 4 + l\<rparr>))))"

definition iter_codewscope :: "byte list \<Rightarrow> u32 \<Rightarrow> u32 \<Rightarrow> bson_iter \<Rightarrow> iter_step" where
  "iter_codewscope data len p it =
     (if len < 19 \<or> len - 14 \<le> p then invalid_at p it
      else let it = it\<lparr>d2 := p + 4, d3 := p + 8\<rparr> in
        then_do (read_u32 data (unat (d1 it))) (\<lambda>l1.
          if l1 < 14 \<or> len - p \<le> l1 then invalid_at p it
          else let it = it\<lparr>next_off := p + l1\<rparr> in
            if len \<le> next_off it then invalid_at p it
            else then_do (read_u32 data (unat (d2 it))) (\<lambda>l2.
              if l2 = 0 \<or> len - p - 4 - 4 \<le> l2 then invalid_at p it
              else if next_off it \<le> p + 4 + 4 + l2 + 4 then invalid_at (p + 4) it
              else let it = it\<lparr>d4 := p + 4 + 4 + l2\<rparr> in
                then_do (read_u32 data (unat (d4 it))) (\<lambda>doclen.
                  if p + 4 + 4 + l2 + doclen \<noteq> next_off it then invalid_at (p + 4 + 4 + l2) it
                  else ends_at p (next_off it) it))))"

text \<open>The switch; the second result is \<open>unsupported\<close>.\<close>

definition iter_switch :: "byte list \<Rightarrow> u32 \<Rightarrow> byte \<Rightarrow> u32 \<Rightarrow> bson_iter \<Rightarrow> iter_step \<times> bool" where
  "iter_switch data len t p it =
     (if t \<in> {9, 1, 18, 17} then (ends_at p (p + 8) it, False)
      else if t \<in> {13, 14, 2} then (iter_string data len p it, False)
      else if t = 5 then (iter_binary data len p it, False)
      else if t \<in> {4, 3} then (iter_document data len p it, False)
      else if t = 7 then (ends_at p (p + 12) it, False)
      else if t = 8 then (iter_bool data len p it, False)
      else if t = 11 then (iter_regex data len p it, False)
      else if t = 12 then (iter_dbpointer data len p it, False)
      else if t = 15 then (iter_codewscope data len p it, False)
      else if t = 16 then (ends_at p (p + 4) it, False)
      else if t = 19 then (ends_at p (p + 16) it, False)
      else if t \<in> {127, 255, 10, 6} then (ends_at p p it, False)
      else (invalid_at p it, t \<noteq> 0))"

definition mark_invalid :: "bson_iter \<Rightarrow> bson_iter" where
  "mark_invalid it = it\<lparr>raw := None, iter_len := 0, next_off := 0\<rparr>"

text \<open>
  \<open>_bson_iter_next_internal\<close>: whether an element was found, its key offset and type where they are
  assigned (\<open>None\<close> also for the null key of an exhausted iterator), \<open>unsupported\<close>, the iterator.
\<close>

definition bson_iter_next_internal ::
  "u32 \<Rightarrow> bson_iter \<Rightarrow> (bool \<times> (u32 \<times> byte) option \<times> bool \<times> bson_iter) res" where
  "bson_iter_next_internal next_keylen it =
     (case raw it of
        None \<Rightarrow> Ret (False, None, False, it)
      | Some data \<Rightarrow>
        let len = iter_len it; n = next_off it;
            it = it\<lparr>off := n, type_at := n, key_at := n + 1, d1 := 0, d2 := 0, d3 := 0, d4 := 0\<rparr> in
        then_do
          (if next_keylen = 0
           then then_do (scan_nul data len (key_at it)) (\<lambda>z. Ret (map_option (\<lambda>p. p + 1) z))
           else Ret (Some (key_at it + next_keylen + 1)))
          (\<lambda>found. case found of
             None \<Rightarrow> Ret (False, None, False, mark_invalid it)
           | Some p \<Rightarrow>
             let it = it\<lparr>d1 := p\<rparr> in
             then_do (read_byte data (unat (type_at it))) (\<lambda>t.
               case iter_switch data len t p it of (step, unsupported) \<Rightarrow>
                 then_do step (\<lambda>r. case r of
                   Inl it \<Rightarrow> Ret (False, Some (key_at it, t), unsupported, mark_invalid it)
                 | Inr (p, it) \<Rightarrow>
                     if len \<le> next_off it
                     then Ret (False, Some (key_at it, t), unsupported, mark_invalid (it\<lparr>err_off := p\<rparr>))
                     else Ret (True, Some (key_at it, t), unsupported, it\<lparr>err_off := 0\<rparr>)))))"

definition bson_iter_next :: "bson_iter \<Rightarrow> (bool \<times> bson_iter) res" where
  "bson_iter_next it = then_do (bson_iter_next_internal 0 it) (\<lambda>(r, _, _, it). Ret (r, it))"

section \<open>The reference\<close>

text \<open>Where the next NUL is, and where an element of type \<open>t\<close> whose value starts at \<open>p\<close> ends.\<close>

definition find_nul :: "byte list \<Rightarrow> nat \<Rightarrow> nat option" where
  "find_nul data p =
     (let k = length (takeWhile (\<lambda>b. b \<noteq> 0) (drop p data)) in
        if p + k < length data then Some (p + k) else None)"

definition value_end :: "byte list \<Rightarrow> byte \<Rightarrow> nat \<Rightarrow> nat option" where
  "value_end data t p =
     (let len = length data; l = u32_at data p in
      if t \<in> {9, 1, 18, 17} then Some (p + 8)
      else if t \<in> {13, 14, 2} then
        if p + 4 < len \<and> 0 < l \<and> p + 4 + l < len \<and> data ! (p + 4 + l - 1) = 0 then Some (p + 4 + l) else None
      else if t = 5 then
        if p + 4 < len \<and> p + 4 + l < len \<and>
           (data ! (p + 4) = 2 \<longrightarrow> 4 \<le> l \<and> u32_at data (p + 5) = l - 4)
        then Some (p + 5 + l) else None
      else if t \<in> {4, 3} then if p + 4 < len \<and> p + l \<le> len then Some (p + l) else None
      else if t = 7 then Some (p + 12)
      else if t = 8 then if p < len \<and> data ! p \<in> {0, 1} then Some (p + 1) else None
      else if t = 11 then
        case find_nul data p of
          None \<Rightarrow> None
        | Some q \<Rightarrow> map_option (\<lambda>r. r + 1) (find_nul data (q + 1))
      else if t = 12 then
        if p + 4 < len \<and> 0 < l \<and> p + 4 + l \<le> len \<and> data ! (p + l + 3) = 0 then Some (p + 4 + l + 12) else None
      else if t = 15 then
        let l2 = u32_at data (p + 4) in
        if 19 \<le> len \<and> p + 14 < len \<and> 14 \<le> l \<and> p + l < len \<and> 0 < l2 \<and> 12 + l2 < l \<and>
           8 + l2 + u32_at data (p + 8 + l2) = l
        then Some (p + l) else None
      else if t = 16 then Some (p + 4)
      else if t = 19 then Some (p + 16)
      else if t \<in> {127, 255, 10, 6} then Some p
      else None)"

text \<open>The element at offset \<open>n\<close>: the offset of its value and of the next element.\<close>

definition element_at :: "byte list \<Rightarrow> nat \<Rightarrow> (nat \<times> nat) option" where
  "element_at data n =
     (case find_nul data (n + 1) of
        None \<Rightarrow> None
      | Some z \<Rightarrow>
          case value_end data (data ! n) (z + 1) of
            None \<Rightarrow> None
          | Some e \<Rightarrow> if e < length data then Some (z + 1, e) else None)"

end
