(* ===== verification/Config.thy ===== *)
theory Config
  imports Bson_Iter Bson_Facts Logger
begin

text \<open>
  The configuration (\<open>ge/src/lua_bindings.c\<close>): reading the file, the iterator's accessors, turning a
  BSON document into a Lua table, the settings of the log queue, and the global table \<open>gear\<close>.
\<close>

section \<open>Reading through the iterator\<close>

definition iter_data :: "bson_iter \<Rightarrow> byte list res" where
  "iter_data it = (case raw it of None \<Rightarrow> Fault NullDeref | Some data \<Rightarrow> Ret data)"

definition ITER_TYPE :: "bson_iter \<Rightarrow> byte res" where
  "ITER_TYPE it = then_do (iter_data it) (\<lambda>data. read_byte data (unat (type_at it)))"

text \<open>\<open>bson_iter_type\<close> aborts on an exhausted iterator (\<open>BSON_ASSERT\<close>).\<close>

definition bson_iter_type :: "bson_iter \<Rightarrow> byte res" where
  "bson_iter_type it = assert_that (raw it \<noteq> None) (assert_that (iter_len it \<noteq> 0) (ITER_TYPE it))"

definition read_slice :: "byte list \<Rightarrow> nat \<Rightarrow> nat \<Rightarrow> byte list res" where
  "read_slice data i n = (if i + n \<le> length data then Ret (take n (drop i data)) else Fault OutOfBounds)"

definition read_cstr :: "byte list \<Rightarrow> nat \<Rightarrow> byte list res" where
  "read_cstr data i = (if 0 \<in> set (drop i data) then Ret (cstr (drop i data)) else Fault OutOfBounds)"

definition bson_iter_key :: "bson_iter \<Rightarrow> byte list res" where
  "bson_iter_key it = then_do (iter_data it) (\<lambda>data. read_cstr data (unat (key_at it)))"

definition bson_iter_int32 :: "bson_iter \<Rightarrow> u32 res" where
  "bson_iter_int32 it = then_do (ITER_TYPE it) (\<lambda>t.
     if t = BSON_TYPE_INT32 then then_do (iter_data it) (\<lambda>data. read_u32 data (unat (d1 it))) else Ret 0)"

definition bson_iter_int64 :: "bson_iter \<Rightarrow> u64 res" where
  "bson_iter_int64 it = then_do (ITER_TYPE it) (\<lambda>t.
     if t = BSON_TYPE_INT64 then then_do (iter_data it) (\<lambda>data. read_u64 data (unat (d1 it))) else Ret 0)"

definition bson_iter_double :: "bson_iter \<Rightarrow> u64 res" where
  "bson_iter_double it = then_do (ITER_TYPE it) (\<lambda>t.
     if t = BSON_TYPE_DOUBLE then then_do (iter_data it) (\<lambda>data. read_u64 data (unat (d1 it))) else Ret 0)"

definition bson_iter_bool :: "bson_iter \<Rightarrow> bool res" where
  "bson_iter_bool it = then_do (ITER_TYPE it) (\<lambda>t.
     if t = BSON_TYPE_BOOL
     then then_do (iter_data it) (\<lambda>data. then_do (read_byte data (unat (d1 it))) (\<lambda>b. Ret (b \<noteq> 0)))
     else Ret False)"

text \<open>Pointer and length are the bytes they delimit; \<open>None\<close> is the null pointer.\<close>

definition bson_iter_utf8 :: "bson_iter \<Rightarrow> byte list option res" where
  "bson_iter_utf8 it = then_do (ITER_TYPE it) (\<lambda>t.
     if t = BSON_TYPE_UTF8
     then then_do (iter_data it) (\<lambda>data. then_do (read_u32 data (unat (d1 it))) (\<lambda>l.
       then_do (read_slice data (unat (d2 it)) (unat (max 1 l - 1))) (\<lambda>s. Ret (Some s))))
     else Ret None)"

definition bson_iter_document :: "bson_iter \<Rightarrow> byte list option res" where
  "bson_iter_document it = then_do (ITER_TYPE it) (\<lambda>t.
     if t = BSON_TYPE_DOCUMENT
     then then_do (iter_data it) (\<lambda>data. then_do (read_u32 data (unat (d1 it))) (\<lambda>l.
       then_do (read_slice data (unat (d1 it)) (unat l)) (\<lambda>s. Ret (Some s))))
     else Ret None)"

definition bson_iter_array :: "bson_iter \<Rightarrow> byte list option res" where
  "bson_iter_array it = then_do (ITER_TYPE it) (\<lambda>t.
     if t = BSON_TYPE_ARRAY
     then then_do (iter_data it) (\<lambda>data. then_do (read_u32 data (unat (d1 it))) (\<lambda>l.
       then_do (read_slice data (unat (d1 it)) (unat l)) (\<lambda>s. Ret (Some s))))
     else Ret None)"

text \<open>
  \<open>bson_iter_value\<close>, for the types the program looks at; \<open>VOther\<close> stands for the others, whose
  contents it ignores. \<open>None\<close> is the null pointer for an unknown type.
\<close>

datatype bson_value =
    VDouble u64
  | VUtf8 "byte list"
  | VDocument "byte list"
  | VArray "byte list"
  | VBool bool
  | VInt32 u32
  | VInt64 u64
  | VOther

definition non_null :: "('a \<Rightarrow> bson_value) \<Rightarrow> 'a option res \<Rightarrow> bson_value option res" where
  "non_null f r = then_do r (\<lambda>p. case p of None \<Rightarrow> Fault NullDeref | Some x \<Rightarrow> Ret (Some (f x)))"

definition bson_iter_value :: "bson_iter \<Rightarrow> bson_value option res" where
  "bson_iter_value it = then_do (ITER_TYPE it) (\<lambda>t.
     if t = BSON_TYPE_DOUBLE then then_do (bson_iter_double it) (\<lambda>d. Ret (Some (VDouble d)))
     else if t = BSON_TYPE_UTF8 then non_null VUtf8 (bson_iter_utf8 it)
     else if t = BSON_TYPE_DOCUMENT then non_null VDocument (bson_iter_document it)
     else if t = BSON_TYPE_ARRAY then non_null VArray (bson_iter_array it)
     else if t = BSON_TYPE_BOOL then then_do (bson_iter_bool it) (\<lambda>b. Ret (Some (VBool b)))
     else if t = BSON_TYPE_INT32 then then_do (bson_iter_int32 it) (\<lambda>i. Ret (Some (VInt32 i)))
     else if t = BSON_TYPE_INT64 then then_do (bson_iter_int64 it) (\<lambda>i. Ret (Some (VInt64 i)))
     else if t \<in> {5, 7, 9, 11, 12, 13, 14, 15, 17, 19, 10, 6, 127, 255} then Ret (Some VOther)
     else Ret None)"

section \<open>Looking for a field\<close>

text \<open>
  \<open>bson_iter_find_w_len\<close> with the length of the key: \<open>strncmp\<close> compares at most that many characters,
  and the other key must end there. Each step gets a unit of fuel.
\<close>

fun bson_iter_find :: "nat \<Rightarrow> byte list \<Rightarrow> bson_iter \<Rightarrow> (bool \<times> bson_iter) res" where
  "bson_iter_find 0 key it = Fault Diverges"
| "bson_iter_find (Suc n) key it =
     then_do (bson_iter_next it) (\<lambda>(more, it).
       if \<not> more then Ret (False, it)
       else then_do (bson_iter_key it) (\<lambda>ikey.
         if take (length key) ikey = key \<and> length ikey = length key then Ret (True, it)
         else bson_iter_find n key it))"

definition bson_iter_init_find :: "byte list \<Rightarrow> byte list \<Rightarrow> (bool \<times> bson_iter) res" where
  "bson_iter_init_find bson key =
     (case bson_iter_init bson of (ok, it) \<Rightarrow>
        if ok then bson_iter_find (length bson) key it else Ret (False, it))"

section \<open>Documents to Lua tables\<close>

text \<open>
  A C function called from outside Lua owns \<open>LUA_MINSTACK\<close> slots of the stack. The code never asks
  for more (\<open>lua_checkstack\<close>), so a push onto a full stack is a fault.
\<close>

definition LUA_MINSTACK :: nat where "LUA_MINSTACK = 20"

definition lua_push :: "nat \<Rightarrow> 'a res \<Rightarrow> 'a res" where
  "lua_push used r = (if used < LUA_MINSTACK then r else Fault StackOverflow)"

text \<open>\<open>lua_settable\<close> and \<open>lua_rawseti\<close> on a table without metatable, its entries in order of insertion.\<close>

definition table_set :: "(lua_val \<times> lua_val) list \<Rightarrow> lua_val \<Rightarrow> lua_val \<Rightarrow> (lua_val \<times> lua_val) list" where
  "table_set es k v =
     (if v = LNil then filter (\<lambda>e. fst e \<noteq> k) es
      else if k \<in> fst ` set es then map (\<lambda>e. if fst e = k then (k, v) else e) es
      else es @ [(k, v)])"

text \<open>
  The result of \<open>bson_init_static\<close> is not looked at: a child it refuses is used uninitialised.
\<close>

definition static_child :: "byte list \<Rightarrow> byte list res" where
  "static_child data = (case bson_init_static data of None \<Rightarrow> Fault OutOfBounds | Some b \<Rightarrow> Ret b)"

text \<open>
  The loops of \<open>push_bson_document\<close> and \<open>push_bson_array\<close>, with a unit of fuel for every step; \<open>used\<close> is
  the number of slots in use, \<open>push_value\<close> stands for \<open>push_bson_value\<close>, which they call back. The results are
  the values left on the stack.
\<close>

fun push_fields ::
  "(nat \<Rightarrow> bson_value option \<Rightarrow> lua_val res) \<Rightarrow> nat \<Rightarrow> nat \<Rightarrow> bson_iter \<Rightarrow> (lua_val \<times> lua_val) list \<Rightarrow> lua_val res" where
  "push_fields push_value 0 used it es = Fault Diverges"
| "push_fields push_value (Suc n) used it es =
     then_do (bson_iter_next it) (\<lambda>(more, it).
       if \<not> more then Ret (LTab es)
       else then_do (bson_iter_key it) (\<lambda>key.
         lua_push used
           (then_do (bson_iter_value it) (\<lambda>v.
             then_do (push_value (used + 1) v) (\<lambda>x.
               push_fields push_value n used it (table_set es (LStr key) x))))))"

fun push_items ::
  "(nat \<Rightarrow> bson_value option \<Rightarrow> lua_val res) \<Rightarrow> nat \<Rightarrow> nat \<Rightarrow> bson_iter \<Rightarrow> u64 \<Rightarrow> (lua_val \<times> lua_val) list \<Rightarrow>
   lua_val res" where
  "push_items push_value 0 used it index es = Fault Diverges"
| "push_items push_value (Suc n) used it index es =
     then_do (bson_iter_next it) (\<lambda>(more, it).
       if \<not> more then Ret (LTab es)
       else then_do (bson_iter_value it) (\<lambda>v.
         then_do (push_value used v) (\<lambda>x.
           push_items push_value n used it (index + 1) (table_set es (LInt index) x))))"

definition push_document ::
  "(nat \<Rightarrow> bson_value option \<Rightarrow> lua_val res) \<Rightarrow> nat \<Rightarrow> byte list \<Rightarrow> lua_val res" where
  "push_document push_value used doc =
     lua_push used
       (case bson_iter_init doc of (ok, it) \<Rightarrow>
          if ok then push_fields push_value (length doc) (used + 1) it [] else Ret (LTab []))"

definition push_array ::
  "(nat \<Rightarrow> bson_value option \<Rightarrow> lua_val res) \<Rightarrow> nat \<Rightarrow> byte list \<Rightarrow> lua_val res" where
  "push_array push_value used arr =
     lua_push used
       (case bson_iter_init arr of (ok, it) \<Rightarrow>
          if ok then push_items push_value (length arr) (used + 1) it 1 [] else Ret (LTab []))"

text \<open>The recursion, with a unit of fuel for every level of nesting.\<close>

fun push_bson_value :: "nat \<Rightarrow> nat \<Rightarrow> bson_value option \<Rightarrow> lua_val res" where
  "push_bson_value 0 used v = Fault Diverges"
| "push_bson_value (Suc n) used v =
     (case v of
        None \<Rightarrow> Fault NullDeref
      | Some w \<Rightarrow>
          (case w of
             VDocument d \<Rightarrow> then_do (static_child d) (push_document (push_bson_value n) used)
           | VArray d \<Rightarrow> then_do (static_child d) (push_array (push_bson_value n) used)
           | VUtf8 s \<Rightarrow> lua_push used (Ret (LStr s))
           | VInt32 i \<Rightarrow> lua_push used (Ret (LInt (scast i)))
           | VInt64 i \<Rightarrow> lua_push used (Ret (LInt i))
           | VDouble d \<Rightarrow> lua_push used (Ret (LNum d))
           | VBool b \<Rightarrow> lua_push used (Ret (LBool b))
           | VOther \<Rightarrow> lua_push used (Ret LNil)))"

definition push_bson_document :: "nat \<Rightarrow> nat \<Rightarrow> byte list \<Rightarrow> lua_val res" where
  "push_bson_document fuel used doc = push_document (push_bson_value fuel) used doc"

section \<open>The settings of the log queue\<close>

text \<open>
  Doubles by their bits: whether one is above zero, and the integer part of one that is. Converting
  an integer part that \<open>size_t\<close> cannot hold, or an infinity, is undefined.
\<close>

definition double_positive :: "u64 \<Rightarrow> bool" where
  "double_positive d \<longleftrightarrow> 0 < unat d \<and> unat d \<le> 2047 * 2 ^ 52"

definition double_to_size :: "u64 \<Rightarrow> u64 res" where
  "double_to_size d =
     (let e = unat d div 2 ^ 52; m = unat d mod 2 ^ 52;
          n = (if e < 1075 then (2 ^ 52 + m) div 2 ^ (1075 - e) else (2 ^ 52 + m) * 2 ^ (e - 1075)) in
      if e = 0 then Ret 0 else if 1086 < e then Fault BadConversion else Ret (word_of_nat n))"

text \<open>\<open>bson_iter_to_size\<close>; the first argument is the contents of \<open>*out\<close> before the call.\<close>

definition bson_iter_to_size :: "u64 \<Rightarrow> bson_iter \<Rightarrow> u64 res" where
  "bson_iter_to_size out it =
     then_do (bson_iter_type it) (\<lambda>t.
       if t = BSON_TYPE_INT32
       then then_do (bson_iter_int32 it) (\<lambda>v. Ret (if 0 < sint v then scast v else out))
       else if t = BSON_TYPE_INT64
       then then_do (bson_iter_int64 it) (\<lambda>v. Ret (if 0 < sint v then v else out))
       else if t = BSON_TYPE_DOUBLE
       then then_do (bson_iter_double it) (\<lambda>v. if double_positive v then double_to_size v else Ret out)
       else Ret out)"

definition ascii :: "string \<Rightarrow> byte list" where
  "ascii s = map of_char s"

definition size_setting :: "byte list \<Rightarrow> byte list \<Rightarrow> u64 \<Rightarrow> u64 res" where
  "size_setting common key dflt =
     then_do (bson_iter_init_find common key) (\<lambda>(found, it).
       if found then bson_iter_to_size dflt it else Ret dflt)"

definition apply_log_queue_settings :: "byte list \<Rightarrow> logger \<Rightarrow> logger res" where
  "apply_log_queue_settings doc g =
     then_do (bson_iter_init_find doc (ascii ''common'')) (\<lambda>(found, it).
       if \<not> found then Ret g
       else then_do (bson_iter_type it) (\<lambda>t.
         if t \<noteq> BSON_TYPE_DOCUMENT then Ret g
         else then_do (bson_iter_document it) (\<lambda>d. case d of
           None \<Rightarrow> Fault NullDeref
         | Some data \<Rightarrow>
             then_do (static_child data) (\<lambda>common.
               then_do (size_setting common (ascii ''log_queue_max'') 10000) (\<lambda>log_queue_max.
                 then_do (size_setting common (ascii ''log_queue_warn'') 8000) (\<lambda>log_queue_warn.
                   Ret (logger_set_queue_params log_queue_max log_queue_warn g)))))))"

section \<open>The file\<close>

text \<open>What the operating system answers to the calls of \<open>read_file_all\<close>.\<close>

record file_env =
  fopen_rd :: bool
  seek_end :: bool
  ftell_size :: int
  seek_set :: bool
  buffer_malloc :: bool
  fread_bytes :: "byte list"

definition read_file_all :: "file_env \<Rightarrow> byte list option" where
  "read_file_all f =
     (if \<not> fopen_rd f then None
      else if \<not> seek_end f then None
      else if ftell_size f < 0 then None
      else if \<not> seek_set f then None
      else if \<not> buffer_malloc f then None
      else if int (length (fread_bytes f)) \<noteq> ftell_size f then None
      else Some (fread_bytes f))"

text \<open>\<open>build_config_path\<close>: the return value and the buffer.\<close>

definition build_config_path :: "log_env \<Rightarrow> nat \<Rightarrow> int \<times> string" where
  "build_config_path env buffer_size =
     (let project_root = get_project_root 1024 (exepath env) (cwd env);
          path = project_root @ slash # ''server'' @ slash # ''conf'' @ slash # ''conf.json'' in
      (if 0 < length path \<and> length path < buffer_size then 0 else - 1, fit buffer_size path))"

text \<open>
  \<open>load_and_push_config\<close> with \<open>used\<close> slots in use. \<open>file_at\<close> is the file system, \<open>parse_json\<close> is
  \<open>bson_new_from_json\<close>. The result is the table, when there is one, and the logger.
\<close>

definition load_and_push_config ::
  "log_env \<Rightarrow> (string \<Rightarrow> file_env) \<Rightarrow> (byte list \<Rightarrow> byte list option) \<Rightarrow> nat \<Rightarrow> nat \<Rightarrow> string option \<Rightarrow> logger \<Rightarrow>
   (lua_val option \<times> logger) res" where
  "load_and_push_config env file_at parse_json fuel used config_path g =
     (case (case config_path of Some p \<Rightarrow> (0, fit 1152 p) | None \<Rightarrow> build_config_path env 1152) of
        (r, path) \<Rightarrow>
          if r \<noteq> 0 then Ret (None, g)
          else case read_file_all (file_at path) of
            None \<Rightarrow> Ret (None, g)
          | Some text \<Rightarrow>
              case parse_json text of
                None \<Rightarrow> Ret (None, g)
              | Some doc \<Rightarrow>
                  then_do (apply_log_queue_settings doc g) (\<lambda>g.
                    then_do (push_bson_document fuel used doc) (\<lambda>t. Ret (Some t, g))))"

section \<open>The table \<open>gear\<close>\<close>

datatype gear_val = GFunction string | GValue lua_val

text \<open>\<open>lua_getfield\<close> on a value that has to be a table here.\<close>

definition table_get :: "lua_val \<Rightarrow> lua_val \<Rightarrow> lua_val" where
  "table_get t k = (case t of LTab es \<Rightarrow> (case map_of es k of Some v \<Rightarrow> v | None \<Rightarrow> LNil) | _ \<Rightarrow> LNil)"

definition gear_put :: "string \<Rightarrow> gear_val \<Rightarrow> (string \<Rightarrow> gear_val option) \<Rightarrow> string \<Rightarrow> gear_val option" where
  "gear_put k v gear = gear(k := if v = GValue LNil then None else Some v)"

text \<open>
  \<open>register_lua_bindings\<close>: the slots in use at the end, the fields of \<open>gear\<close> and the logger. Slot 1 keeps the
  server context, slot 2 holds the table until \<open>lua_setglobal\<close>.
\<close>

definition register_lua_bindings ::
  "log_env \<Rightarrow> (string \<Rightarrow> file_env) \<Rightarrow> (byte list \<Rightarrow> byte list option) \<Rightarrow> nat \<Rightarrow> string option \<Rightarrow> string option \<Rightarrow>
   logger \<Rightarrow> (nat \<times> (string \<Rightarrow> gear_val option) \<times> logger) res" where
  "register_lua_bindings env file_at parse_json fuel process_name config_path g =
     (let g = logger_init (Some ''server'') process_name g;
          name = (case process_name of Some n \<Rightarrow> n | None \<Rightarrow> ''server'');
          gear = Map.empty
            (''send_data'' \<mapsto> GFunction ''lua_send_data'', ''send_bson'' \<mapsto> GFunction ''lua_send_bson'',
             ''close_client'' \<mapsto> GFunction ''lua_close_client'',
             ''get_client_count'' \<mapsto> GFunction ''lua_get_client_count'', ''log'' \<mapsto> GFunction ''lua_log'',
             ''is_closing'' \<mapsto> GFunction ''lua_is_closing_client'') in
      then_do (load_and_push_config env file_at parse_json fuel 2 config_path g) (\<lambda>(config, g).
        let gear =
          (case config of
             Some t \<Rightarrow>
               gear_put ''process'' (GValue (table_get t (LStr (ascii name))))
                 (gear_put ''common'' (GValue (table_get t (LStr (ascii ''common''))))
                   (gear_put ''config'' (GValue t) gear))
           | None \<Rightarrow>
               gear_put ''process'' (GValue LNil) (gear_put ''common'' (GValue LNil)
                 (gear_put ''config'' (GValue LNil) gear))) in
        Ret (1, gear_put ''process_name'' (GValue (LStr (ascii name))) gear, g)))"

end
