(* ===== verification/Utf8.thy ===== *)
theory Utf8
  imports Gear_Prelude
begin

text \<open>
  UTF-8 in libbson: \<open>ge/libbson/src/bson/bson-utf8.c\<close> with the inline functions of
  \<open>common-utf8-private.h\<close>, and the proof that the validator accepts what the encoder writes.
\<close>

unbundle bit_operations_syntax

section \<open>The functions\<close>

text \<open>\<open>mcommon_utf8_get_sequence\<close>: the length of a sequence and the mask of its first byte, from this byte.\<close>

definition utf8_get_sequence :: "byte \<Rightarrow> nat \<times> byte" where
  "utf8_get_sequence c =
     (if c AND 0x80 = 0 then (1, 0x7F)
      else if c AND 0xE0 = 0xC0 then (2, 0x1F)
      else if c AND 0xF0 = 0xE0 then (3, 0x0F)
      else if c AND 0xF8 = 0xF0 then (4, 0x07)
      else (0, 0))"

text \<open>\<open>mcommon_utf8_from_unichar\<close>, inlined in \<open>bson_utf8_from_unichar\<close>: the bytes written, none for length 0.\<close>

definition utf8_from_unichar :: "u32 \<Rightarrow> byte list" where
  "utf8_from_unichar c =
     (if c \<le> 0x7F then [ucast c]
      else if c \<le> 0x7FF then
        [ucast (0xC0 OR (drop_bit 6 c AND 0x3F)), ucast (0x80 OR (c AND 0x3F))]
      else if c \<le> 0xFFFF then
        [ucast (0xE0 OR (drop_bit 12 c AND 0xF)), ucast (0x80 OR (drop_bit 6 c AND 0x3F)),
         ucast (0x80 OR (c AND 0x3F))]
      else if c \<le> 0x1FFFFF then
        [ucast (0xF0 OR (drop_bit 18 c AND 0x7)), ucast (0x80 OR (drop_bit 12 c AND 0x3F)),
         ucast (0x80 OR (drop_bit 6 c AND 0x3F)), ucast (0x80 OR (c AND 0x3F))]
      else [])"

text \<open>One more byte of a character, and the loop of the validator over all of them.\<close>

definition utf8_add_byte :: "u32 \<Rightarrow> byte \<Rightarrow> u32" where
  "utf8_add_byte c b = push_bit 6 c OR ucast (b AND 0x3F)"

fun utf8_continue :: "u32 \<Rightarrow> byte list \<Rightarrow> u32 option" where
  "utf8_continue c [] = Some c"
| "utf8_continue c (b # bs) =
     (if b AND 0xC0 \<noteq> 0x80 then None else utf8_continue (utf8_add_byte c b) bs)"

definition bson_utf8_get_char :: "byte list \<Rightarrow> u32 res" where
  "bson_utf8_get_char u =
     (case u of
        [] \<Rightarrow> Fault OutOfBounds
      | b # bs \<Rightarrow> case utf8_get_sequence b of (num, m) \<Rightarrow>
          if length u < num then Fault OutOfBounds
          else Ret (foldl utf8_add_byte (ucast (b AND m)) (take (num - 1) bs)))"

text \<open>The last switch of \<open>bson_utf8_validate\<close>: is the sequence the shortest one?\<close>

definition utf8_shortest :: "bool \<Rightarrow> nat \<Rightarrow> u32 \<Rightarrow> bool" where
  "utf8_shortest allow_null seq c =
     (if seq = 1 then c \<le> 0x7F
      else if seq = 2 then
        if 0x80 \<le> c \<and> c \<le> 0x7FF then True else if c = 0 then allow_null else False
      else if seq = 3 then (0x800 \<le> c \<and> c \<le> 0xFFF) \<or> (0x1000 \<le> c \<and> c \<le> 0xFFFF)
      else if seq = 4 then
        (0x10000 \<le> c \<and> c \<le> 0x3FFFF) \<or> (0x40000 \<le> c \<and> c \<le> 0xFFFFF) \<or> (0x100000 \<le> c \<and> c \<le> 0x10FFFF)
      else False)"

text \<open>\<open>bson_utf8_validate\<close>, on the bytes from \<open>i\<close> on.\<close>

function bson_utf8_validate :: "byte list \<Rightarrow> bool \<Rightarrow> bool" where
  "bson_utf8_validate u allow_null =
     (case u of
        [] \<Rightarrow> True
      | b # bs \<Rightarrow> case utf8_get_sequence b of (seq, first_mask) \<Rightarrow>
          if seq = 0 then False
          else if length u < seq then False
          else case utf8_continue (ucast (b AND first_mask)) (take (seq - 1) bs) of
            None \<Rightarrow> False
          | Some c \<Rightarrow>
              if \<not> allow_null \<and> 0 \<in> set (take seq u) then False
              else if 0x10FFFF < c then False
              else if c AND 0xFFFFF800 = 0xD800 then False
              else if utf8_shortest allow_null seq c then bson_utf8_validate (drop seq u) allow_null
              else False)"
  by pat_completeness auto
termination by (relation "measure (\<lambda>(u, _). length u)") auto

declare bson_utf8_validate.simps [simp del]

section \<open>Bytes and characters as numbers\<close>

lemma unat_byte: "unat (b :: byte) < 256"
  using unsigned_less [of b, where 'a = nat] by simp

lemma lead_bytes:
  "\<forall>n < 256. utf8_get_sequence (word_of_nat n) =
     (if n < 128 then (1, 0x7F) else if n < 192 then (0, 0) else if n < 224 then (2, 0x1F)
      else if n < 240 then (3, 0x0F) else if n < 248 then (4, 0x07) else (0, 0))"
  by code_simp

lemma other_bytes: "\<forall>n < 256. ((word_of_nat n :: byte) AND 0xC0 = 0x80) = (n div 64 = 2)"
  by code_simp

lemma get_sequence_cases:
  "utf8_get_sequence b =
     (if unat b < 128 then (1, 0x7F) else if unat b < 192 then (0, 0) else if unat b < 224 then (2, 0x1F)
      else if unat b < 240 then (3, 0x0F) else if unat b < 248 then (4, 0x07) else (0, 0))"
  using lead_bytes [rule_format, OF unat_byte, of b] by simp

lemma is_other_byte: "b AND 0xC0 = 0x80 \<longleftrightarrow> unat b div 64 = 2" for b :: byte
  using other_bytes [rule_format, OF unat_byte, of b] by simp

lemma and_masks:
  "w AND 0x3F = take_bit 6 w" "w AND 0x7F = take_bit 7 w" "w AND 0x1F = take_bit 5 w"
  "w AND 0x0F = take_bit 4 w" "w AND 0x07 = take_bit 3 w" for w :: "'a :: len word"
  by (simp_all add: take_bit_eq_mask mask_eq_exp_minus_1)

lemmas nat_bits = take_bit_eq_mod [where 'a = nat] drop_bit_eq_div [where 'a = nat] push_bit_eq_mult [where 'a = nat]

lemma unat_take_bit: "unat (take_bit n w) = unat w mod 2 ^ n" for w :: "'a :: len word"
  by (simp add: unsigned_take_bit_eq nat_bits)

lemma unat_drop_bit: "unat (drop_bit n w) = unat w div 2 ^ n" for w :: "'a :: len word"
  by (simp add: unat_drop_bit_eq nat_bits)

text \<open>An OR with something below a power of two that divides the other side is a sum.\<close>

lemma or_disjoint: "m < 2 ^ k \<Longrightarrow> 2 ^ k dvd n \<Longrightarrow> n OR m = n + m" for m n :: nat
proof -
  assume m: "m < 2 ^ k" and "2 ^ k dvd n"
  then obtain q where n: "n = push_bit k q" by (auto simp: push_bit_eq_mult elim!: dvdE)
  have "m = take_bit k m" using m by (simp add: nat_bits)
  moreover have "n AND take_bit k m = 0" by (auto simp: n bit_eq_iff bit_simps)
  ultimately have "n AND m = 0" by simp
  then show ?thesis by (simp add: disjunctive_add_eq_or)
qed

lemma unat_add_byte:
  "unat c < 67108864 \<Longrightarrow> unat (utf8_add_byte c b) = 64 * unat c + unat b mod 64"
  using or_disjoint [of "unat b mod 64" 6 "64 * unat c"]
  by (simp add: utf8_add_byte_def and_masks unsigned_or_eq unsigned_push_bit_eq nat_bits
      unsigned_ucast_eq unat_take_bit mult.commute)

lemma unat_lead: "unat (ucast b :: u32) = unat b" for b :: byte
  by (simp add: unsigned_ucast_eq nat_bits) (use unat_byte [of b] in simp)

text \<open>The encoder on numbers.\<close>

lemma from_unichar_bytes:
  "map unat (utf8_from_unichar c) =
     (let n = unat c in
      if n < 128 then [n]
      else if n < 2048 then [192 + n div 64, 128 + n mod 64]
      else if n < 65536 then [224 + n div 4096, 128 + n div 64 mod 64, 128 + n mod 64]
      else if n < 2097152 then
        [240 + n div 262144, 128 + n div 4096 mod 64, 128 + n div 64 mod 64, 128 + n mod 64]
      else [])"
proof -
  have o: "128 OR m = 128 + m" "192 OR m = 192 + m" if "m < 64" for m :: nat
    using that or_disjoint [of m 6 128] or_disjoint [of m 6 192] by simp_all
  have p: "224 OR m = 224 + m" if "m < 16" for m :: nat using that or_disjoint [of m 4 224] by simp
  have q: "240 OR m = 240 + m" if "m < 8" for m :: nat using that or_disjoint [of m 3 240] by simp
  have d: "n div 64 mod 64 = n div 64" if "n < 2048" for n :: nat using that by simp
  have e: "n div 4096 mod 16 = n div 4096" if "n < 65536" for n :: nat using that by simp
  have f: "n div 262144 mod 8 = n div 262144" if "n < 2097152" for n :: nat using that by simp
  show ?thesis
    by (simp add: utf8_from_unichar_def Let_def word_le_nat_alt and_masks unsigned_ucast_eq nat_bits
        unsigned_or_eq unat_take_bit unat_drop_bit o p q d e f)
qed

lemma bytes_eqI: "map unat xs = map unat ys \<Longrightarrow> xs = (ys :: byte list)"
  by (metis injD inj_mapI inj_on_def word_unat_eq_iff)

lemma surrogate_iff: "c AND 0xFFFFF800 = 0xD800 \<longleftrightarrow> unat c div 2048 = 27" for c :: u32
proof -
  have "(0xFFFFF800 :: u32) = NOT (mask 11)" by (simp add: mask_eq_exp_minus_1)
  moreover have "c AND NOT (mask 11) = push_bit 11 (drop_bit 11 c)"
    by (rule bit_eqI) (auto simp: bit_simps not_less)
  ultimately have "c AND 0xFFFFF800 = push_bit 11 (drop_bit 11 c)" by simp
  moreover have "unat (push_bit 11 (drop_bit 11 c)) = unat c div 2048 * 2048"
  proof -
    have "unat c < 4294967296" using unsigned_less [of c, where 'a = nat] by simp
    then have "unat c div 2048 * 2048 < 4294967296" by simp
    then show ?thesis by (simp add: unsigned_push_bit_eq nat_bits unat_drop_bit)
  qed
  ultimately show ?thesis by (simp add: word_unat_eq_iff)
qed

section \<open>One character\<close>

text \<open>Unicode scalar values, and what stands for one character: its encoding, or the two-byte NUL.\<close>

definition unicode_scalar :: "u32 \<Rightarrow> bool" where
  "unicode_scalar c \<longleftrightarrow> unat c < 1114112 \<and> unat c div 2048 \<noteq> 27"

definition utf8_unit :: "bool \<Rightarrow> byte list \<Rightarrow> bool" where
  "utf8_unit allow_null v \<longleftrightarrow>
     (\<exists>c. unicode_scalar c \<and> (c = 0 \<longrightarrow> allow_null) \<and> v = utf8_from_unichar c) \<or> (allow_null \<and> v = [0xC0, 0x80])"

text \<open>The value of a character whose first byte is \<open>b\<close> above \<open>base\<close>.\<close>

abbreviation other :: "byte \<Rightarrow> bool" where "other b \<equiv> unat b div 64 = 2"
abbreviation low :: "byte \<Rightarrow> nat" where "low b \<equiv> unat b mod 64"

lemma continue_is:
  "utf8_continue c v = (if \<forall>b \<in> set v. other b then Some (foldl utf8_add_byte c v) else None)"
  by (induction v arbitrary: c) (auto simp: is_other_byte)

lemma shortest_is:
  "utf8_shortest an seq c =
     (let n = unat c in
      if seq = 1 then n < 128
      else if seq = 2 then 128 \<le> n \<and> n < 2048 \<or> n = 0 \<and> an
      else if seq = 3 then 2048 \<le> n \<and> n < 65536
      else seq = 4 \<and> 65536 \<le> n \<and> n < 1114112)"
  by (auto simp: utf8_shortest_def Let_def word_le_nat_alt word_unat_eq_iff)

lemma validate_sequence:
  assumes "utf8_get_sequence b = (Suc (length v), m)"
  shows "bson_utf8_validate (b # v @ r) an \<longleftrightarrow>
    (let c = foldl utf8_add_byte (ucast (b AND m)) v in
     (\<forall>x \<in> set v. other x) \<and> (an \<or> 0 \<notin> set (b # v)) \<and> unat c < 1114112 \<and> unat c div 2048 \<noteq> 27 \<and>
     utf8_shortest an (Suc (length v)) c \<and> bson_utf8_validate r an)"
  by (subst bson_utf8_validate.simps)
    (auto simp: assms continue_is Let_def surrogate_iff word_less_nat_alt)

lemma validate_short:
  "utf8_get_sequence b = (seq, m) \<Longrightarrow> length v + 1 < seq \<or> seq = 0 \<Longrightarrow> \<not> bson_utf8_validate (b # v) an"
  by (subst bson_utf8_validate.simps) auto

text \<open>The numbers behind a sequence of each length.\<close>

lemma low_other: "other x \<Longrightarrow> 128 + low x = unat x"
  using div_mult_mod_eq [of "unat x" 64] by linarith

lemma digits:
  "(a * 64 + k mod 64) div 64 = a" "(a * 64 + k mod 64) mod 64 = k mod 64"
  "a div 4096 = a div 64 div 64" "a div 262144 = a div 64 div 64 div 64" for a k :: nat
  by (simp_all add: div_mult2_eq [symmetric])

lemma unat_chars:
  "unat (foldl utf8_add_byte (take_bit 5 (ucast b)) [x]) = unat b mod 32 * 64 + low x"
  "unat (foldl utf8_add_byte (take_bit 4 (ucast b)) [x, y]) = (unat b mod 16 * 64 + low x) * 64 + low y"
  "unat (foldl utf8_add_byte (take_bit 3 (ucast b)) [x, y, z]) = ((unat b mod 8 * 64 + low x) * 64 + low y) * 64 + low z"
  for b :: byte
proof -
  have a: "unat b mod 32 * 64 + low x < 67108864" "unat b mod 16 * 64 + low x < 67108864"
    "unat b mod 8 * 64 + low x < 67108864" "unat b mod 32 < 67108864" "unat b mod 16 < 67108864" "unat b mod 8 < 67108864"
    using unat_byte [of b] by simp_all
  have l: "unat (take_bit k (ucast b :: u32)) = unat b mod 2 ^ k" for k
    by (simp add: unat_take_bit unat_lead)
  show "unat (foldl utf8_add_byte (take_bit 5 (ucast b)) [x]) = unat b mod 32 * 64 + low x"
    using a by (simp add: unat_add_byte l)
  show "unat (foldl utf8_add_byte (take_bit 4 (ucast b)) [x, y]) = (unat b mod 16 * 64 + low x) * 64 + low y"
    using a by (simp add: unat_add_byte l)
  show "unat (foldl utf8_add_byte (take_bit 3 (ucast b)) [x, y, z]) =
      ((unat b mod 8 * 64 + low x) * 64 + low y) * 64 + low z"
    using a by (simp add: unat_add_byte l)
qed

lemma masked_leads:
  "ucast (b AND 0x1F) = take_bit 5 (ucast b :: u32)" "ucast (b AND 0x0F) = take_bit 4 (ucast b :: u32)"
  "ucast (b AND 0x07) = take_bit 3 (ucast b :: u32)" "ucast (b AND 0x7F) = take_bit 7 (ucast b :: u32)" for b :: byte
  by (simp_all add: and_masks word_unat_eq_iff unat_lead unat_take_bit)

lemma length_cases: "length v = 0 \<Longrightarrow> v = []" "length v = Suc n \<Longrightarrow> \<exists>x w. v = x # w \<and> length w = n"
  by (auto simp: length_Suc_conv)

lemma lead_rest:
  "192 \<le> n \<Longrightarrow> n < 224 \<Longrightarrow> 192 + n mod 32 = n" "224 \<le> n \<Longrightarrow> n < 240 \<Longrightarrow> 224 + n mod 16 = n"
  "240 \<le> n \<Longrightarrow> n < 248 \<Longrightarrow> 240 + n mod 8 = n" for n :: nat
  using mod_mult_self2 [of "n - 192" 32 6] mod_mult_self2 [of "n - 224" 16 14] mod_mult_self2 [of "n - 240" 8 30]
  by simp_all

text \<open>A sequence that passes the checks is the encoding of its character, or the two-byte NUL.\<close>

lemma sequence_is_encoding:
  assumes "utf8_get_sequence b = (Suc (length v), m)" and "\<forall>x \<in> set v. other x"
    and "c = foldl utf8_add_byte (ucast (b AND m)) v" and "utf8_shortest an (Suc (length v)) c"
  shows "b # v = utf8_from_unichar c \<or> an \<and> b # v = [0xC0, 0x80]"
proof -
  have split: "unat b < 128 \<and> m = 0x7F \<and> length v = 0 \<or> 192 \<le> unat b \<and> unat b < 224 \<and> m = 0x1F \<and> length v = 1 \<or>
      224 \<le> unat b \<and> unat b < 240 \<and> m = 0x0F \<and> length v = 2 \<or> 240 \<le> unat b \<and> unat b < 248 \<and> m = 0x07 \<and> length v = 3"
    using assms(1) unfolding get_sequence_cases by (auto split: if_splits)
  then consider (1) "unat b < 128" "m = 0x7F" "v = []" | (2) x where "192 \<le> unat b" "unat b < 224" "m = 0x1F" "v = [x]"
    | (3) x y where "224 \<le> unat b" "unat b < 240" "m = 0x0F" "v = [x, y]"
    | (4) x y z where "240 \<le> unat b" "unat b < 248" "m = 0x07" "v = [x, y, z]"
    by (auto simp: numeral_eq_Suc length_Suc_conv)
  then show ?thesis
  proof cases
    case 1
    then have "unat c = unat b" using assms(3) by (simp add: masked_leads unat_take_bit unat_lead)
    then have "map unat (utf8_from_unichar c) = map unat (b # v)"
      using 1 by (simp add: from_unichar_bytes Let_def)
    then show ?thesis by (metis bytes_eqI)
  next
    case 2
    have n: "unat c = unat b mod 32 * 64 + low x" "other x"
      using 2 assms(2,3) by (simp_all only: masked_leads unat_chars list.set) simp
    show ?thesis
    proof (cases "unat c = 0")
      case True
      then have "unat b mod 32 = 0" "low x = 0" using n(1) by simp_all
      then have "unat x = 128" using low_other [OF n(2)] by simp
      moreover have "unat b = 192" using lead_rest(1) [OF 2(1,2)] \<open>unat b mod 32 = 0\<close> by simp
      moreover have "an" using assms(4) True 2(4) by (simp add: shortest_is)
      ultimately show ?thesis using 2(4) by (simp add: word_unat_eq_iff)
    next
      case False
      then have "128 \<le> unat c" "unat c < 2048" using assms(4) 2 by (simp_all add: shortest_is Let_def)
      moreover have "192 + unat c div 64 = unat b"
        unfolding n(1) digits by (rule lead_rest(1) [OF 2(1,2)])
      moreover have "128 + unat c mod 64 = unat x" unfolding n(1) digits by (rule low_other [OF n(2)])
      ultimately have "map unat (utf8_from_unichar c) = map unat (b # v)"
        using 2 by (simp add: from_unichar_bytes Let_def)
      then show ?thesis by (metis bytes_eqI)
    qed
  next
    case 3
    have n: "unat c = (unat b mod 16 * 64 + low x) * 64 + low y" "other x" "other y"
      using 3 assms(2,3) by (simp_all only: masked_leads unat_chars list.set) simp_all
    have "2048 \<le> unat c" "unat c < 65536" using assms(4) 3 by (simp_all add: shortest_is Let_def)
    moreover have "224 + unat c div 4096 = unat b"
      unfolding n(1) digits by (rule lead_rest(2) [OF 3(1,2)])
    moreover have "128 + unat c div 64 mod 64 = unat x" "128 + unat c mod 64 = unat y"
      unfolding n(1) digits by (rule low_other, rule n)+
    ultimately have "map unat (utf8_from_unichar c) = map unat (b # v)"
      using 3 by (simp add: from_unichar_bytes Let_def)
    then show ?thesis by (metis bytes_eqI)
  next
    case 4
    have n: "unat c = ((unat b mod 8 * 64 + low x) * 64 + low y) * 64 + low z" "other x" "other y" "other z"
      using 4 assms(2,3) by (simp_all only: masked_leads unat_chars list.set) simp_all
    have "65536 \<le> unat c" "unat c < 1114112" using assms(4) 4 by (simp_all add: shortest_is Let_def)
    moreover have "240 + unat c div 262144 = unat b"
      unfolding n(1) digits by (rule lead_rest(3) [OF 4(1,2)])
    moreover have "128 + unat c div 4096 mod 64 = unat x" "128 + unat c div 64 mod 64 = unat y"
      "128 + unat c mod 64 = unat z"
      unfolding n(1) digits by (rule low_other, rule n)+
    ultimately have "map unat (utf8_from_unichar c) = map unat (b # v)"
      using 4 by (simp add: from_unichar_bytes Let_def)
    then show ?thesis by (metis bytes_eqI)
  qed
qed

text \<open>The encoding of a character is a sequence that reads as this character.\<close>

lemma encoding_is_sequence:
  assumes "unat c < 2097152"
  obtains b v m where "utf8_from_unichar c = b # v" and "utf8_get_sequence b = (Suc (length v), m)"
    and "\<forall>x \<in> set v. other x" and "foldl utf8_add_byte (ucast (b AND m)) v = c"
    and "unat c = 0 \<Longrightarrow> v = [] \<and> b = 0" and "0 < unat c \<Longrightarrow> 0 \<notin> set (b # v)"
    and "unat c < 1114112 \<Longrightarrow> utf8_shortest an (Suc (length v)) c"
proof -
  have oth: "other x" if "unat x = 128 + k mod 64" for x :: byte and k using that by simp
  have lw: "low x = k mod 64" if "unat x = 128 + k mod 64" for x :: byte and k
    using that mod_add_self1 [of 64 "64 + k mod 64"] by simp
  have nz: "unat x \<noteq> 0" if "unat x = 128 + k" for x :: byte and k using that by simp
  have map1: "\<exists>b v. u = b # v \<and> unat b = n \<and> map unat v = ns" if "map unat u = n # ns" for u :: "byte list" and n ns
    using that by auto
  have undigit: "n div 64 * 64 + n mod 64 = n" for n :: nat by simp
  define n where "n = unat c"
  consider "n < 128" | "128 \<le> n" "n < 2048" | "2048 \<le> n" "n < 65536" | "65536 \<le> n" by linarith
  then show ?thesis
  proof cases
    case 1
    then have u: "map unat (utf8_from_unichar c) = [n]" by (simp add: from_unichar_bytes Let_def n_def)
    then obtain b where b: "utf8_from_unichar c = [b]" "unat b = n" by auto
    have "foldl utf8_add_byte (ucast (b AND 0x7F)) [] = c"
      using 1 b(2) by (simp add: masked_leads word_unat_eq_iff unat_take_bit unat_lead n_def)
    then show ?thesis using 1 b
      by (intro that [of b "[]" "0x7F"]) (simp_all add: get_sequence_cases shortest_is n_def [symmetric] word_unat_eq_iff)
  next
    case 2
    then have "map unat (utf8_from_unichar c) = [192 + n div 64, 128 + n mod 64]"
      by (simp add: from_unichar_bytes Let_def n_def)
    then obtain b x where b: "utf8_from_unichar c = [b, x]" "unat b = 192 + n div 64" "unat x = 128 + n mod 64" by auto
    have l: "n div 64 < 32" using 2 by simp
    then have "unat b mod 32 = n div 64" using mod_mult_self2 [of "n div 64" 32 6] by (simp add: b(2) add.commute)
    then have "unat (foldl utf8_add_byte (take_bit 5 (ucast b)) [x]) = n"
      unfolding unat_chars lw [OF b(3)] by simp
    then have "foldl utf8_add_byte (ucast (b AND 0x1F)) [x] = c"
      unfolding masked_leads word_unat_eq_iff n_def .
    moreover have "unat b < 224" "192 \<le> unat b" using l b(2) by linarith+
    then have "utf8_get_sequence b = (Suc (length [x]), 0x1F)" by (simp add: get_sequence_cases)
    moreover have "0 \<notin> set [b, x]" using b(2-) by (auto simp: word_unat_eq_iff)
    moreover have "utf8_shortest an (Suc (length [x])) c" if "unat c < 1114112"
      using 2 that by (simp add: shortest_is Let_def n_def)
    moreover have "\<forall>w \<in> set [x]. other w" using oth [OF b(3)] by simp
    ultimately show ?thesis using 2 by (intro that [OF b(1)]) (simp_all only: n_def, simp_all)
  next
    case 3
    then have "map unat (utf8_from_unichar c) = [224 + n div 4096, 128 + n div 64 mod 64, 128 + n mod 64]"
      by (simp add: from_unichar_bytes Let_def n_def)
    then obtain b x y where b: "utf8_from_unichar c = [b, x, y]" "unat b = 224 + n div 4096"
      "unat x = 128 + n div 64 mod 64" "unat y = 128 + n mod 64" by auto
    have l: "n div 4096 < 16" using 3 by simp
    then have "unat b mod 16 = n div 64 div 64"
      using mod_mult_self2 [of "n div 4096" 16 14] by (simp add: b(2) digits(3) [symmetric] add.commute)
    then have "unat (foldl utf8_add_byte (take_bit 4 (ucast b)) [x, y]) = n"
      unfolding unat_chars lw [OF b(3)] lw [OF b(4)] by (simp only: undigit)
    then have "foldl utf8_add_byte (ucast (b AND 0x0F)) [x, y] = c"
      unfolding masked_leads word_unat_eq_iff n_def .
    moreover have "unat b < 240" "224 \<le> unat b" using l b(2) by linarith+
    then have "utf8_get_sequence b = (Suc (length [x, y]), 0x0F)" by (simp add: get_sequence_cases)
    moreover have "0 \<notin> set [b, x, y]" using b(2-) by (auto simp: word_unat_eq_iff)
    moreover have "utf8_shortest an (Suc (length [x, y])) c" if "unat c < 1114112"
      using 3 that by (simp add: shortest_is Let_def n_def)
    moreover have "\<forall>w \<in> set [x, y]. other w" using oth [OF b(3)] oth [OF b(4)] by simp
    ultimately show ?thesis using 3 by (intro that [OF b(1)]) (simp_all only: n_def, simp_all)
  next
    case 4
    then have "map unat (utf8_from_unichar c) =
        [240 + n div 262144, 128 + n div 4096 mod 64, 128 + n div 64 mod 64, 128 + n mod 64]"
      using assms by (simp add: from_unichar_bytes Let_def n_def)
    then obtain b x y z where b: "utf8_from_unichar c = [b, x, y, z]" "unat b = 240 + n div 262144"
      "unat x = 128 + n div 4096 mod 64" "unat y = 128 + n div 64 mod 64" "unat z = 128 + n mod 64" by auto
    have l: "n div 262144 < 8" using assms by (simp add: n_def)
    then have "unat b mod 8 = n div 64 div 64 div 64"
      using mod_mult_self2 [of "n div 262144" 8 30] by (simp add: b(2) digits(4) [symmetric] add.commute)
    then have "unat (foldl utf8_add_byte (take_bit 3 (ucast b)) [x, y, z]) = n"
      unfolding unat_chars lw [OF b(3)] lw [OF b(4)] lw [OF b(5)] digits(3) by (simp only: undigit)
    then have "foldl utf8_add_byte (ucast (b AND 0x07)) [x, y, z] = c"
      unfolding masked_leads word_unat_eq_iff n_def .
    moreover have "unat b < 248" "240 \<le> unat b" using l b(2) by linarith+
    then have "utf8_get_sequence b = (Suc (length [x, y, z]), 0x07)" by (simp add: get_sequence_cases)
    moreover have "0 \<notin> set [b, x, y, z]" using b(2-) by (auto simp: word_unat_eq_iff)
    moreover have "utf8_shortest an (Suc (length [x, y, z])) c" if "unat c < 1114112"
      using 4 that by (simp add: shortest_is Let_def n_def)
    moreover have "\<forall>w \<in> set [x, y, z]. other w" using oth [OF b(3)] oth [OF b(4)] oth [OF b(5)] by simp
    ultimately show ?thesis using 4 by (intro that [OF b(1)]) (simp_all only: n_def, simp_all)
  qed
qed

section \<open>The validator and the encoder\<close>

lemma validate_unit:
  assumes "utf8_unit an u"
  shows "bson_utf8_validate (u @ r) an = bson_utf8_validate r an" and "u \<noteq> []"
proof -
  have "bson_utf8_validate (u @ r) an = bson_utf8_validate r an \<and> u \<noteq> []"
    using assms unfolding utf8_unit_def
  proof (elim disjE exE conjE)
    fix c assume c: "unicode_scalar c" "c = 0 \<longrightarrow> an" "u = utf8_from_unichar c"
    then have "unat c < 2097152" "unat c < 1114112" by (simp_all add: unicode_scalar_def)
    then obtain b v m where e: "u = b # v" "utf8_get_sequence b = (Suc (length v), m)" "\<forall>x \<in> set v. other x"
        "foldl utf8_add_byte (ucast (b AND m)) v = c" "0 < unat c \<Longrightarrow> 0 \<notin> set (b # v)"
        "utf8_shortest an (Suc (length v)) c"
      using encoding_is_sequence [of c an] c(3) by metis
    have "an \<or> 0 \<notin> set (b # v)" using c(2) e(5) by (cases "c = 0") (simp_all add: word_unat_eq_iff)
    then show ?thesis
      using validate_sequence [OF e(2), of r an] e c(1) by (simp add: Let_def unicode_scalar_def)
  next
    assume "an" "u = [0xC0, 0x80]"
    then show ?thesis
      using validate_sequence [of "0xC0" "[0x80]" "0x1F" r an]
      by (simp add: get_sequence_cases utf8_add_byte_def shortest_is)
  qed
  then show "bson_utf8_validate (u @ r) an = bson_utf8_validate r an" and "u \<noteq> []" by simp_all
qed

lemma validate_first:
  assumes "bson_utf8_validate u an" and "u \<noteq> []"
  obtains v r where "u = v @ r" and "v \<noteq> []" and "utf8_unit an v" and "bson_utf8_validate r an"
proof -
  obtain b bs where u: "u = b # bs" using assms(2) by (cases u) auto
  obtain seq m where g: "utf8_get_sequence b = (seq, m)" by force
  have "\<not> (length bs + 1 < seq \<or> seq = 0)" using validate_short [OF g, of bs an] assms(1) u by blast
  then have "0 < seq" "seq \<le> length bs + 1" by simp_all
  define v where "v = take (seq - 1) bs"
  define c where "c = foldl utf8_add_byte (ucast (b AND m)) v"
  have bs: "bs = v @ drop (seq - 1) bs" and "length v = seq - 1"
    using \<open>seq \<le> length bs + 1\<close> by (simp_all add: v_def)
  then have g': "utf8_get_sequence b = (Suc (length v), m)" using g \<open>0 < seq\<close> by simp
  have ok: "\<forall>x \<in> set v. other x" "an \<or> 0 \<notin> set (b # v)" "unat c < 1114112" "unat c div 2048 \<noteq> 27"
      "utf8_shortest an (Suc (length v)) c" "bson_utf8_validate (drop (seq - 1) bs) an"
    using validate_sequence [OF g', of "drop (seq - 1) bs" an] assms(1) u bs by (simp_all add: Let_def c_def)
  have "b # v = utf8_from_unichar c \<or> an \<and> b # v = [0xC0, 0x80]"
    by (rule sequence_is_encoding [OF g' ok(1) c_def ok(5)])
  moreover have "c = 0 \<longrightarrow> an" if "b # v = utf8_from_unichar c"
    using that ok(2) by (auto simp: utf8_from_unichar_def)
  ultimately have "utf8_unit an (b # v)" using ok(3,4) by (auto simp: utf8_unit_def unicode_scalar_def)
  then show ?thesis using that [of "b # v" "drop (seq - 1) bs"] u bs ok(6) by simp
qed

lemma validate_iff_units:
  "bson_utf8_validate u an \<longleftrightarrow> (\<exists>us. u = concat us \<and> (\<forall>v \<in> set us. utf8_unit an v))"
proof
  show "bson_utf8_validate u an \<Longrightarrow> \<exists>us. u = concat us \<and> (\<forall>v \<in> set us. utf8_unit an v)"
  proof (induction u rule: length_induct)
    case (1 u)
    show ?case
    proof (cases "u = []")
      case True
      then show ?thesis by (intro exI [of _ "[]"]) simp
    next
      case False
      then obtain v r where v: "u = v @ r" "v \<noteq> []" "utf8_unit an v" "bson_utf8_validate r an"
        using validate_first 1(2) by blast
      then obtain us where "r = concat us" "\<forall>v \<in> set us. utf8_unit an v" using 1(1) v(1,2,4) by (metis length_append length_greater_0_conv less_add_same_cancel2)
      then show ?thesis using v by (intro exI [of _ "v # us"]) simp
    qed
  qed
  have "bson_utf8_validate [] an" by (simp add: bson_utf8_validate.simps)
  then have "bson_utf8_validate (concat us) an" if "\<forall>v \<in> set us. utf8_unit an v" for us
    using that by (induction us) (simp_all add: validate_unit)
  then show "\<exists>us. u = concat us \<and> (\<forall>v \<in> set us. utf8_unit an v) \<Longrightarrow> bson_utf8_validate u an" by blast
qed

lemma get_char_encoding:
  assumes "unat c < 2097152"
  shows "bson_utf8_get_char (utf8_from_unichar c @ rest) = Ret c"
proof -
  obtain b v m where "utf8_from_unichar c = b # v" "utf8_get_sequence b = (Suc (length v), m)"
      "foldl utf8_add_byte (ucast (b AND m)) v = c"
    using encoding_is_sequence [OF assms] by metis
  then show ?thesis by (simp add: bson_utf8_get_char_def)
qed

text \<open>Text without NULs is valid with and without them, and ASCII text is valid.\<close>

lemma validate_ascii: "\<forall>b \<in> set u. unat b < 128 \<and> b \<noteq> 0 \<Longrightarrow> bson_utf8_validate u an"
proof (induction u)
  case (Cons b u)
  then show ?case
    using validate_sequence [of b "[]" "0x7F" u an]
    by (simp add: get_sequence_cases masked_leads unat_take_bit unat_lead shortest_is)
qed (simp add: bson_utf8_validate.simps)

end
