(* ===== verification/Bson_Validate.thy ===== *)
theory Bson_Validate
  imports Config Utf8
begin

text \<open>
  Validation of BSON documents: \<open>ge/libbson/src/bson/validate.c\<close>, which \<open>bson_validate\<close> calls, with
  the accessors of the iterator it uses. Its functions take the validator \<open>self\<close> and return whether
  the item is valid, with the validator. The error is its code and the offset; the message is left out.
  Pointers into the document are the bytes they point to, so reading them is part of the accessor.
\<close>

section \<open>Accessors\<close>

definition bson_iter_key_len :: "bson_iter \<Rightarrow> u32 res" where
  "bson_iter_key_len it = assert_that (key_at it < d1 it) (Ret (d1 it - key_at it - 1))"

text \<open>\<open>bson_iter_regex\<close> and \<open>bson_iter_codewscope\<close>; \<open>None\<close> is the null pointer.\<close>

definition bson_iter_regex :: "bson_iter \<Rightarrow> (byte list \<times> byte list) option res" where
  "bson_iter_regex it = then_do (ITER_TYPE it) (\<lambda>t.
     if t = 11
     then then_do (iter_data it) (\<lambda>data. then_do (read_cstr data (unat (d1 it))) (\<lambda>rx.
       then_do (read_cstr data (unat (d2 it))) (\<lambda>opts. Ret (Some (rx, opts)))))
     else Ret None)"

definition bson_iter_codewscope :: "bson_iter \<Rightarrow> (byte list \<times> byte list) option res" where
  "bson_iter_codewscope it = then_do (ITER_TYPE it) (\<lambda>t.
     if t = 15
     then then_do (iter_data it) (\<lambda>data. then_do (read_u32 data (unat (d2 it))) (\<lambda>len.
       assert_that (0 < len)
         (then_do (read_slice data (unat (d3 it)) (unat (len - 1))) (\<lambda>code.
            then_do (read_u32 data (unat (d4 it))) (\<lambda>scope_len.
              then_do (read_slice data (unat (d4 it)) (unat scope_len)) (\<lambda>scope. Ret (Some (code, scope))))))))
     else Ret None)"

section \<open>The validator\<close>

record validation_params =
  allow_invalid_utf8 :: bool
  allow_null_in_utf8 :: bool
  allow_empty_keys :: bool
  allow_dot_in_keys :: bool
  check_special_dollar_keys :: bool

record validator =
  error_code :: nat
  error_offset :: u64

type_synonym verdict = "(bool \<times> validator) res"

definition BSON_VALIDATE_UTF8 :: nat where "BSON_VALIDATE_UTF8 = 1"
definition BSON_VALIDATE_DOLLAR_KEYS :: nat where "BSON_VALIDATE_DOLLAR_KEYS = 2"
definition BSON_VALIDATE_DOT_KEYS :: nat where "BSON_VALIDATE_DOT_KEYS = 4"
definition BSON_VALIDATE_UTF8_ALLOW_NULL :: nat where "BSON_VALIDATE_UTF8_ALLOW_NULL = 8"
definition BSON_VALIDATE_EMPTY_KEYS :: nat where "BSON_VALIDATE_EMPTY_KEYS = 16"
definition BSON_VALIDATE_CORRUPT :: nat where "BSON_VALIDATE_CORRUPT = 32"

lemmas validate_codes = BSON_VALIDATE_UTF8_def BSON_VALIDATE_DOLLAR_KEYS_def BSON_VALIDATE_DOT_KEYS_def
  BSON_VALIDATE_UTF8_ALLOW_NULL_def BSON_VALIDATE_EMPTY_KEYS_def BSON_VALIDATE_CORRUPT_def

definition BSON_VALIDATION_MAX_NESTING_DEPTH :: nat where "BSON_VALIDATION_MAX_NESTING_DEPTH = 500"

text \<open>The macros \<open>require_with_error\<close>, \<open>require\<close> and \<open>require_advance\<close>; \<open>k\<close> is what follows.\<close>

definition require_with_error :: "bool \<Rightarrow> u32 \<Rightarrow> nat \<Rightarrow> validator \<Rightarrow> verdict \<Rightarrow> verdict" where
  "require_with_error c offset code self k =
     (if \<not> c then Ret (False, self\<lparr>error_offset := ucast offset, error_code := code\<rparr>) else k)"

definition require :: "verdict \<Rightarrow> (validator \<Rightarrow> verdict) \<Rightarrow> verdict" where
  "require r k = then_do r (\<lambda>(ok, self). if \<not> ok then Ret (False, self) else k self)"

definition require_advance :: "validator \<Rightarrow> bson_iter \<Rightarrow> (bool \<Rightarrow> bson_iter \<Rightarrow> verdict) \<Rightarrow> verdict" where
  "require_advance self it k =
     then_do (bson_iter_next it) (\<lambda>(more, it).
       if \<not> more \<and> err_off it \<noteq> 0
       then require_with_error False (err_off it) BSON_VALIDATE_CORRUPT self (k True it)
       else k (\<not> more) it)"

lemma require_with_error_cong [fundef_cong]:
  "c = c' \<Longrightarrow> o1 = o2 \<Longrightarrow> e = e' \<Longrightarrow> s = s' \<Longrightarrow> (c' \<Longrightarrow> k = k') \<Longrightarrow>
     require_with_error c o1 e s k = require_with_error c' o2 e' s' k'"
  by (simp add: require_with_error_def)

section \<open>Text and keys\<close>

definition key_is :: "bson_iter \<Rightarrow> string \<Rightarrow> bool res" where
  "key_is it key = then_do (bson_iter_key it) (\<lambda>k. Ret (k = ascii key))"

definition maybe_validate_utf8 :: "validation_params \<Rightarrow> validator \<Rightarrow> u32 \<Rightarrow> byte list \<Rightarrow> verdict" where
  "maybe_validate_utf8 ps self offset u8 =
     (if allow_invalid_utf8 ps then Ret (True, self)
      else if bson_utf8_validate u8 (allow_null_in_utf8 ps) then Ret (True, self)
      else if \<not> allow_null_in_utf8 ps \<and> bson_utf8_validate u8 True
        then require_with_error False offset BSON_VALIDATE_UTF8_ALLOW_NULL self (Ret (True, self))
      else require_with_error False offset BSON_VALIDATE_UTF8 self (Ret (True, self)))"

definition validate_stringlike_element :: "validation_params \<Rightarrow> validator \<Rightarrow> bson_iter \<Rightarrow> verdict" where
  "validate_stringlike_element ps self it =
     then_do (iter_data it) (\<lambda>data. then_do (read_u32 data (unat (d1 it))) (\<lambda>l.
       then_do (read_slice data (unat (d2 it)) (unat (l - 1))) (\<lambda>u8.
         maybe_validate_utf8 ps self (off it) u8)))"

definition validate_regex_elem :: "validation_params \<Rightarrow> validator \<Rightarrow> bson_iter \<Rightarrow> verdict" where
  "validate_regex_elem ps self it =
     then_do (bson_iter_type it) (\<lambda>t. assert_that (t = 11)
       (then_do (bson_iter_regex it) (\<lambda>r. case r of
          None \<Rightarrow> Fault AssertionFailure
        | Some (rx, opts) \<Rightarrow>
            require (maybe_validate_utf8 ps self (off it) rx) (\<lambda>self.
              maybe_validate_utf8 ps self (off it) opts))))"

definition validate_element_key :: "validation_params \<Rightarrow> validator \<Rightarrow> bson_iter \<Rightarrow> verdict" where
  "validate_element_key ps self it =
     then_do (bson_iter_key it) (\<lambda>key.
     then_do (bson_iter_key_len it) (\<lambda>key_len.
     then_do (iter_data it) (\<lambda>data.
     then_do (read_slice data (unat (key_at it)) (unat key_len)) (\<lambda>u8.
     require (maybe_validate_utf8 ps self (off it) u8) (\<lambda>self.
     require_with_error (check_special_dollar_keys ps \<longrightarrow> take 1 key \<noteq> ascii ''$'')
       (off it) BSON_VALIDATE_DOLLAR_KEYS self
     (require_with_error (\<not> allow_empty_keys ps \<longrightarrow> key_len \<noteq> 0)
       (off it) BSON_VALIDATE_EMPTY_KEYS self
     (require_with_error (\<not> allow_dot_in_keys ps \<longrightarrow> 46 \<notin> set key)
       (off it) BSON_VALIDATE_DOT_KEYS self
     (Ret (True, self)))))))))"

section \<open>Values\<close>

text \<open>
  \<open>doc\<close> is the recursive call of \<open>_validate_doc\<close> with the depth it is given, for the parameters, the
  validator and the subdocument.
\<close>

type_synonym validate_doc_call = "validation_params \<Rightarrow> validator \<Rightarrow> byte list \<Rightarrow> verdict"

definition scope_params :: validation_params where
  "scope_params = \<lparr>allow_invalid_utf8 = False, allow_null_in_utf8 = True, allow_empty_keys = True,
     allow_dot_in_keys = True, check_special_dollar_keys = False\<rparr>"

definition zero_validator :: validator where
  "zero_validator = \<lparr>error_code = 0, error_offset = 0\<rparr>"

definition validate_codewscope_elem ::
  "validate_doc_call \<Rightarrow> validation_params \<Rightarrow> validator \<Rightarrow> bson_iter \<Rightarrow> verdict" where
  "validate_codewscope_elem doc ps self it =
     then_do (bson_iter_type it) (\<lambda>t. assert_that (t = 15)
       (then_do (bson_iter_codewscope it) (\<lambda>r. case r of
          None \<Rightarrow> Fault NullDeref
        | Some (u8, scope) \<Rightarrow>
            require_with_error (bson_init_static scope \<noteq> None) (off it) BSON_VALIDATE_CORRUPT self
              (require (maybe_validate_utf8 ps self (off it) u8) (\<lambda>self.
                 then_do (doc scope_params zero_validator scope) (\<lambda>(ok, v).
                   if ok then Ret (True, self)
                   else Ret (False, self\<lparr>error_code := error_code v,
                     error_offset := error_offset v + ucast (off it)\<rparr>)))))))"

definition get_subdocument :: "bson_iter \<Rightarrow> byte list option res" where
  "get_subdocument it =
     then_do (iter_data it) (\<lambda>data. then_do (read_u32 data (unat (d1 it))) (\<lambda>len.
       then_do (read_slice data (unat (d1 it)) (unat len)) (\<lambda>sub. Ret (bson_init_static sub))))"

text \<open>\<open>_validate_element_value\<close>; a type outside the switch aborts (\<open>BSON_UNREACHABLE\<close>).\<close>

definition validate_element_value ::
  "validate_doc_call \<Rightarrow> validation_params \<Rightarrow> validator \<Rightarrow> bson_iter \<Rightarrow> verdict" where
  "validate_element_value doc ps self it =
     then_do (bson_iter_type it) (\<lambda>t.
       if t \<in> {1, 10, 7, 16, 18, 255, 127, 17, 6, 19, 9, 8} then Ret (True, self)
       else if t = 5 then Ret (True, self)
       else if t \<in> {12, 14, 13, 2} then validate_stringlike_element ps self it
       else if t \<in> {3, 4} then
         then_do (get_subdocument it) (\<lambda>sub.
           require_with_error (sub \<noteq> None) (off it) BSON_VALIDATE_CORRUPT self
             (then_do (doc ps self (the sub)) (\<lambda>(ok, self).
                if ok then Ret (True, self)
                else then_do (bson_iter_key_len it) (\<lambda>key_len.
                  Ret (False, self\<lparr>error_offset := error_offset self + ucast (off it + key_len + 2)\<rparr>)))))
       else if t = 11 then validate_regex_elem ps self it
       else if t = 15 then validate_codewscope_elem doc ps self it
       else Fault AssertionFailure)"

definition validate_element :: "validate_doc_call \<Rightarrow> validation_params \<Rightarrow> validator \<Rightarrow> bson_iter \<Rightarrow> verdict" where
  "validate_element doc ps self it =
     require (validate_element_key ps self it) (\<lambda>self. validate_element_value doc ps self it)"

section \<open>Documents\<close>

text \<open>The loop over the elements, with fuel for each.\<close>

fun validate_remaining_elements ::
  "validate_doc_call \<Rightarrow> nat \<Rightarrow> validation_params \<Rightarrow> validator \<Rightarrow> bson_iter \<Rightarrow> verdict" where
  "validate_remaining_elements doc 0 ps self it = Fault Diverges"
| "validate_remaining_elements doc (Suc n) ps self it =
     require (validate_element doc ps self it) (\<lambda>self.
       require_advance self it (\<lambda>finished it.
         if finished then Ret (True, self) else validate_remaining_elements doc n ps self it))"

definition validate_dbref ::
  "validate_doc_call \<Rightarrow> nat \<Rightarrow> validation_params \<Rightarrow> validator \<Rightarrow> bson_iter \<Rightarrow> verdict" where
  "validate_dbref doc n ps self it =
     then_do (key_is it ''$ref'') (\<lambda>ref. assert_that ref
     (then_do (bson_iter_type it) (\<lambda>t.
     require_with_error (t = BSON_TYPE_UTF8) (off it) BSON_VALIDATE_DOLLAR_KEYS self
     (require (validate_element_value doc ps self it) (\<lambda>self.
     require_advance self it (\<lambda>finished it.
     then_do (if finished then Ret False else key_is it ''$id'') (\<lambda>is_id.
     require_with_error is_id (off it) BSON_VALIDATE_DOLLAR_KEYS self
     (require (validate_element_value doc ps self it) (\<lambda>self.
     require_advance self it (\<lambda>finished it.
       if finished then Ret (True, self)
       else then_do (key_is it ''$db'') (\<lambda>is_db.
         if is_db then
           then_do (bson_iter_type it) (\<lambda>t.
           require_with_error (t = BSON_TYPE_UTF8) (off it) BSON_VALIDATE_DOLLAR_KEYS self
           (require (validate_element_value doc ps self it) (\<lambda>self.
           require_advance self it (\<lambda>finished it.
             if finished then Ret (True, self) else validate_remaining_elements doc n ps self it))))
         else validate_remaining_elements doc n ps self it)))))))))))"

definition validate_dollar_doc ::
  "validate_doc_call \<Rightarrow> nat \<Rightarrow> validation_params \<Rightarrow> validator \<Rightarrow> bson_iter \<Rightarrow> verdict" where
  "validate_dollar_doc doc n ps self it =
     then_do (key_is it ''$ref'') (\<lambda>ref.
       if ref then validate_dbref doc n ps self it
       else then_do (validate_element_key ps self it) (\<lambda>(okay, self).
         assert_that (\<not> okay) (Ret (False, self))))"

function validate_doc :: "validation_params \<Rightarrow> validator \<Rightarrow> byte list \<Rightarrow> nat \<Rightarrow> verdict" where
  "validate_doc ps self bson depth =
     require_with_error (depth \<le> BSON_VALIDATION_MAX_NESTING_DEPTH) 0 BSON_VALIDATE_CORRUPT self
       (case bson_iter_init bson of (ok, it) \<Rightarrow>
          require_with_error ok 0 BSON_VALIDATE_CORRUPT self
            (require_advance self it (\<lambda>finished it.
               if finished then Ret (True, self)
               else then_do (bson_iter_key it) (\<lambda>key.
                 if check_special_dollar_keys ps \<and> take 1 key = ascii ''$''
                 then validate_dollar_doc (\<lambda>ps self sub. validate_doc ps self sub (depth + 1)) (length bson) ps self it
                 else validate_remaining_elements (\<lambda>ps self sub. validate_doc ps self sub (depth + 1)) (length bson)
                   ps self it))))"
  by pat_completeness auto
termination
  by (relation "measure (\<lambda>(ps, self, bson, depth). BSON_VALIDATION_MAX_NESTING_DEPTH + 1 - depth)") auto

declare validate_doc.simps [simp del]

text \<open>\<open>_bson_validate_impl_v2\<close> with its last check, and \<open>bson_validate\<close>.\<close>

definition params_of_flags :: "u32 \<Rightarrow> validation_params" where
  "params_of_flags flags = \<lparr>allow_invalid_utf8 = (flags AND 1 = 0), allow_null_in_utf8 = (flags AND 8 \<noteq> 0),
     allow_empty_keys = (flags AND 16 = 0), allow_dot_in_keys = (flags AND 4 = 0),
     check_special_dollar_keys = (flags AND 2 \<noteq> 0)\<rparr>"

definition bson_validate_impl_v2 :: "byte list \<Rightarrow> u32 \<Rightarrow> verdict" where
  "bson_validate_impl_v2 bson flags =
     then_do (validate_doc (params_of_flags flags) zero_validator bson 0) (\<lambda>(okay, v).
       assert_that (okay = (error_code v = 0)) (Ret (okay, v)))"

definition bson_validate :: "byte list \<Rightarrow> u32 \<Rightarrow> bool res" where
  "bson_validate bson flags = then_do (bson_validate_impl_v2 bson flags) (\<lambda>(okay, v). Ret okay)"

section \<open>Documents from a buffer\<close>

text \<open>\<open>bson_from_buffer\<close> of \<open>ge/src/bson_handler.c\<close>, which validates without flags.\<close>

definition bson_from_buffer :: "byte list \<Rightarrow> byte list option res" where
  "bson_from_buffer buf =
     (if length buf < 5 then Ret None
      else case bson_new_from_data buf of
        None \<Rightarrow> Ret None
      | Some bson \<Rightarrow> then_do (bson_validate bson 0) (\<lambda>ok. if \<not> ok then Ret None else Ret (Some bson)))"

end
