(* ===== verification/Bson_Iter_Facts.thy ===== *)
theory Bson_Iter_Facts
  imports Bson_Iter Bson_Facts
begin

text \<open>
  The iterator computes the reference: on documents of less than 2 to the 31 bytes its 32-bit
  offsets never wrap around, and every read stays inside the document.
\<close>

section \<open>Word arithmetic\<close>

named_theorems u32_simps \<open>word operations that stay in range, on natural numbers\<close>

lemma unat_add_small [u32_simps]: "unat a + unat b < 4294967296 \<Longrightarrow> unat (a + b :: u32) = unat a + unat b"
  by (simp add: unat_word_ariths)

lemma unat_sub_small [u32_simps]: "unat b \<le> unat a \<Longrightarrow> unat (a - b :: u32) = unat a - unat b"
  by (simp add: unat_sub word_le_nat_alt)

lemma unat_sub_two: "unat a + unat b \<le> unat c \<Longrightarrow> unat (c - a - b :: u32) = unat c - unat a - unat b"
proof -
  assume c: "unat a + unat b \<le> unat c"
  then have "unat (c - a) = unat c - unat a" by (intro unat_sub_small) simp
  with c show ?thesis by (subst unat_sub_small) simp_all
qed

lemma unat_small_nat [u32_simps]: "n < 4294967296 \<Longrightarrow> unat (word_of_nat n :: u32) = n"
  by (simp add: unat_of_nat)

lemmas u32_order [u32_simps] = word_le_nat_alt word_less_nat_alt

lemma u32_eq_iff [u32_simps]: "(a :: u32) = b \<longleftrightarrow> unat a = unat b"
  by (rule word_unat_eq_iff)

lemma u32_at_less: "u32_at data i < 4294967296"
  using le_value_less [of "take 4 (drop i data)"] power_increasing [of "length (take 4 (drop i data))" 4 "256 :: nat"]
  by (simp add: u32_at_def)

lemma read_u32_in: "i + 4 \<le> length data \<Longrightarrow> read_u32 data i = Ret (word_of_nat (u32_at data i))"
  by (simp add: read_u32_def)

lemma read_byte_in: "i < length data \<Longrightarrow> read_byte data i = Ret (data ! i)"
  by (simp add: read_byte_def)

text \<open>A document of the right size, its length as a word.\<close>

definition sized :: "byte list \<Rightarrow> u32 \<Rightarrow> bool" where
  "sized data len \<longleftrightarrow> unat len = length data \<and> 5 \<le> length data \<and> length data < 2147483648"

section \<open>Looking for a NUL\<close>

lemma find_nul_here: "p < length data \<Longrightarrow> data ! p = 0 \<Longrightarrow> find_nul data p = Some p"
  by (simp add: find_nul_def Cons_nth_drop_Suc [symmetric])

lemma find_nul_next: "p < length data \<Longrightarrow> data ! p \<noteq> 0 \<Longrightarrow> find_nul data p = find_nul data (p + 1)"
  by (simp add: find_nul_def Cons_nth_drop_Suc [of p data, symmetric])

lemma find_nul_end: "length data \<le> p \<Longrightarrow> find_nul data p = None"
  by (simp add: find_nul_def)

lemma find_nul_bounds: "find_nul data p = Some q \<Longrightarrow> p \<le> q \<and> q < length data"
  by (auto simp: find_nul_def Let_def split: if_splits)

lemma scan_nul_find:
  "unat len = length data \<Longrightarrow> length data < 2147483648 \<Longrightarrow> unat p \<le> length data \<Longrightarrow>
     scan_nul data len p = Ret (map_option word_of_nat (find_nul data (unat p)))"
proof (induction data len p rule: scan_nul.induct)
  case (1 data len p)
  show ?case
  proof (cases "p < len")
    case False
    then show ?thesis using 1(2) by (subst scan_nul.simps) (simp add: find_nul_end u32_simps)
  next
    case True
    then have p: "unat p < length data" using 1(2) by (simp add: u32_simps)
    have s: "unat (p + 1) = unat p + 1" using p 1(3) by (simp add: u32_simps)
    show ?thesis
    proof (cases "data ! unat p = 0")
      case z: True
      then show ?thesis using True p by (subst scan_nul.simps) (simp add: read_byte_in find_nul_here)
    next
      case nz: False
      have "scan_nul data len (p + 1) = Ret (map_option word_of_nat (find_nul data (unat (p + 1))))"
        using 1(1) [OF True read_byte_in [OF p] nz 1(2,3)] p s by simp
      then show ?thesis using True p nz s by (subst scan_nul.simps) (simp add: read_byte_in find_nul_next)
    qed
  qed
qed

section \<open>The cases of the switch\<close>

text \<open>What a case does: it fails, or ends the element where the reference does.\<close>

definition step_is :: "iter_step \<Rightarrow> bson_iter \<Rightarrow> nat option \<Rightarrow> bool" where
  "step_is s it e \<longleftrightarrow>
     (case e of
        None \<Rightarrow> (\<exists>it'. s = Ret (Inl it'))
      | Some n \<Rightarrow> (\<exists>p' it'. s = Ret (Inr (p', it')) \<and> unat (next_off it') = n \<and>
            raw it' = raw it \<and> iter_len it' = iter_len it \<and> off it' = off it \<and>
            type_at it' = type_at it \<and> key_at it' = key_at it \<and> d1 it' = d1 it))"

lemma step_is_invalid [simp]: "step_is (invalid_at e it) it0 n \<longleftrightarrow> n = None"
  by (auto simp: step_is_def invalid_at_def split: option.split)

lemma step_is_ends [simp]:
  "step_is (ends_at p e it) it0 n \<longleftrightarrow>
     (\<exists>m. n = Some m \<and> unat e = m \<and> raw it = raw it0 \<and> iter_len it = iter_len it0 \<and> off it = off it0 \<and>
        type_at it = type_at it0 \<and> key_at it = key_at it0 \<and> d1 it = d1 it0)"
  by (auto simp: step_is_def ends_at_def split: option.split)

lemma unat_u32_at [u32_simps]: "unat (word_of_nat (u32_at data i) :: u32) = u32_at data i"
  using u32_at_less [of data i] by (simp add: u32_simps)

lemma sizedD: "sized data len \<Longrightarrow> unat len = length data \<and> 5 \<le> length data \<and> length data < 2147483648"
  by (simp add: sized_def)

lemma iter_string_is:
  assumes "sized data len" and "unat p \<le> length data" and "d1 it = p"
  shows "step_is (iter_string data len p it) it
    (let l = u32_at data (unat p) in
     if unat p + 4 < length data \<and> 0 < l \<and> unat p + 4 + l < length data \<and>
        data ! (unat p + 4 + l - 1) = 0
     then Some (unat p + 4 + l) else None)"
proof -
  note n = sizedD [OF assms(1)]
  define k where "k = unat p"
  define l where "l = u32_at data k"
  have p4: "unat (p + 4) = k + 4" using assms(2) n by (simp add: u32_simps k_def)
  show ?thesis
  proof (cases "k + 4 < length data \<and> 0 < l \<and> k + 4 + l < length data")
    case False
    then show ?thesis
      using assms(3) n p4 u32_at_less [of data k] assms(2)
      by (auto simp: iter_string_def Let_def read_u32_in u32_simps k_def [symmetric] l_def [symmetric])
  next
    case True
    have "unat (p + 4 + word_of_nat l) = k + 4 + l" "unat (word_of_nat l - 1 :: u32) = l - 1"
      using True n p4 by (simp_all add: u32_simps)
    moreover have "\<not> length data - (k + 4) < l" using True by linarith
    ultimately show ?thesis
      using True assms(3) n p4
      by (simp add: iter_string_def Let_def read_u32_in read_byte_in u32_simps k_def [symmetric]
          l_def [symmetric])
  qed
qed

lemma iter_document_is:
  assumes "sized data len" and "unat p \<le> length data" and "d1 it = p"
  shows "step_is (iter_document data len p it) it
    (let l = u32_at data (unat p) in
     if unat p + 4 < length data \<and> unat p + l \<le> length data then Some (unat p + l) else None)"
proof -
  note n = sizedD [OF assms(1)]
  define k where "k = unat p"
  define l where "l = u32_at data k"
  have ul: "unat (word_of_nat l :: u32) = l" by (simp add: l_def unat_u32_at)
  have l4: "unat (len - 4) = length data - 4" "unat (len - p) = length data - k"
    using assms(2) n by (simp_all add: u32_simps k_def)
  show ?thesis
  proof (cases "k + 4 < length data \<and> k + l \<le> length data")
    case False
    then show ?thesis
      using assms(2,3) n l4 ul
      by (auto simp: iter_document_def Let_def read_u32_in u32_simps k_def [symmetric] l_def [symmetric])
  next
    case True
    have "unat (p + word_of_nat l) = k + l" using True n by (simp add: u32_simps k_def l_def)
    then show ?thesis
      using True assms(3) n l4 ul
      by (auto simp: iter_document_def Let_def read_u32_in u32_simps k_def [symmetric] l_def [symmetric])
  qed
qed

lemma iter_bool_is:
  assumes "sized data len" and "unat p \<le> length data" and "d1 it = p"
  shows "step_is (iter_bool data len p it) it
    (if unat p < length data \<and> data ! unat p \<in> {0, 1} then Some (unat p + 1) else None)"
  using assms sizedD [OF assms(1)]
  by (auto simp: iter_bool_def read_byte_in word_le_nat_alt unat_add_small)

lemma iter_dbpointer_is:
  assumes "sized data len" and "unat p \<le> length data" and "d1 it = p"
  shows "step_is (iter_dbpointer data len p it) it
    (let l = u32_at data (unat p) in
     if unat p + 4 < length data \<and> 0 < l \<and> unat p + 4 + l \<le> length data \<and>
        data ! (unat p + l + 3) = 0
     then Some (unat p + 4 + l + 12) else None)"
proof -
  note n = sizedD [OF assms(1)]
  define k where "k = unat p"
  define l where "l = u32_at data k"
  have ul: "unat (word_of_nat l :: u32) = l" by (simp add: l_def unat_u32_at)
  have l4: "unat (len - 4) = length data - 4" "unat (len - p) = length data - k"
    using assms(2) n by (simp_all add: u32_simps k_def)
  show ?thesis
  proof (cases "k + 4 < length data \<and> 0 < l \<and> k + 4 + l \<le> length data")
    case False
    have "unat (len - p - 4) = length data - k - 4" if "k + 4 < length data"
      using that l4 by (simp add: u32_simps)
    then show ?thesis
      using False assms(2,3) n l4 ul
      by (auto simp: iter_dbpointer_def Let_def read_u32_in word_le_nat_alt word_less_nat_alt
          u32_eq_iff k_def [symmetric] l_def [symmetric])
  next
    case True
    have "unat (p + 4 + word_of_nat l + 12) = k + 4 + l + 12"
      using True n l4 by (simp add: u32_simps k_def l_def)
    moreover have "unat (len - p - 4) = length data - k - 4"
      using unat_sub_two [of p 4 len] True n by (simp add: k_def)
    moreover have "\<not> length data - k - 4 < l" "\<not> length data - 4 \<le> k" using True by linarith+
    ultimately show ?thesis
      using True assms(3) n l4 ul
      by (simp add: iter_dbpointer_def Let_def read_u32_in read_byte_in word_le_nat_alt word_less_nat_alt
          u32_eq_iff unat_u32_at k_def [symmetric] l_def [symmetric])
  qed
qed

lemma iter_regex_is:
  assumes "sized data len" and "unat p \<le> length data"
  shows "step_is (iter_regex data len p it) it
    (case find_nul data (unat p) of
       None \<Rightarrow> None
     | Some q \<Rightarrow> map_option (\<lambda>r. r + 1) (find_nul data (q + 1)))"
proof -
  note n = sizedD [OF assms(1)]
  have scan: "scan_nul data len q = Ret (map_option word_of_nat (find_nul data (unat q)))"
    if "unat q \<le> length data" for q
    using scan_nul_find [of len data q] that n by simp
  show ?thesis
  proof (cases "find_nul data (unat p)")
    case None
    then show ?thesis using scan [OF assms(2)] by (simp add: iter_regex_def)
  next
    case (Some q)
    then have q: "q < length data" using find_nul_bounds by blast
    then have uq: "unat (word_of_nat q + 1 :: u32) = q + 1" using n by (simp add: u32_simps)
    then have 2: "scan_nul data len (word_of_nat q + 1) = Ret (map_option word_of_nat (find_nul data (q + 1)))"
      using scan [of "word_of_nat q + 1"] q by simp
    show ?thesis
    proof (cases "find_nul data (q + 1)")
      case None
      then show ?thesis using scan [OF assms(2)] Some 2 by (simp add: iter_regex_def Let_def)
    next
      case (Some r)
      then have "r < length data" using find_nul_bounds by blast
      then have "unat (word_of_nat r + 1 :: u32) = r + 1" using n by (simp add: u32_simps)
      then show ?thesis
        using scan [OF assms(2)] \<open>find_nul data (unat p) = Some q\<close> 2 Some by (simp add: iter_regex_def Let_def)
    qed
  qed
qed

lemma binary_length: "v < 4294967296 \<Longrightarrow> l < 2147483648 \<Longrightarrow> sint (word_of_nat v :: u32) = int l \<longleftrightarrow> v = l"
proof -
  assume v: "v < 4294967296" "l < 2147483648"
  have s: "sint (word_of_nat l :: u32) = int l" using sint_of_small [of l] v(2) by simp
  have "sint (word_of_nat v :: u32) = int l \<longleftrightarrow> (word_of_nat v :: u32) = word_of_nat l"
    by (metis s signed_word_eqI)
  also have "\<dots> \<longleftrightarrow> v = l" using v by (simp add: u32_simps)
  finally show ?thesis .
qed

lemma iter_binary_is:
  assumes "sized data len" and "unat p \<le> length data" and "d1 it = p"
  shows "step_is (iter_binary data len p it) it
    (let l = u32_at data (unat p) in
     if unat p + 4 < length data \<and> unat p + 4 + l < length data \<and>
        (data ! (unat p + 4) = 2 \<longrightarrow> 4 \<le> l \<and> u32_at data (unat p + 5) = l - 4)
     then Some (unat p + 5 + l) else None)"
proof -
  note n = sizedD [OF assms(1)]
  define k where "k = unat p"
  define l where "l = u32_at data k"
  define v where "v = u32_at data (k + 5)"
  have ul: "unat (word_of_nat l :: u32) = l" by (simp add: l_def unat_u32_at)
  have l4: "unat (len - 4) = length data - 4" using n by (simp add: u32_simps)
  show ?thesis
  proof (cases "k + 4 < length data \<and> k + 4 + l < length data")
    case False
    have "unat (len - p - 4) = length data - k - 4" if "k + 4 < length data"
      using that n by (simp add: u32_simps k_def)
    then show ?thesis
      using False assms(2,3) n l4 ul
      by (auto simp: iter_binary_def Let_def read_u32_in word_le_nat_alt word_less_nat_alt
          k_def [symmetric] l_def [symmetric])
  next
    case True
    have u: "unat (p + 4) = k + 4" "unat (p + 5) = k + 5" "unat (p + 5 + word_of_nat l) = k + 5 + l"
      using True n by (simp_all add: u32_simps k_def l_def)
    have u4: "unat (len - p - 4) = length data - k - 4"
      using unat_sub_two [of p 4 len] True n by (simp add: k_def)
    have c: "\<not> length data - k - 4 \<le> l" using True by linarith
    show ?thesis
    proof (cases "data ! (k + 4) = 2 \<and> 4 \<le> l")
      case False
      then show ?thesis
        using True assms(3) n l4 ul u u4 c
        by (auto simp: iter_binary_def Let_def read_u32_in read_byte_in word_le_nat_alt word_less_nat_alt
            k_def [symmetric] l_def [symmetric])
    next
      case sub: True
      have "uint (word_of_nat l - 4 :: u32) = int (l - 4)"
        using sub ul by (simp add: uint_nat u32_simps)
      moreover have "sint (word_of_nat v :: u32) = int (l - 4) \<longleftrightarrow> v = l - 4"
        by (rule binary_length) (use u32_at_less [of data "k + 5"] True n in \<open>unfold v_def, linarith+\<close>)
      ultimately show ?thesis
        using True sub assms(3) n l4 ul u u4 c
        by (auto simp: iter_binary_def Let_def read_u32_in read_byte_in word_le_nat_alt word_less_nat_alt
            k_def [symmetric] l_def [symmetric] v_def [symmetric])
    qed
  qed
qed

lemma iter_codewscope_is:
  assumes "sized data len" and "unat p \<le> length data" and "d1 it = p"
  shows "step_is (iter_codewscope data len p it) it
    (let l = u32_at data (unat p); l2 = u32_at data (unat p + 4) in
     if 19 \<le> length data \<and> unat p + 14 < length data \<and> 14 \<le> l \<and> unat p + l < length data \<and> 0 < l2 \<and>
        12 + l2 < l \<and> 8 + l2 + u32_at data (unat p + 8 + l2) = l
     then Some (unat p + l) else None)"
proof -
  note n = sizedD [OF assms(1)]
  define k where "k = unat p"
  define l where "l = u32_at data k"
  define l2 where "l2 = u32_at data (k + 4)"
  define v where "v = u32_at data (k + 8 + l2)"
  have ul: "unat (word_of_nat l :: u32) = l" "unat (word_of_nat l2 :: u32) = l2"
      "unat (word_of_nat v :: u32) = v"
    by (simp_all add: l_def l2_def v_def unat_u32_at)
  have v: "v < 4294967296" unfolding v_def by (rule u32_at_less)
  note defs = k_def [symmetric] l_def [symmetric] l2_def [symmetric]
  show ?thesis
  proof (cases "19 \<le> length data \<and> k + 14 < length data")
    case False
    have "unat (len - 14) = length data - 14" if "19 \<le> length data" using that n by (simp add: u32_simps)
    then show ?thesis using False n
      by (auto simp: iter_codewscope_def Let_def word_le_nat_alt word_less_nat_alt defs)
  next
    case 1: True
    have u: "unat (len - 14) = length data - 14" "unat (len - p) = length data - k" "unat (p + 4) = k + 4"
        "unat (p + 8) = k + 8"
      using 1 n by (simp_all add: u32_simps k_def)
    have u8: "unat (len - p - 8) = length data - k - 8"
      using unat_sub_two [of p 8 len] 1 n by (simp add: k_def)
    show ?thesis
    proof (cases "14 \<le> l \<and> k + l < length data")
      case False
      then have "l < 14 \<or> length data - k \<le> l" by linarith
      then show ?thesis using False 1 assms(3) n u ul
        by (auto simp: iter_codewscope_def Let_def read_u32_in word_le_nat_alt word_less_nat_alt defs)
    next
      case 2: True
      have ue: "unat (p + word_of_nat l) = k + l" using 2 n ul by (simp add: u32_simps k_def)
      have c: "\<not> length data - k \<le> l" using 2 by linarith
      show ?thesis
      proof (cases "0 < l2 \<and> 12 + l2 < l")
        case False
        have "unat (p + 4 + 4 + word_of_nat l2 + 4) = k + 12 + l2" if "l2 < length data - k - 8"
        proof -
          have "k + 8 + l2 < length data" using that by linarith
          then show ?thesis using n ul by (simp add: u32_simps k_def)
        qed
        then show ?thesis using False 1 2 assms(3) n u u8 ue ul c
          by (auto simp: iter_codewscope_def Let_def read_u32_in word_le_nat_alt word_less_nat_alt
              u32_eq_iff defs)
      next
        case 3: True
        have ux: "unat (p + 4 + 4 + word_of_nat l2 + 4) = k + 12 + l2"
            "unat (p + 4 + 4 + word_of_nat l2) = k + 8 + l2"
          using 2 3 n ul by (simp_all add: u32_simps k_def)
        have c3: "\<not> length data - k - 8 \<le> l2" "l2 \<noteq> 0" "\<not> k + l \<le> k + 12 + l2" "k + 8 + l2 + 4 \<le> length data"
            "\<not> length data - 14 \<le> k"
          using 1 2 3 by linarith+
        have "p + 4 + 4 + word_of_nat l2 + word_of_nat v = p + word_of_nat l \<longleftrightarrow> 8 + l2 + v = l"
        proof -
          have "(k + 8 + l2 + v) mod 4294967296 = k + l \<longleftrightarrow> k + 8 + l2 + v = k + l"
          proof (cases "k + 8 + l2 + v < 4294967296")
            case False
            moreover have "k + 8 + l2 + v - 4294967296 < 4294967296" using 2 3 n v by linarith
            ultimately have "(k + 8 + l2 + v) mod 4294967296 = k + 8 + l2 + v - 4294967296"
              by (simp only: le_mod_geq mod_less not_less)
            moreover have "k + 8 + l2 + v \<noteq> k + l" using 2 n False by linarith
            moreover have "k + 8 + l2 + v - 4294967296 \<noteq> k + l" using v 3 False by linarith
            ultimately show ?thesis by (simp only: simp_thms)
          qed simp
          moreover have "unat (p + 4 + 4 + word_of_nat l2 + word_of_nat v) = (k + 8 + l2 + v) mod 4294967296"
            by (simp only: unat_word_ariths(1) [of "p + 4 + 4 + word_of_nat l2" "word_of_nat v"] ux(2) ul) simp
          ultimately show ?thesis unfolding u32_eq_iff ue by (simp add: ac_simps)
        qed
        then show ?thesis using 1 2 3 assms(3) n u u8 ue ul c c3 ux
          by (simp add: iter_codewscope_def Let_def read_u32_in word_le_nat_alt word_less_nat_alt
              u32_eq_iff [of _ 0] defs v_def [symmetric])
      qed
    qed
  qed
qed

section \<open>The switch and the whole step\<close>

lemma iter_switch_is:
  assumes "sized data len" and "unat p \<le> length data" and "d1 it = p"
  shows "step_is (fst (iter_switch data len t p it)) it (value_end data t (unat p))"
proof -
  note n = sizedD [OF assms(1)]
  have u: "unat (p + 8) = unat p + 8" "unat (p + 12) = unat p + 12" "unat (p + 4) = unat p + 4"
      "unat (p + 16) = unat p + 16"
    using assms(2) n by (simp_all add: u32_simps)
  consider "t \<in> {9, 1, 18, 17}" | "t \<in> {13, 14, 2}" | "t = 5" | "t \<in> {4, 3}" | "t = 7" | "t = 8" | "t = 11"
    | "t = 12" | "t = 15" | "t = 16" | "t = 19" | "t \<in> {127, 255, 10, 6}"
    | "t \<notin> {9, 1, 18, 17, 13, 14, 2, 5, 4, 3, 7, 8, 11, 12, 15, 16, 19, 127, 255, 10, 6}"
    by blast
  then show ?thesis
  proof cases
    case 1
    then show ?thesis using u by (simp add: iter_switch_def value_end_def)
  next
    case 2
    then show ?thesis using iter_string_is [OF assms]
      by (auto simp: iter_switch_def value_end_def Let_def)
  next
    case 3
    then show ?thesis using iter_binary_is [OF assms]
      by (simp add: iter_switch_def value_end_def Let_def)
  next
    case 4
    then show ?thesis using iter_document_is [OF assms]
      by (auto simp: iter_switch_def value_end_def Let_def)
  next
    case 6
    then show ?thesis using iter_bool_is [OF assms]
      by (simp add: iter_switch_def value_end_def Let_def)
  next
    case 7
    then show ?thesis using iter_regex_is [OF assms(1,2), of it]
      by (simp add: iter_switch_def value_end_def Let_def)
  next
    case 8
    then show ?thesis using iter_dbpointer_is [OF assms]
      by (simp add: iter_switch_def value_end_def Let_def)
  next
    case 9
    then show ?thesis using iter_codewscope_is [OF assms]
      by (simp add: iter_switch_def value_end_def Let_def)
  next
    case 5
    then show ?thesis using u by (simp add: iter_switch_def value_end_def Let_def)
  next
    case 10
    then show ?thesis using u by (simp add: iter_switch_def value_end_def Let_def)
  next
    case 11
    then show ?thesis using u by (simp add: iter_switch_def value_end_def Let_def)
  next
    case 12
    then show ?thesis
      by (elim insertE emptyE) (simp_all add: iter_switch_def value_end_def Let_def)
  next
    case 13
    then show ?thesis by (simp add: iter_switch_def value_end_def Let_def)
  qed
qed

lemma value_end_after: "value_end data t p = Some e \<Longrightarrow> p \<le> e"
  by (auto simp: value_end_def Let_def split: if_splits option.splits dest!: find_nul_bounds)

lemma element_at_after:
  "element_at data n = Some (v, e) \<Longrightarrow> n + 1 < v \<and> v \<le> e \<and> e < length data"
  by (auto simp: element_at_def split: option.splits if_splits dest!: find_nul_bounds value_end_after)

text \<open>An iterator over \<open>data\<close> that is not exhausted.\<close>

definition iter_on :: "byte list \<Rightarrow> bson_iter \<Rightarrow> bool" where
  "iter_on data it \<longleftrightarrow> raw it = Some data \<and> sized data (iter_len it) \<and> unat (next_off it) < length data"

lemma bson_iter_next_is_element_at:
  assumes "iter_on data it"
  shows "\<exists>ok key unsup it'. bson_iter_next_internal 0 it = Ret (ok, key, unsup, it') \<and>
    (case element_at data (unat (next_off it)) of
       None \<Rightarrow> \<not> ok \<and> raw it' = None
     | Some (v, e) \<Rightarrow> ok \<and> iter_on data it' \<and> unat (d1 it') = v \<and> unat (next_off it') = e \<and>
         off it' = next_off it \<and> type_at it' = next_off it \<and> key_at it' = next_off it + 1 \<and>
         key = Some (next_off it + 1, data ! unat (next_off it)))"
proof -
  define len where "len = iter_len it"
  define n where "n = next_off it"
  have r: "raw it = Some data" and sz: "sized data len" and nl: "unat n < length data"
    using assms by (simp_all add: iter_on_def len_def n_def)
  note b = sizedD [OF sz]
  have n1: "unat (n + 1) = unat n + 1" using nl b by (simp add: u32_simps)
  have scan: "scan_nul data len (n + 1) = Ret (map_option word_of_nat (find_nul data (unat n + 1)))"
    using scan_nul_find [of len data "n + 1"] b n1 nl by simp
  define it1 where "it1 = it\<lparr>off := n, type_at := n, key_at := n + 1, d1 := 0, d2 := 0, d3 := 0, d4 := 0\<rparr>"
  note unf = bson_iter_next_internal_def r option.simps Let_def len_def [symmetric] n_def [symmetric]
    it1_def [symmetric]
  have k1: "key_at it1 = n + 1" "type_at it1 = n" by (simp_all add: it1_def)
  show ?thesis
  proof (cases "find_nul data (unat n + 1)")
    case None
    then show ?thesis
      unfolding unf by (simp add: k1 scan mark_invalid_def element_at_def) blast
  next
    case (Some z)
    then have z: "z < length data" using find_nul_bounds by blast
    define p :: u32 where "p = word_of_nat z + 1"
    have p: "unat p = z + 1" using z b by (simp add: p_def u32_simps)
    define it2 where "it2 = it1\<lparr>d1 := p\<rparr>"
    have k2: "d1 it2 = p" "key_at it2 = n + 1" "type_at it2 = n" "raw it2 = Some data" "iter_len it2 = len"
        "off it2 = n"
      by (simp_all add: it2_def it1_def r len_def)
    obtain step un where sw: "iter_switch data len (data ! unat n) p it2 = (step, un)" by force
    have step: "step_is step it2 (value_end data (data ! unat n) (z + 1))"
      using iter_switch_is [OF sz _ k2(1), of "data ! unat n"] p z sw by simp
    have run: "bson_iter_next_internal 0 it =
        then_do step (\<lambda>r. case r of
            Inl it \<Rightarrow> Ret (False, Some (key_at it, data ! unat n), un, mark_invalid it)
          | Inr (p, it) \<Rightarrow>
              if len \<le> next_off it
              then Ret (False, Some (key_at it, data ! unat n), un, mark_invalid (it\<lparr>err_off := p\<rparr>))
              else Ret (True, Some (key_at it, data ! unat n), un, it\<lparr>err_off := 0\<rparr>))"
      unfolding unf using Some by (simp add: k1 scan p_def [symmetric] it2_def [symmetric] read_byte_in nl sw k2)
    show ?thesis
    proof (cases "value_end data (data ! unat n) (z + 1)")
      case None
      then obtain it' where "step = Ret (Inl it')" using step by (auto simp: step_is_def)
      then show ?thesis using None Some
        by (simp add: run element_at_def mark_invalid_def n_def) blast
    next
      case e: (Some e)
      then obtain p' it' where s: "step = Ret (Inr (p', it'))" "unat (next_off it') = e" "raw it' = Some data"
          "iter_len it' = len" "off it' = n" "type_at it' = n" "key_at it' = n + 1" "d1 it' = p"
        using step k2 by (auto simp: step_is_def)
      show ?thesis
      proof (cases "e < length data")
        case True
        then have "\<not> len \<le> next_off it'" using s(2) b by (simp add: u32_simps)
        then show ?thesis using True s e Some sz p
          by (simp add: run element_at_def iter_on_def n_def [symmetric]) blast
      next
        case False
        then have "len \<le> next_off it'" using s(2) b by (simp add: u32_simps)
        then show ?thesis using False s e Some
          by (simp add: run element_at_def mark_invalid_def n_def [symmetric]) blast
      qed
    qed
  qed
qed

end
