(* ===== verification/Bson_Iter_Props.thy ===== *)
theory Bson_Iter_Props
  imports Bson_Iter_Facts
begin

text \<open>
  The properties of the BSON iterator: a whole pass over a document is the pass of the reference.
\<close>

text \<open>
  The loop \<open>while (bson_iter_next (&iter))\<close>, with the offset of the element, of its key and of its value,
  and the same on natural numbers by \<open>element_at\<close>.
\<close>

fun iterate :: "nat \<Rightarrow> bson_iter \<Rightarrow> (nat \<times> nat \<times> nat) list res" where
  "iterate 0 it = Fault Diverges"
| "iterate (Suc n) it =
     then_do (bson_iter_next it) (\<lambda>(more, it).
       if more
       then then_do (iterate n it) (\<lambda>es. Ret ((unat (type_at it), unat (key_at it), unat (d1 it)) # es))
       else Ret [])"

function elements_from :: "byte list \<Rightarrow> nat \<Rightarrow> (nat \<times> nat \<times> nat) list" where
  "elements_from data n =
     (case element_at data n of None \<Rightarrow> [] | Some (v, e) \<Rightarrow> (n, n + 1, v) # elements_from data e)"
  by pat_completeness auto
termination
  by (relation "measure (\<lambda>(data, n). length data - n)") (auto dest!: element_at_after)

declare elements_from.simps [simp del]

lemma iterate_from:
  assumes "iter_on data it" and "length data - unat (next_off it) \<le> n"
  shows "iterate n it = Ret (elements_from data (unat (next_off it)))"
  using assms
proof (induction n arbitrary: it)
  case 0
  then show ?case by (simp add: iter_on_def)
next
  case (Suc n)
  obtain ok key unsup it' where r: "bson_iter_next_internal 0 it = Ret (ok, key, unsup, it')"
    and c: "case element_at data (unat (next_off it)) of
       None \<Rightarrow> \<not> ok \<and> raw it' = None
     | Some (v, e) \<Rightarrow> ok \<and> iter_on data it' \<and> unat (d1 it') = v \<and> unat (next_off it') = e \<and>
         off it' = next_off it \<and> type_at it' = next_off it \<and> key_at it' = next_off it + 1 \<and>
         key = Some (next_off it + 1, data ! unat (next_off it))"
    using bson_iter_next_is_element_at [OF Suc.prems(1)] by blast
  show ?case
  proof (cases "element_at data (unat (next_off it))")
    case None
    then show ?thesis using r c by (simp add: bson_iter_next_def elements_from.simps [of data "unat (next_off it)"])
  next
    case (Some ve)
    obtain v e where ve: "ve = (v, e)" by (cases ve)
    have i: "iter_on data it'" "unat (next_off it') = e" "unat (d1 it') = v" "ok"
        "type_at it' = next_off it" "key_at it' = next_off it + 1"
      using c Some ve by simp_all
    have e: "unat (next_off it) + 1 < v" "v \<le> e" "e < length data" using element_at_after Some ve by blast+
    then have "iterate n it' = Ret (elements_from data e)"
      using Suc.IH [OF i(1)] Suc.prems(2) i(2) by simp
    moreover have "unat (next_off it + 1) = unat (next_off it) + 1"
      using Suc.prems(1) by (simp add: iter_on_def sized_def u32_simps)
    ultimately show ?thesis
      using r i Some ve by (simp add: bson_iter_next_def elements_from.simps [of data "unat (next_off it)"])
  qed
qed

text \<open>
  C5. Iterating over any bytes of at least five and less than 2 to the 31: \<open>bson_iter_next\<close> never reads
  outside them, whatever their lengths and types say; the loop ends after at most as many steps as
  there are bytes; and it visits exactly the elements of the reference, in whose arithmetic
  nothing wraps around.
\<close>

theorem iterator_is_reference:
  assumes "5 \<le> length data" and "length data < 2147483648"
  shows "fst (bson_iter_init data) \<and>
    iterate (length data) (snd (bson_iter_init data)) = Ret (elements_from data 4)"
proof -
  have "unat (word_of_nat (length data) :: u32) = length data" using assms(2) by (simp add: u32_simps)
  then have "iter_on data (snd (bson_iter_init data))" "next_off (snd (bson_iter_init data)) = 4"
    using assms by (simp_all add: bson_iter_init_def iter_on_def sized_def)
  then show ?thesis
    using iterate_from [of data "snd (bson_iter_init data)" "length data"] assms
    by (simp add: bson_iter_init_def)
qed

text \<open>A document with an int32, and one whose string claims more bytes than there are.\<close>

definition int_document :: "byte list" where
  "int_document = [12, 0, 0, 0, 16, 97, 0, 7, 0, 0, 0, 0]"

definition broken_document :: "byte list" where
  "broken_document = [12, 0, 0, 0, 2, 97, 0, 255, 255, 255, 255, 0]"

theorem iterator_is_reference_witness:
  "iterate 12 (snd (bson_iter_init int_document)) = Ret [(4, 5, 7)] \<and>
   iterate 12 (snd (bson_iter_init broken_document)) = Ret []"
proof -
  have n: "length int_document = 12" "length broken_document = 12"
    by (simp_all add: int_document_def broken_document_def)
  have "elements_from int_document 4 = [(4, 5, 7)]" "elements_from broken_document 4 = []"
    by (simp_all add: int_document_def broken_document_def elements_from.simps element_at_def
        find_nul_def value_end_def u32_at_def Let_def)
  then show ?thesis
    using iterator_is_reference [of int_document, unfolded n]
      iterator_is_reference [of broken_document, unfolded n]
    by (simp del: iterate.simps)
qed

end
