(* ===== verification/Config_Facts.thy ===== *)
theory Config_Facts
  imports Config Bson_Iter_Props
begin

text \<open>
  What the configuration code makes of a well-formed document: the abstract documents a JSON
  configuration has, their bytes, the Lua values they stand for and the stack slots they need.
\<close>

section \<open>Abstract documents\<close>

datatype bval =
    BDouble u64
  | BUtf8 "byte list"
  | BDoc "(byte list \<times> bval) list"
  | BArr "(byte list \<times> bval) list"
  | BBool bool
  | BNull
  | BInt32 u32
  | BInt64 u64

fun btype :: "bval \<Rightarrow> byte" where
  "btype (BDouble d) = BSON_TYPE_DOUBLE"
| "btype (BUtf8 s) = BSON_TYPE_UTF8"
| "btype (BDoc fs) = BSON_TYPE_DOCUMENT"
| "btype (BArr fs) = BSON_TYPE_ARRAY"
| "btype (BBool b) = BSON_TYPE_BOOL"
| "btype BNull = BSON_TYPE_NULL"
| "btype (BInt32 i) = BSON_TYPE_INT32"
| "btype (BInt64 i) = BSON_TYPE_INT64"

fun bbytes :: "bval \<Rightarrow> byte list" and bfields :: "(byte list \<times> bval) list \<Rightarrow> byte list" where
  "bbytes (BDouble d) = le64 d"
| "bbytes (BUtf8 s) = le_bytes (word_of_nat (length s + 1)) @ s @ [0]"
| "bbytes (BDoc fs) = document (bfields fs)"
| "bbytes (BArr fs) = document (bfields fs)"
| "bbytes (BBool b) = [if b then 1 else 0]"
| "bbytes BNull = []"
| "bbytes (BInt32 i) = le_bytes i"
| "bbytes (BInt64 i) = le64 i"
| "bfields [] = []"
| "bfields ((k, v) # fs) = btype v # k @ 0 # bbytes v @ bfields fs"

fun bvalue :: "bval \<Rightarrow> bson_value" where
  "bvalue (BDouble d) = VDouble d"
| "bvalue (BUtf8 s) = VUtf8 s"
| "bvalue (BDoc fs) = VDocument (document (bfields fs))"
| "bvalue (BArr fs) = VArray (document (bfields fs))"
| "bvalue (BBool b) = VBool b"
| "bvalue BNull = VOther"
| "bvalue (BInt32 i) = VInt32 i"
| "bvalue (BInt64 i) = VInt64 i"

text \<open>The Lua value of a document: fields are set one after the other, array items from index 1.\<close>

fun lua_of :: "bval \<Rightarrow> lua_val" and
  set_fields :: "(lua_val \<times> lua_val) list \<Rightarrow> (byte list \<times> bval) list \<Rightarrow> (lua_val \<times> lua_val) list" and
  set_items :: "u64 \<Rightarrow> (lua_val \<times> lua_val) list \<Rightarrow> (byte list \<times> bval) list \<Rightarrow> (lua_val \<times> lua_val) list" where
  "lua_of (BDouble d) = LNum d"
| "lua_of (BUtf8 s) = LStr s"
| "lua_of (BDoc fs) = LTab (set_fields [] fs)"
| "lua_of (BArr fs) = LTab (set_items 1 [] fs)"
| "lua_of (BBool b) = LBool b"
| "lua_of BNull = LNil"
| "lua_of (BInt32 i) = LInt (scast i)"
| "lua_of (BInt64 i) = LInt i"
| "set_fields es [] = es"
| "set_fields es ((k, v) # fs) = set_fields (table_set es (LStr k) (lua_of v)) fs"
| "set_items i es [] = es"
| "set_items i es ((k, v) # fs) = set_items (i + 1) (table_set es (LInt i) (lua_of v)) fs"

text \<open>Stack slots a value needs, its nesting, and that no key contains a NUL.\<close>

fun bslots :: "bval \<Rightarrow> nat" and
  fields_slots :: "(byte list \<times> bval) list \<Rightarrow> nat" and
  items_slots :: "(byte list \<times> bval) list \<Rightarrow> nat" where
  "bslots (BDoc fs) = 1 + fields_slots fs"
| "bslots (BArr fs) = 1 + items_slots fs"
| "bslots v = 1"
| "fields_slots [] = 0"
| "fields_slots ((k, v) # fs) = max (1 + bslots v) (fields_slots fs)"
| "items_slots [] = 0"
| "items_slots ((k, v) # fs) = max (bslots v) (items_slots fs)"

fun bdepth :: "bval \<Rightarrow> nat" and fields_depth :: "(byte list \<times> bval) list \<Rightarrow> nat" where
  "bdepth (BDoc fs) = 1 + fields_depth fs"
| "bdepth (BArr fs) = 1 + fields_depth fs"
| "bdepth v = 1"
| "fields_depth [] = 0"
| "fields_depth ((k, v) # fs) = max (bdepth v) (fields_depth fs)"

fun keys_ok :: "bval \<Rightarrow> bool" and fields_ok :: "(byte list \<times> bval) list \<Rightarrow> bool" where
  "keys_ok (BDoc fs) = fields_ok fs"
| "keys_ok (BArr fs) = fields_ok fs"
| "keys_ok v = True"
| "fields_ok [] = True"
| "fields_ok ((k, v) # fs) = (0 \<notin> set k \<and> keys_ok v \<and> fields_ok fs)"

section \<open>An element in a document\<close>

lemma u32_at_bytes [simp]: "u32_at (pre @ le_bytes w @ rest) (length pre) = unat w"
  by (simp add: u32_at_def le_value_le_bytes)

lemma find_nul_bytes: "0 \<notin> set k \<Longrightarrow> find_nul (pre @ k @ 0 # rest) (length pre) = Some (length pre + length k)"
proof -
  assume "0 \<notin> set k"
  then have "takeWhile (\<lambda>b. b \<noteq> 0) (k @ 0 # rest) = k"
    by (subst takeWhile_append2) auto
  then show ?thesis by (simp add: find_nul_def)
qed

lemma length_le64 [simp]: "length (le64 x) = 8"
  by (simp add: le64_def)

lemma value_end_bytes:
  assumes "length (pre @ bbytes v @ rest) \<le> BSON_MAX_SIZE" and "rest \<noteq> []"
  shows "value_end (pre @ bbytes v @ rest) (btype v) (length pre) = Some (length pre + length (bbytes v))"
proof (cases v)
  case (BUtf8 s)
  define w :: u32 where "w = word_of_nat (length s + 1)"
  have w: "unat w = length s + 1" using assms(1) BUtf8
    by (simp add: w_def unat_of_nat BSON_MAX_SIZE_def del: of_nat_add of_nat_Suc)
  have b: "bbytes (BUtf8 s) = le_bytes w @ s @ [0]" by (simp add: w_def)
  let ?data = "pre @ le_bytes w @ s @ 0 # rest"
  have "?data ! (length pre + 4 + (length s + 1) - 1) = 0" by (simp add: nth_append)
  moreover have "value_end ?data 2 (length pre) =
      (let l = length s + 1 in
       if length pre + 4 < length ?data \<and> 0 < l \<and> length pre + 4 + l < length ?data \<and>
          ?data ! (length pre + 4 + l - 1) = 0
       then Some (length pre + 4 + l) else None)"
    by (simp add: value_end_def w)
  ultimately have "value_end ?data 2 (length pre) = Some (length pre + 4 + (length s + 1))"
    using assms(2) by simp
  then show ?thesis using BUtf8 by (simp add: b bson_types del: bbytes.simps)
next
  case (BDoc fs)
  then show ?thesis using assms
    by (simp add: value_end_def bson_types Let_def document_def unat_of_nat BSON_MAX_SIZE_def del: of_nat_add)
next
  case (BArr fs)
  then show ?thesis using assms
    by (simp add: value_end_def bson_types Let_def document_def unat_of_nat BSON_MAX_SIZE_def del: of_nat_add)
next
  case (BBool b)
  then show ?thesis using assms by (simp add: value_end_def bson_types Let_def nth_append)
qed (use assms in \<open>simp_all add: value_end_def bson_types Let_def\<close>)

lemma element_at_bytes:
  assumes "length (pre @ btype v # k @ 0 # bbytes v @ rest) \<le> BSON_MAX_SIZE" and "rest \<noteq> []" and "0 \<notin> set k"
  shows "element_at (pre @ btype v # k @ 0 # bbytes v @ rest) (length pre) =
    Some (length pre + length k + 2, length pre + length k + 2 + length (bbytes v))"
proof -
  have "find_nul (pre @ btype v # k @ 0 # bbytes v @ rest) (length pre + 1) = Some (length pre + 1 + length k)"
    using find_nul_bytes [OF assms(3), of "pre @ [btype v]"] by simp
  moreover have "value_end (pre @ btype v # k @ 0 # bbytes v @ rest) (btype v) (length pre + length k + 2) =
      Some (length pre + length k + 2 + length (bbytes v))"
    using value_end_bytes [of "pre @ btype v # k @ [0]" v rest] assms(1,2) by simp
  ultimately show ?thesis using assms(2) by (simp add: element_at_def nth_append)
qed

lemma element_at_last: "element_at (pre @ [0]) (length pre) = None"
  by (simp add: element_at_def find_nul_end)

text \<open>The accessors at such an element.\<close>

definition at_element :: "byte list \<Rightarrow> nat \<Rightarrow> nat \<Rightarrow> bson_iter \<Rightarrow> bool" where
  "at_element data n v it \<longleftrightarrow>
     raw it = Some data \<and> iter_len it \<noteq> 0 \<and> unat (type_at it) = n \<and> unat (key_at it) = n + 1 \<and> unat (d1 it) = v \<and>
     (data ! n = BSON_TYPE_UTF8 \<longrightarrow> unat (d2 it) = v + 4)"

lemma le_value_digits: "le_value (map (\<lambda>k. word_of_nat (v div 256 ^ k)) [0..<n]) = v mod 256 ^ n"
proof (induction n arbitrary: v)
  case (Suc n)
  have "map (\<lambda>k. word_of_nat (v div 256 ^ k) :: byte) [0..<Suc n] =
      word_of_nat v # map (\<lambda>k. word_of_nat (v div 256 div 256 ^ k)) [0..<n]"
    by (simp add: upt_conv_Cons map_Suc_upt [symmetric] div_mult2_eq del: upt_Suc)
  then show ?case
    using Suc [of "v div 256"] by (simp only: le_value.simps) (simp add: unat_of_nat mod_mult2_eq)
qed simp

lemma le64_value: "word_of_nat (le_value (le64 x)) = x"
proof -
  have "[0, 1, 2, 3, 4, 5, 6, 7] = [0..<8 :: nat]" by (simp add: upt_rec)
  then have "le64 x = map (\<lambda>k. word_of_nat (unat x div 256 ^ k)) [0..<8]"
    by (simp add: le64_def power_mult)
  then have "le_value (le64 x) = unat x mod 256 ^ 8" by (simp only: le_value_digits)
  moreover have "unat x < 2 ^ LENGTH(64)" by (rule unsigned_less)
  ultimately show ?thesis by simp
qed

text \<open>The iterator remembers where a string starts.\<close>

lemma iter_string_d2:
  "iter_string data len p it = Ret (Inr (p', it')) \<Longrightarrow> d2 it' = p + 4 \<and> d1 it' = d1 it"
  by (auto simp: iter_string_def invalid_at_def ends_at_def Let_def then_do_eq_Ret_iff split: if_splits)

lemma next_internal_d2:
  assumes "bson_iter_next_internal 0 it = Ret (True, key, un, it')" and "raw it = Some data"
    and "data ! unat (next_off it) = BSON_TYPE_UTF8"
  shows "d2 it' = d1 it' + 4"
  using assms
  by (auto simp: bson_iter_next_internal_def Let_def read_byte_def iter_switch_def bson_types
      elim!: then_do_RetE split: if_splits option.splits sum.splits dest!: iter_string_d2)

text \<open>One step of the iterator over a document of fields.\<close>

lemma next_field:
  assumes "iter_on data it" and "data = pre @ btype v # k @ 0 # bbytes v @ rest" and "rest \<noteq> []"
    and "0 \<notin> set k" and "unat (next_off it) = length pre"
  shows "\<exists>it'. bson_iter_next it = Ret (True, it') \<and> iter_on data it' \<and>
    at_element data (length pre) (length pre + length k + 2) it' \<and>
    unat (next_off it') = length pre + length k + 2 + length (bbytes v)"
proof -
  have sz: "length data \<le> BSON_MAX_SIZE" using assms(1) by (simp add: iter_on_def sized_def BSON_MAX_SIZE_def)
  then have e: "element_at data (unat (next_off it)) =
      Some (length pre + length k + 2, length pre + length k + 2 + length (bbytes v))"
    using element_at_bytes [of pre v k rest] assms(2-5) by simp
  obtain ok key un it' where r: "bson_iter_next_internal 0 it = Ret (ok, key, un, it')"
    and c: "ok" "iter_on data it'" "unat (d1 it') = length pre + length k + 2"
      "unat (next_off it') = length pre + length k + 2 + length (bbytes v)" "type_at it' = next_off it"
      "key_at it' = next_off it + 1"
    using bson_iter_next_is_element_at [OF assms(1)] e by auto
  have len: "length pre + length k + 6 < 4294967296"
    using sz assms(2) by (simp add: BSON_MAX_SIZE_def)
  have "unat (d2 it') = length pre + length k + 6" if t: "data ! length pre = BSON_TYPE_UTF8"
    using next_internal_d2 [of it key un it' data] r c(1,3) assms(1,5) t len by (simp add: iter_on_def unat_add_small)
  moreover have "unat (next_off it + 1) = length pre + 1" using assms(5) len by (simp add: unat_add_small)
  moreover have "raw it' = Some data" "iter_len it' \<noteq> 0" using c(2) by (auto simp: iter_on_def sized_def)
  ultimately have "at_element data (length pre) (length pre + length k + 2) it'"
    using c assms(5) by (simp add: at_element_def add.commute)
  then show ?thesis using r c by (simp add: bson_iter_next_def)
qed

lemma next_last:
  assumes "iter_on data it" and "data = pre @ [0]" and "unat (next_off it) = length pre"
  shows "\<exists>it'. bson_iter_next it = Ret (False, it')"
proof -
  obtain ok key un it' where "bson_iter_next_internal 0 it = Ret (ok, key, un, it')" "\<not> ok"
    using bson_iter_next_is_element_at [OF assms(1)] element_at_last [of pre] assms(2,3) by auto
  then show ?thesis by (simp add: bson_iter_next_def)
qed

section \<open>Keys and values\<close>

lemma type_at_element:
  "at_element data n v it \<Longrightarrow> n < length data \<Longrightarrow> ITER_TYPE it = Ret (data ! n)"
  by (simp add: at_element_def ITER_TYPE_def iter_data_def read_byte_in)

lemma key_at_element:
  assumes "at_element data (length pre) v it" and "data = pre @ t # k @ 0 # rest" and "0 \<notin> set k"
  shows "bson_iter_key it = Ret k"
proof -
  have "drop (length pre + 1) data = k @ 0 # rest" using assms(2) by simp
  moreover have "takeWhile (\<lambda>b. b \<noteq> 0) (k @ 0 # rest) = k" using assms(3) by (subst takeWhile_append2) auto
  ultimately show ?thesis
    using assms(1) by (simp add: at_element_def bson_iter_key_def iter_data_def read_cstr_def cstr_def)
qed

lemma read_bytes_here:
  "read_u32 (pre @ le_bytes w @ rest) (length pre) = Ret w"
  "read_u64 (pre @ le64 x @ rest) (length pre) = Ret x"
  "read_slice (pre @ bs @ rest) (length pre) (length bs) = Ret bs"
  "read_byte (pre @ b # rest) (length pre) = Ret b"
  by (simp_all add: read_u32_def read_u64_def le64_value read_slice_def read_byte_def)

lemma value_at_element:
  assumes "at_element (pre @ btype v # k @ 0 # bbytes v @ rest) (length pre) (length pre + length k + 2) it"
    and "length (bbytes v) \<le> BSON_MAX_SIZE"
  shows "bson_iter_value it = Ret (Some (bvalue v))"
proof -
  define hd where "hd = pre @ btype v # k @ [0]"
  define data where "data = hd @ bbytes v @ rest"
  have d: "raw it = Some data" "unat (d1 it) = length hd" "btype v = BSON_TYPE_UTF8 \<Longrightarrow> unat (d2 it) = length hd + 4"
    using assms(1) by (simp_all add: at_element_def data_def hd_def nth_append)
  have t: "ITER_TYPE it = Ret (btype v)"
    using type_at_element [OF assms(1)] by (simp add: nth_append)
  show ?thesis
  proof (cases v)
    case (BUtf8 s)
    define w :: u32 where "w = word_of_nat (length s + 1)"
    have w: "unat w = length s + 1" using assms(2) BUtf8
      by (simp add: w_def unat_of_nat BSON_MAX_SIZE_def del: of_nat_add of_nat_Suc)
    then have "max 1 w = w" "unat (w - 1) = length s"
      by (simp_all add: max_def word_le_nat_alt unat_sub_small)
    moreover have "read_u32 data (length hd) = Ret w"
      using read_bytes_here(1) [of hd w "s @ 0 # rest"] BUtf8 by (simp add: data_def w_def)
    moreover have "read_slice data (length hd + 4) (length s) = Ret s"
      using read_bytes_here(3) [of "hd @ le_bytes w" s "0 # rest"] BUtf8 by (simp add: data_def w_def)
    ultimately show ?thesis
      using BUtf8 t d by (simp add: bson_iter_value_def bson_iter_utf8_def non_null_def iter_data_def bson_types)
  next
    case (BDoc fs)
    define w :: u32 where "w = word_of_nat (length (bfields fs) + 5)"
    have "unat w = length (document (bfields fs))" using assms(2) BDoc
      by (simp add: w_def unat_of_nat BSON_MAX_SIZE_def del: of_nat_add of_nat_Suc)
    moreover have "read_u32 data (length hd) = Ret w"
      using read_bytes_here(1) [of hd w "bfields fs @ 0 # rest"] BDoc by (simp add: data_def w_def document_def)
    moreover have "read_slice data (length hd) (length (document (bfields fs))) = Ret (document (bfields fs))"
      using read_bytes_here(3) [of hd "document (bfields fs)" rest] BDoc by (simp add: data_def)
    ultimately show ?thesis
      using BDoc t d by (simp add: bson_iter_value_def bson_iter_document_def non_null_def iter_data_def bson_types)
  next
    case (BArr fs)
    define w :: u32 where "w = word_of_nat (length (bfields fs) + 5)"
    have "unat w = length (document (bfields fs))" using assms(2) BArr
      by (simp add: w_def unat_of_nat BSON_MAX_SIZE_def del: of_nat_add of_nat_Suc)
    moreover have "read_u32 data (length hd) = Ret w"
      using read_bytes_here(1) [of hd w "bfields fs @ 0 # rest"] BArr by (simp add: data_def w_def document_def)
    moreover have "read_slice data (length hd) (length (document (bfields fs))) = Ret (document (bfields fs))"
      using read_bytes_here(3) [of hd "document (bfields fs)" rest] BArr by (simp add: data_def)
    ultimately show ?thesis
      using BArr t d by (simp add: bson_iter_value_def bson_iter_array_def non_null_def iter_data_def bson_types)
  next
    case (BDouble x)
    then show ?thesis using t d read_bytes_here(2) [of hd x rest]
      by (simp add: bson_iter_value_def bson_iter_double_def iter_data_def bson_types data_def)
  next
    case (BInt64 x)
    then show ?thesis using t d read_bytes_here(2) [of hd x rest]
      by (simp add: bson_iter_value_def bson_iter_int64_def iter_data_def bson_types data_def)
  next
    case (BInt32 x)
    then show ?thesis using t d read_bytes_here(1) [of hd x rest]
      by (simp add: bson_iter_value_def bson_iter_int32_def iter_data_def bson_types data_def)
  next
    case (BBool b)
    then show ?thesis using t d read_bytes_here(4) [of hd "if b then 1 else 0" rest]
      by (simp add: bson_iter_value_def bson_iter_bool_def iter_data_def bson_types data_def)
  next
    case BNull
    then show ?thesis using t by (simp add: bson_iter_value_def bson_types)
  qed
qed

section \<open>The iterator as a cursor\<close>

text \<open>The fields still ahead, and the field the iterator stands on with all that is read of it.\<close>

definition observes :: "bson_iter \<Rightarrow> bval \<Rightarrow> bool" where
  "observes it v \<longleftrightarrow> ITER_TYPE it = Ret (btype v) \<and> bson_iter_type it = Ret (btype v) \<and>
     bson_iter_value it = Ret (Some (bvalue v))"

definition fields_ahead :: "bson_iter \<Rightarrow> (byte list \<times> bval) list \<Rightarrow> bool" where
  "fields_ahead it fs \<longleftrightarrow> fields_ok fs \<and>
     (\<exists>pre. iter_on (pre @ bfields fs @ [0]) it \<and> unat (next_off it) = length pre)"

definition at_field :: "bson_iter \<Rightarrow> byte list \<times> bval \<Rightarrow> bool" where
  "at_field it f \<longleftrightarrow> bson_iter_key it = Ret (fst f) \<and> observes it (snd f)"

lemma step_field:
  assumes "fields_ahead it (f # fs)"
  shows "\<exists>it'. bson_iter_next it = Ret (True, it') \<and> at_field it' f \<and> fields_ahead it' fs"
proof -
  obtain k v where f: "f = (k, v)" by (cases f)
  let ?rest = "bfields fs @ [0]"
  obtain pre where pre: "iter_on (pre @ btype v # k @ 0 # bbytes v @ ?rest) it" "unat (next_off it) = length pre"
      "0 \<notin> set k" "fields_ok fs"
    using assms f by (auto simp: fields_ahead_def)
  let ?data = "pre @ btype v # k @ 0 # bbytes v @ ?rest" and ?pre = "pre @ btype v # k @ 0 # bbytes v"
  obtain it' where it': "bson_iter_next it = Ret (True, it')" "iter_on ?data it'"
      "at_element ?data (length pre) (length pre + length k + 2) it'" "unat (next_off it') = length ?pre"
    using next_field [OF pre(1) refl _ pre(3,2)] by auto
  have "length (bbytes v) \<le> BSON_MAX_SIZE"
    using pre(1) by (simp add: iter_on_def sized_def BSON_MAX_SIZE_def)
  then have "bson_iter_value it' = Ret (Some (bvalue v))"
    using value_at_element [OF it'(3)] by simp
  moreover have "bson_iter_key it' = Ret k" using key_at_element [OF it'(3) _ pre(3)] by simp
  moreover have t: "ITER_TYPE it' = Ret (btype v)" using type_at_element [OF it'(3)] by (simp add: nth_append)
  moreover have "bson_iter_type it' = Ret (btype v)" using it'(3) t by (simp add: bson_iter_type_def at_element_def)
  ultimately have "at_field it' f" by (simp add: at_field_def observes_def f)
  moreover have "fields_ahead it' fs"
    unfolding fields_ahead_def using it'(2,4) pre(4) by (intro conjI exI [of _ ?pre]) simp_all
  ultimately show ?thesis using it'(1) by blast
qed

interpretation field_cursor: cursor bson_iter_next fields_ahead at_field
proof
  show "\<exists>it'. bson_iter_next it = Ret (False, it')" if "fields_ahead it []" for it
    using that next_last by (auto simp: fields_ahead_def)
qed (rule step_field)

lemma length_fields: "length fs \<le> length (bfields fs)"
  by (induction fs) auto

section \<open>Documents become tables\<close>

definition pushes :: "nat \<Rightarrow> nat \<Rightarrow> 'a \<Rightarrow> 'a res" where
  "pushes used slots x = (if used + slots \<le> LUA_MINSTACK then Ret x else Fault StackOverflow)"

lemma pushes_simps [simp]:
  "lua_push used (Ret x) = pushes used 1 x"
  by (simp add: lua_push_def pushes_def)

lemma pushes_none: "used \<le> LUA_MINSTACK \<Longrightarrow> pushes used 0 x = Ret x"
  by (simp add: pushes_def)

lemma push_fields_is:
  assumes "fields_ahead it fs" and "length fs < n" and "used \<le> LUA_MINSTACK"
    and "\<And>k v u. (k, v) \<in> set fs \<Longrightarrow> pv u (Some (bvalue v)) = pushes u (bslots v) (lua_of v)"
  shows "push_fields pv n used it es = pushes used (fields_slots fs) (LTab (set_fields es fs))"
proof -
  let ?pv = "\<lambda>fs. \<forall>(k, v) \<in> set fs. \<forall>u. pv u (Some (bvalue v)) = pushes u (bslots v) (lua_of v)"
  have "?pv fs \<longrightarrow> push_fields pv n used it es = pushes used (fields_slots fs) (LTab (set_fields es fs))"
  proof (rule field_cursor.loop_induct [where f = "\<lambda>n it es. push_fields pv n used it es" and a = es
        and P = "\<lambda>fs es r. ?pv fs \<longrightarrow> r = pushes used (fields_slots fs) (LTab (set_fields es fs))",
        OF assms(1,2)])
    show "?pv (f # fs) \<longrightarrow> push_fields pv (Suc n) used it es = pushes used (fields_slots (f # fs)) (LTab (set_fields es (f # fs)))"
      if "bson_iter_next it = Ret (True, it')" "at_field it' f"
        "\<And>es. ?pv fs \<longrightarrow> push_fields pv n used it' es = pushes used (fields_slots fs) (LTab (set_fields es fs))"
      for n it it' f fs es
      using that by (cases f) (auto simp: at_field_def observes_def lua_push_def pushes_def max_def)
  qed (use assms(3) in \<open>simp add: pushes_none\<close>)
  then show ?thesis using assms(4) by fast
qed

lemma push_items_is:
  assumes "fields_ahead it fs" and "length fs < n" and "used \<le> LUA_MINSTACK"
    and "\<And>k v u. (k, v) \<in> set fs \<Longrightarrow> pv u (Some (bvalue v)) = pushes u (bslots v) (lua_of v)"
  shows "push_items pv n used it i es = pushes used (items_slots fs) (LTab (set_items i es fs))"
proof -
  let ?pv = "\<lambda>fs. \<forall>(k, v) \<in> set fs. \<forall>u. pv u (Some (bvalue v)) = pushes u (bslots v) (lua_of v)"
  let ?f = "\<lambda>n it (i, es). push_items pv n used it i es"
  have "?pv fs \<longrightarrow> ?f n it (i, es) = (case (i, es) of (i, es) \<Rightarrow> pushes used (items_slots fs) (LTab (set_items i es fs)))"
  proof (rule field_cursor.loop_induct [OF assms(1,2), where f = ?f])
    show "?pv (f # fs) \<longrightarrow> ?f (Suc n) it a = (case a of (i, es) \<Rightarrow> pushes used (items_slots (f # fs)) (LTab (set_items i es (f # fs))))"
      if "bson_iter_next it = Ret (True, it')" "at_field it' f"
        "\<And>a. ?pv fs \<longrightarrow> ?f n it' a = (case a of (i, es) \<Rightarrow> pushes used (items_slots fs) (LTab (set_items i es fs)))"
      for n it it' f fs a
      using that by (cases f; cases a) (auto simp: at_field_def observes_def pushes_def max_def)
  qed (use assms(3) in \<open>simp add: pushes_none split: prod.split\<close>)
  then show ?thesis using assms(4) by fastforce
qed

lemma iter_init_document:
  assumes "length (document (bfields fs)) \<le> BSON_MAX_SIZE" and "fields_ok fs"
  obtains it where "bson_iter_init (document (bfields fs)) = (True, it)" and "fields_ahead it fs"
    and "length fs < length (document (bfields fs))"
proof -
  define it where "it = snd (bson_iter_init (document (bfields fs)))"
  have "bson_iter_init (document (bfields fs)) = (True, it)" by (simp add: it_def bson_iter_init_def)
  moreover have "fields_ahead it fs"
    unfolding fields_ahead_def
  proof (intro conjI exI)
    show "iter_on (le_bytes (word_of_nat (length (bfields fs) + 5)) @ bfields fs @ [0]) it"
      using assms(1)
      by (simp add: it_def bson_iter_init_def iter_on_def sized_def document_def BSON_MAX_SIZE_def unat_of_nat
          del: of_nat_add)
    show "unat (next_off it) = length (le_bytes (word_of_nat (length (bfields fs) + 5)))"
      by (simp add: it_def bson_iter_init_def)
  qed (rule assms(2))
  moreover have "length fs < length (document (bfields fs))" using length_fields [of fs] by simp
  ultimately show thesis using that by blast
qed

lemma push_document_is:
  assumes "length (document (bfields fs)) \<le> BSON_MAX_SIZE" and "fields_ok fs"
    and "\<And>k v u. (k, v) \<in> set fs \<Longrightarrow> pv u (Some (bvalue v)) = pushes u (bslots v) (lua_of v)"
  shows "push_document pv used (document (bfields fs)) =
      pushes used (1 + fields_slots fs) (LTab (set_fields [] fs))"
    and "push_array pv used (document (bfields fs)) =
      pushes used (1 + items_slots fs) (LTab (set_items 1 [] fs))"
proof -
  obtain it where it: "bson_iter_init (document (bfields fs)) = (True, it)" "fields_ahead it fs"
      "length fs < length (document (bfields fs))"
    by (rule iter_init_document [OF assms(1,2)])
  have "push_fields pv (length (document (bfields fs))) (used + 1) it [] =
      pushes (used + 1) (fields_slots fs) (LTab (set_fields [] fs))" if "used < LUA_MINSTACK"
    by (rule push_fields_is [OF it(2,3)]) (use that assms(3) in auto)
  then show "push_document pv used (document (bfields fs)) = pushes used (1 + fields_slots fs) (LTab (set_fields [] fs))"
    using it(1) by (simp add: push_document_def lua_push_def pushes_def)
  have "push_items pv (length (document (bfields fs))) (used + 1) it 1 [] =
      pushes (used + 1) (items_slots fs) (LTab (set_items 1 [] fs))" if "used < LUA_MINSTACK"
    by (rule push_items_is [OF it(2,3)]) (use that assms(3) in auto)
  then show "push_array pv used (document (bfields fs)) = pushes used (1 + items_slots fs) (LTab (set_items 1 [] fs))"
    using it(1) by (simp add: push_array_def lua_push_def pushes_def)
qed

lemma bbytes_field: "(k, v) \<in> set fs \<Longrightarrow> length (bbytes v) \<le> length (bfields fs)"
  by (induction fs) auto

lemma field_parts:
  "(k, v) \<in> set fs \<Longrightarrow> fields_ok fs \<Longrightarrow> keys_ok v"
  "(k, v) \<in> set fs \<Longrightarrow> bdepth v \<le> fields_depth fs"
  by (induction fs) auto

lemma push_value_is:
  "keys_ok v \<Longrightarrow> bdepth v \<le> n \<Longrightarrow> length (bbytes v) \<le> BSON_MAX_SIZE \<Longrightarrow>
     push_bson_value n used (Some (bvalue v)) = pushes used (bslots v) (lua_of v)"
proof (induction n arbitrary: v used)
  case 0
  then show ?case by (cases v) auto
next
  case (Suc n)
  have fields: "push_bson_value n u (Some (bvalue w)) = pushes u (bslots w) (lua_of w)"
    if "(k, w) \<in> set fs" "fields_ok fs" "fields_depth fs \<le> n" "length (bfields fs) \<le> BSON_MAX_SIZE" for k w fs u
    by (rule Suc.IH) (use that field_parts [OF that(1)] bbytes_field [OF that(1)] in auto)
  show ?case
  proof (cases v)
    case (BDoc fs)
    then have fs: "fields_ok fs" "fields_depth fs \<le> n" "length (bfields fs) + 5 \<le> BSON_MAX_SIZE"
      using Suc.prems by simp_all
    then have "push_document (push_bson_value n) used (document (bfields fs)) =
        pushes used (1 + fields_slots fs) (LTab (set_fields [] fs))"
      by (intro push_document_is(1) fields) auto
    then show ?thesis using BDoc init_static_document [OF fs(3)] by (simp add: static_child_def)
  next
    case (BArr fs)
    then have fs: "fields_ok fs" "fields_depth fs \<le> n" "length (bfields fs) + 5 \<le> BSON_MAX_SIZE"
      using Suc.prems by simp_all
    then have "push_array (push_bson_value n) used (document (bfields fs)) =
        pushes used (1 + items_slots fs) (LTab (set_items 1 [] fs))"
      by (intro push_document_is(2) fields) auto
    then show ?thesis using BArr init_static_document [OF fs(3)] by (simp add: static_child_def)
  qed simp_all
qed

lemma push_bson_document_is:
  assumes "fields_ok fs" and "fields_depth fs \<le> n" and "length (document (bfields fs)) \<le> BSON_MAX_SIZE"
  shows "push_bson_document n used (document (bfields fs)) = pushes used (bslots (BDoc fs)) (lua_of (BDoc fs))"
proof -
  have "push_bson_value n u (Some (bvalue w)) = pushes u (bslots w) (lua_of w)" if "(k, w) \<in> set fs" for k w u
    by (rule push_value_is)
      (use that assms field_parts [OF that] bbytes_field [OF that] in auto)
  then show ?thesis
    using push_document_is(1) [OF assms(3,1)] by (simp add: push_bson_document_def)
qed

section \<open>Finding a field\<close>

lemma find_is:
  assumes "fields_ahead it fs" and "length fs < n"
  shows "\<exists>it'. bson_iter_find n key it = Ret (map_of fs key \<noteq> None, it') \<and>
    (\<forall>v. map_of fs key = Some v \<longrightarrow> observes it' v)"
proof (rule field_cursor.loop_induct [where f = "\<lambda>n it (_ :: unit). bson_iter_find n key it" and a = "()"
      and P = "\<lambda>fs _ r. \<exists>it'. r = Ret (map_of fs key \<noteq> None, it') \<and> (\<forall>v. map_of fs key = Some v \<longrightarrow> observes it' v)",
      OF assms])
  show "\<exists>it''. bson_iter_find (Suc n) key it = Ret (map_of (f # fs) key \<noteq> None, it'') \<and>
      (\<forall>v. map_of (f # fs) key = Some v \<longrightarrow> observes it'' v)"
    if "bson_iter_next it = Ret (True, it')" "at_field it' f"
      "\<And>b :: unit. \<exists>it''. bson_iter_find n key it' = Ret (map_of fs key \<noteq> None, it'') \<and>
        (\<forall>v. map_of fs key = Some v \<longrightarrow> observes it'' v)"
    for n it it' f fs
  proof (cases "fst f = key")
    case True
    then show ?thesis using that(1,2) by (simp add: at_field_def)
  next
    case False
    then have "\<not> (take (length key) (fst f) = key \<and> length (fst f) = length key)" by auto
    then have "bson_iter_find (Suc n) key it = bson_iter_find n key it'"
      using that(1,2) by (simp only: at_field_def bson_iter_find.simps then_do.simps prod.case) simp
    moreover have "map_of (f # fs) key = map_of fs key" using False by simp
    ultimately show ?thesis using that(3) by simp
  qed
qed simp

lemma init_find_is:
  assumes "length (document (bfields fs)) \<le> BSON_MAX_SIZE" and "fields_ok fs"
  shows "\<exists>it. bson_iter_init_find (document (bfields fs)) key = Ret (map_of fs key \<noteq> None, it) \<and>
    (\<forall>v. map_of fs key = Some v \<longrightarrow> observes it v)"
proof -
  obtain it where it: "bson_iter_init (document (bfields fs)) = (True, it)" "fields_ahead it fs"
      "length fs < length (document (bfields fs))"
    by (rule iter_init_document [OF assms])
  show ?thesis using find_is [OF it(2,3), of key] by (simp only: bson_iter_init_find_def it(1) prod.case if_True)
qed

section \<open>The settings\<close>

text \<open>What a value says about a size, and a section about a setting.\<close>

fun size_of_value :: "u64 \<Rightarrow> bval \<Rightarrow> u64 res" where
  "size_of_value dflt (BInt32 i) = Ret (if 0 < sint i then scast i else dflt)"
| "size_of_value dflt (BInt64 i) = Ret (if 0 < sint i then i else dflt)"
| "size_of_value dflt (BDouble d) = (if double_positive d then double_to_size d else Ret dflt)"
| "size_of_value dflt v = Ret dflt"

definition setting :: "(byte list \<times> bval) list \<Rightarrow> string \<Rightarrow> u64 \<Rightarrow> u64 res" where
  "setting fs key dflt = (case map_of fs (ascii key) of None \<Rightarrow> Ret dflt | Some v \<Rightarrow> size_of_value dflt v)"

lemma to_size_observed: "observes it v \<Longrightarrow> bson_iter_to_size dflt it = size_of_value dflt v"
  by (cases v) (auto simp: observes_def bson_iter_to_size_def bson_iter_value_def bson_types then_do_eq_Ret_iff)

lemma size_setting_is:
  assumes "length (document (bfields fs)) \<le> BSON_MAX_SIZE" and "fields_ok fs"
  shows "size_setting (document (bfields fs)) (ascii key) dflt = setting fs key dflt"
proof -
  obtain it where it: "bson_iter_init_find (document (bfields fs)) (ascii key) = Ret (map_of fs (ascii key) \<noteq> None, it)"
      "\<forall>v. map_of fs (ascii key) = Some v \<longrightarrow> observes it v"
    using init_find_is [OF assms] by blast
  show ?thesis
  proof (cases "map_of fs (ascii key)")
    case None
    then show ?thesis using it(1) by (simp add: size_setting_def setting_def)
  next
    case (Some v)
    then show ?thesis using it to_size_observed [of it v] by (simp add: size_setting_def setting_def)
  qed
qed

lemma document_observed:
  "observes it (BDoc fs) \<Longrightarrow> bson_iter_document it = Ret (Some (document (bfields fs)))"
  by (auto simp: observes_def bson_iter_value_def bson_types non_null_def then_do_eq_Ret_iff split: option.splits)

lemma map_of_parts:
  assumes "map_of fs k = Some v" and "fields_ok fs" and "length (document (bfields fs)) \<le> BSON_MAX_SIZE"
  shows "keys_ok v" and "length (bbytes v) \<le> BSON_MAX_SIZE"
  using field_parts(1) [OF map_of_SomeD [OF assms(1)] assms(2)] bbytes_field [OF map_of_SomeD [OF assms(1)]] assms(3)
  by simp_all

lemma apply_settings_is:
  assumes "length (document (bfields fs)) \<le> BSON_MAX_SIZE" and "fields_ok fs"
  shows "apply_log_queue_settings (document (bfields fs)) g =
    (case map_of fs (ascii ''common'') of
       Some (BDoc cs) \<Rightarrow>
         then_do (setting cs ''log_queue_max'' 10000) (\<lambda>mx.
           then_do (setting cs ''log_queue_warn'' 8000) (\<lambda>wt. Ret (logger_set_queue_params mx wt g)))
     | _ \<Rightarrow> Ret g)"
proof -
  let ?c = "map_of fs (ascii ''common'')"
  obtain it where it: "bson_iter_init_find (document (bfields fs)) (ascii ''common'') = Ret (?c \<noteq> None, it)"
      "\<forall>v. ?c = Some v \<longrightarrow> observes it v"
    using init_find_is [OF assms] by blast
  show ?thesis
  proof (cases ?c)
    case None
    then show ?thesis using it(1) by (simp add: apply_log_queue_settings_def)
  next
    case (Some v)
    then have o: "observes it v" using it(2) by simp
    then have t: "bson_iter_type it = Ret (btype v)" by (simp add: observes_def)
    show ?thesis
    proof (cases "\<exists>cs. v = BDoc cs")
      case True
      then obtain cs where cs: "v = BDoc cs" by blast
      have ok: "fields_ok cs" "length (document (bfields cs)) \<le> BSON_MAX_SIZE"
        using map_of_parts [OF Some assms(2,1)] cs by simp_all
      have "static_child (document (bfields cs)) = Ret (document (bfields cs))"
        using init_static_document [of "bfields cs"] ok(2) by (simp add: static_child_def)
      then show ?thesis
        using it(1) Some cs t document_observed [OF o [unfolded cs]] size_setting_is [OF ok(2,1)]
        by (simp add: apply_log_queue_settings_def)
    next
      case False
      then have "btype v \<noteq> BSON_TYPE_DOCUMENT" by (cases v) (simp_all add: bson_types)
      then show ?thesis using it(1) Some t False
        by (auto simp: apply_log_queue_settings_def split: bval.split)
    qed
  qed
qed

end
