(* ===== verification/Bson_Validate_Facts.thy ===== *)
theory Bson_Validate_Facts
  imports Bson_Validate Config_Facts
begin

section \<open>The reference\<close>

text \<open>
  Validity without an iterator, on natural numbers: the elements from the offset \<open>n\<close> on, with the offset
  of each and of its value, when they fill the document up to its last byte; what is asked of a
  text, of a key, of a value; and a document of at most \<open>levels\<close> levels.
\<close>

function parse_elements :: "byte list \<Rightarrow> nat \<Rightarrow> (nat \<times> nat) list option" where
  "parse_elements data n =
     (if length data \<le> n + 1 then Some []
      else case element_at data n of
        None \<Rightarrow> None
      | Some (v, e) \<Rightarrow> map_option (\<lambda>es. (n, v) # es) (parse_elements data e))"
  by pat_completeness auto
termination
  by (relation "measure (\<lambda>(data, n). length data - n)") (auto dest!: element_at_after)

declare parse_elements.simps [simp del]

definition key_of :: "byte list \<Rightarrow> nat \<Rightarrow> nat \<Rightarrow> byte list" where
  "key_of data n v = take (v - n - 2) (drop (n + 1) data)"

definition valid_text :: "validation_params \<Rightarrow> byte list \<Rightarrow> bool" where
  "valid_text ps u \<longleftrightarrow> allow_invalid_utf8 ps \<or> bson_utf8_validate u (allow_null_in_utf8 ps)"

definition valid_key :: "validation_params \<Rightarrow> byte list \<Rightarrow> bool" where
  "valid_key ps k \<longleftrightarrow> valid_text ps k \<and> (check_special_dollar_keys ps \<longrightarrow> take 1 k \<noteq> ascii ''$'') \<and>
     (\<not> allow_empty_keys ps \<longrightarrow> k \<noteq> []) \<and> (\<not> allow_dot_in_keys ps \<longrightarrow> 46 \<notin> set k)"

definition valid_value ::
  "(validation_params \<Rightarrow> byte list \<Rightarrow> bool) \<Rightarrow> validation_params \<Rightarrow> byte list \<Rightarrow> byte \<Rightarrow> nat \<Rightarrow> bool" where
  "valid_value doc ps data t v =
     (let l = u32_at data v; l2 = u32_at data (v + 4) in
      if t \<in> {2, 12, 13, 14} then valid_text ps (take (l - 1) (drop (v + 4) data))
      else if t \<in> {3, 4} then
        let sub = take l (drop v data) in bson_init_static sub \<noteq> None \<and> doc ps sub
      else if t = 11 then
        valid_text ps (cstr (drop v data)) \<and>
        (case find_nul data v of None \<Rightarrow> False | Some q \<Rightarrow> valid_text ps (cstr (drop (q + 1) data)))
      else if t = 15 then
        let scope = take (u32_at data (v + 8 + l2)) (drop (v + 8 + l2) data) in
        bson_init_static scope \<noteq> None \<and> valid_text ps (take (l2 - 1) (drop (v + 8) data)) \<and>
        doc scope_params scope
      else True)"

text \<open>
  How many elements at the start are those of a reference \<open>$ref\<close>, \<open>$id\<close>, \<open>$db\<close>, on the keys and types
  of all elements; \<open>None\<close> for another key with a dollar at the start.
\<close>

fun dbref_prefix :: "(byte list \<times> byte) list \<Rightarrow> nat option" where
  "dbref_prefix ((k1, t1) # (k2, t2) # es) =
     (if k1 = ascii ''$ref'' \<and> t1 = BSON_TYPE_UTF8 \<and> k2 = ascii ''$id'' then
        case es of
          [] \<Rightarrow> Some 2
        | (k3, t3) # _ \<Rightarrow>
            if k3 \<noteq> ascii ''$db'' then Some 2 else if t3 = BSON_TYPE_UTF8 then Some 3 else None
      else None)"
| "dbref_prefix es = None"

definition dollar_prefix :: "validation_params \<Rightarrow> (byte list \<times> byte) list \<Rightarrow> nat option" where
  "dollar_prefix ps es =
     (if check_special_dollar_keys ps \<and> es \<noteq> [] \<and> take 1 (fst (hd es)) = ascii ''$''
      then dbref_prefix es else Some 0)"

definition elements_info :: "byte list \<Rightarrow> (nat \<times> nat) list \<Rightarrow> (byte list \<times> byte) list" where
  "elements_info data es = map (\<lambda>(n, v). (key_of data n v, data ! n)) es"

definition valid_elements ::
  "(validation_params \<Rightarrow> byte list \<Rightarrow> bool) \<Rightarrow> validation_params \<Rightarrow> byte list \<Rightarrow> (nat \<times> nat) list \<Rightarrow> bool" where
  "valid_elements doc ps data es \<longleftrightarrow>
     (\<forall>(n, v) \<in> set es. valid_value doc ps data (data ! n) v) \<and>
     (case dollar_prefix ps (elements_info data es) of
        None \<Rightarrow> False
      | Some k \<Rightarrow> \<forall>(n, v) \<in> set (drop k es). valid_key ps (key_of data n v))"

fun valid_doc :: "nat \<Rightarrow> validation_params \<Rightarrow> byte list \<Rightarrow> bool" where
  "valid_doc 0 ps data = False"
| "valid_doc (Suc levels) ps data =
     (case parse_elements data 4 of
        None \<Rightarrow> False
      | Some es \<Rightarrow> valid_elements (valid_doc levels) ps data es)"

declare valid_doc.simps [simp del]

section \<open>What the iterator leaves behind\<close>

text \<open>The remembered offsets of an element of type \<open>t\<close> whose value is at \<open>v\<close>.\<close>

definition offsets_at :: "byte list \<Rightarrow> byte \<Rightarrow> nat \<Rightarrow> bson_iter \<Rightarrow> bool" where
  "offsets_at data t v it \<longleftrightarrow>
     (t \<in> {2, 13, 14, 12} \<longrightarrow> unat (d2 it) = v + 4) \<and>
     (t = 11 \<longrightarrow> (\<exists>q. find_nul data v = Some q \<and> unat (d2 it) = q + 1)) \<and>
     (t = 15 \<longrightarrow> unat (d2 it) = v + 4 \<and> unat (d3 it) = v + 8 \<and> unat (d4 it) = v + 8 + u32_at data (v + 4))"

text \<open>Errors have an offset, and the remembered offsets are those of the element.\<close>

definition step_marks :: "byte list \<Rightarrow> byte \<Rightarrow> u32 \<Rightarrow> iter_step \<Rightarrow> bool" where
  "step_marks data t p s \<longleftrightarrow>
     (\<forall>it'. s = Ret (Inl it') \<longrightarrow> err_off it' \<noteq> 0) \<and>
     (\<forall>p' it'. s = Ret (Inr (p', it')) \<longrightarrow> p' \<noteq> 0 \<and> offsets_at data t (unat p) it')"

lemma marks_invalid [simp]: "step_marks data t p (invalid_at e it) \<longleftrightarrow> e \<noteq> 0"
  by (simp add: step_marks_def invalid_at_def)

lemma marks_ends [simp]: "step_marks data t p (ends_at p' e it) \<longleftrightarrow> p' \<noteq> 0 \<and> offsets_at data t (unat p) it"
  by (auto simp: step_marks_def ends_at_def offsets_at_def)

lemma marks_then: "(\<And>x. r = Ret x \<Longrightarrow> step_marks data t p (f x)) \<Longrightarrow> step_marks data t p (then_do r f)"
  by (cases r) (simp_all add: step_marks_def)

lemma marks_if: "(c \<Longrightarrow> step_marks data t p a) \<Longrightarrow> (\<not> c \<Longrightarrow> step_marks data t p b) \<Longrightarrow>
    step_marks data t p (if c then a else b)"
  by simp

lemma read_u32_Ret: "read_u32 data i = Ret w \<Longrightarrow> unat w = u32_at data i"
  by (auto simp: read_u32_def unat_u32_at split: if_splits)

lemma string_marks:
  assumes "sized data len" and "unat p \<le> length data" and "0 < unat p" and "d1 it = p" and "t \<in> {2, 13, 14}"
  shows "step_marks data t p (iter_string data len p it)"
proof -
  note n = sizedD [OF assms(1)]
  have p4: "unat (p + 4) = unat p + 4" using assms(2) n by (simp add: u32_simps)
  have p: "p \<noteq> 0" using assms(3) by auto
  show ?thesis
    unfolding iter_string_def Let_def
  proof (intro marks_if marks_then)
    fix l b
    assume l: "\<not> len - (p + 4) < l" "\<not> len \<le> p + 4"
    have "unat l + unat (p + 4) \<le> length data"
      using l n p4 by (simp add: u32_simps)
    then have "unat (p + 4 + l) = unat p + 4 + unat l" using p4 n by (simp add: u32_simps)
    then have "unat (p + 4 + l - 1) = unat p + 3 + unat l" by (subst unat_sub_small) simp_all
    then have "p + 4 + l - 1 \<noteq> 0" by (metis add_eq_0_iff_both_eq_0 unsigned_0 zero_neq_numeral)
    then show "step_marks data t p (invalid_at (p + 4 + l - 1) it')" for it' by simp
  qed (use p p4 assms(5) in \<open>simp_all add: offsets_at_def\<close>, auto)
qed

lemma nonzero_word: "unat w = k \<Longrightarrow> 0 < k \<Longrightarrow> w \<noteq> 0" for w :: u32
  by auto

lemma binary_marks:
  assumes "sized data len" and "unat p \<le> length data" and "0 < unat p"
  shows "step_marks data 5 p (iter_binary data len p it)"
proof -
  note n = sizedD [OF assms(1)]
  have "unat (p + 5) = unat p + 5" using assms(2) n by (simp add: u32_simps)
  then have "p + 5 \<noteq> 0" "p \<noteq> 0" using assms(3) by auto
  then show ?thesis
    unfolding iter_binary_def Let_def
    by (intro marks_if marks_then) (simp_all add: offsets_at_def)
qed

lemma document_marks:
  assumes "0 < unat p" and "t \<in> {3, 4}"
  shows "step_marks data t p (iter_document data len p it)"
  unfolding iter_document_def using assms
  by (intro marks_if marks_then) (auto simp: offsets_at_def)

lemma bool_marks: "0 < unat p \<Longrightarrow> step_marks data 8 p (iter_bool data len p it)"
  unfolding iter_bool_def
  by (intro marks_if marks_then) (auto simp: offsets_at_def)

lemma dbpointer_marks:
  assumes "sized data len" and "unat p \<le> length data" and "0 < unat p" and "d1 it = p"
  shows "step_marks data 12 p (iter_dbpointer data len p it)"
proof -
  note n = sizedD [OF assms(1)]
  have p4: "unat (p + 4) = unat p + 4" using assms(2) n by (simp add: u32_simps)
  show ?thesis
    unfolding iter_dbpointer_def Let_def
  proof (intro marks_if marks_then)
    fix l b
    assume l: "\<not> (l = 0 \<or> len - p - 4 < l)" "\<not> len - 4 \<le> p"
    have "unat (len - 4) = unat len - 4" using n by (simp add: u32_simps)
    then have "unat p + 4 \<le> unat len" using l(2) n by (simp add: u32_simps)
    then have "unat (len - p - 4) = unat len - unat p - 4"
      using unat_sub_two [of p 4 len] by simp
    then have "unat l + unat p + 4 \<le> length data" using l n \<open>unat p + 4 \<le> unat len\<close> by (auto simp: u32_simps)
    then have "unat (p + l + 3) = unat p + unat l + 3" using n by (simp add: u32_simps)
    then show "step_marks data 12 p (invalid_at (p + l + 3) it')" for it'
      using nonzero_word by fastforce
  qed (use p4 assms(3) in \<open>auto simp: offsets_at_def\<close>)
qed

lemma regex_marks:
  assumes "sized data len" and "unat p \<le> length data" and "0 < unat p" and "0 < unat (next_off it)"
  shows "step_marks data 11 p (iter_regex data len p it)"
proof -
  note n = sizedD [OF assms(1)]
  have e: "next_off it \<noteq> 0" using assms(4) by auto
  have s: "scan_nul data len p = Ret (map_option word_of_nat (find_nul data (unat p)))"
    using scan_nul_find n assms(2) by simp
  show ?thesis
  proof (cases "find_nul data (unat p)")
    case None
    then show ?thesis using s e by (simp add: iter_regex_def)
  next
    case (Some q)
    have q: "unat p \<le> q" "q < length data" using find_nul_bounds [OF Some] by simp_all
    have q1: "unat (word_of_nat q + 1 :: u32) = q + 1" using q n by (simp add: u32_simps)
    then have s2: "scan_nul data len (word_of_nat q + 1) = Ret (map_option word_of_nat (find_nul data (q + 1)))"
      using scan_nul_find [of len data "word_of_nat q + 1"] n q by simp
    show ?thesis
    proof (cases "find_nul data (q + 1)")
      case None
      then show ?thesis using s s2 Some e by (simp add: iter_regex_def)
    next
      case z: (Some z)
      then have "unat (word_of_nat z :: u32) = z" "0 < z"
        using find_nul_bounds [OF z] n by (simp_all add: u32_simps)
      then have "(word_of_nat z :: u32) \<noteq> 0" "word_of_nat z + (1 :: u32) \<noteq> 0"
        using find_nul_bounds [OF z] n nonzero_word [of "word_of_nat z + 1" "z + 1"]
        by (auto simp: u32_simps)
      then show ?thesis using s s2 Some z q1 by (simp add: iter_regex_def offsets_at_def)
    qed
  qed
qed

lemma codewscope_marks:
  assumes "sized data len" and "unat p \<le> length data" and "0 < unat p" and "d1 it = p"
  shows "step_marks data 15 p (iter_codewscope data len p it)"
proof -
  note n = sizedD [OF assms(1)]
  have p4: "unat (p + 4) = unat p + 4" "unat (p + 8) = unat p + 8" using assms(2) n by (simp_all add: u32_simps)
  have nz: "p \<noteq> 0" "p + 4 \<noteq> 0" using p4 assms(3) by auto
  show ?thesis
    unfolding iter_codewscope_def Let_def
  proof (intro marks_if marks_then)
    fix l1 l2 doclen
    assume a: "\<not> (len < 19 \<or> len - 14 \<le> p)" "\<not> (l2 = 0 \<or> len - p - 4 - 4 \<le> l2)"
      and r: "read_u32 data (unat (d2 (it\<lparr>d2 := p + 4, d3 := p + 8, next_off := p + l1\<rparr>))) = Ret l2"
    have "unat (len - 14) = unat len - 14" using a(1) n by (simp add: u32_simps)
    then have p14: "unat p + 14 \<le> unat len" using a(1) n by (auto simp: u32_simps)
    then have "unat (len - p - 4) = unat len - unat p - 4"
      using unat_sub_two [of p 4 len] by simp
    then have "unat (len - p - 4 - 4) = unat len - unat p - 8"
      using p14 by (subst unat_sub_small) simp_all
    then have "unat l2 + unat p + 8 \<le> length data" using a(2) n p14 by (auto simp: u32_simps)
    then have "unat (p + 4 + 4 + l2) = unat p + 8 + unat l2" using n by (simp add: u32_simps)
    moreover have "unat l2 = u32_at data (unat p + 4)" using r p4 by (auto dest: read_u32_Ret)
    ultimately show "step_marks data 15 p (invalid_at (p + 4 + 4 + l2) it')"
      "step_marks data 15 p (ends_at p e (it\<lparr>d2 := p + 4, d3 := p + 8, next_off := p + l1, d4 := p + 4 + 4 + l2\<rparr>))" for it' e
      using nz p4 nonzero_word by (fastforce simp: offsets_at_def)+
  qed (use nz in simp_all)
qed

lemma switch_marks:
  assumes "sized data len" and "unat p \<le> length data" and "0 < unat p" and "d1 it = p"
    and "0 < unat (next_off it)"
  shows "step_marks data t p (fst (iter_switch data len t p it))"
proof -
  have p: "p \<noteq> 0" using assms(3) by auto
  consider "t \<in> {13, 14, 2}" | "t = 5" | "t \<in> {4, 3}" | "t = 8" | "t = 11" | "t = 12" | "t = 15"
    | "t \<in> {9, 1, 18, 17, 7, 16, 19, 127, 255, 10, 6}"
    | "t \<notin> {9, 1, 18, 17, 13, 14, 2, 5, 4, 3, 7, 8, 11, 12, 15, 16, 19, 127, 255, 10, 6}"
    by blast
  then show ?thesis
  proof cases
    case 1
    then show ?thesis using string_marks [OF assms(1-4), of t] by (auto simp: iter_switch_def)
  next
    case 2
    then show ?thesis using binary_marks [OF assms(1-3)] by (simp add: iter_switch_def)
  next
    case 3
    then show ?thesis using document_marks [OF assms(3), of t] by (auto simp: iter_switch_def)
  next
    case 4
    then show ?thesis using bool_marks [OF assms(3)] by (simp add: iter_switch_def)
  next
    case 5
    then show ?thesis using regex_marks [OF assms(1-3,5)] by (simp add: iter_switch_def)
  next
    case 6
    then show ?thesis using dbpointer_marks [OF assms(1-4)] by (simp add: iter_switch_def)
  next
    case 7
    then show ?thesis using codewscope_marks [OF assms(1-4)] by (simp add: iter_switch_def)
  next
    case 8
    then show ?thesis using p by (elim insertE emptyE) (simp_all add: iter_switch_def offsets_at_def)
  next
    case 9
    then show ?thesis using p by (simp add: iter_switch_def)
  qed
qed

text \<open>
  An iterator before the element at \<open>n\<close>, and on the element at \<open>n\<close> with its value at \<open>v\<close> and the next
  element at \<open>e\<close>.
\<close>

definition iter_before :: "byte list \<Rightarrow> nat \<Rightarrow> bson_iter \<Rightarrow> bool" where
  "iter_before data n it \<longleftrightarrow> iter_on data it \<and> unat (next_off it) = n \<and> 0 < n \<and> err_off it = 0"

definition stands_on :: "byte list \<Rightarrow> nat \<Rightarrow> nat \<Rightarrow> nat \<Rightarrow> bson_iter \<Rightarrow> bool" where
  "stands_on data n v e it \<longleftrightarrow> element_at data n = Some (v, e) \<and> iter_before data e it \<and>
     unat (type_at it) = n \<and> unat (key_at it) = n + 1 \<and> unat (d1 it) = v \<and> offsets_at data (data ! n) v it"

lemma next_marks:
  assumes "bson_iter_next_internal 0 it = Ret (ok, key, un, it')" and "iter_before data n it"
    and "find_nul data (n + 1) = Some z"
  shows "if ok then err_off it' = 0 \<and> offsets_at data (data ! n) (z + 1) it' else err_off it' \<noteq> 0"
proof -
  define len where "len = iter_len it"
  have o: "raw it = Some data" "sized data len" "unat (next_off it) = n" "n < length data" "0 < n"
    using assms(2) by (simp_all add: iter_before_def iter_on_def len_def)
  note b = sizedD [OF o(2)]
  have n1: "unat (next_off it + 1) = n + 1" using o b by (simp add: u32_simps)
  then have scan: "scan_nul data len (next_off it + 1) = Ret (Some (word_of_nat z))"
    using scan_nul_find [of len data "next_off it + 1"] b o(4) assms(3) by simp
  define p :: u32 where "p = word_of_nat z + 1"
  have z: "n + 1 \<le> z" "z < length data" using find_nul_bounds [OF assms(3)] by simp_all
  then have p: "unat p = z + 1" using b by (simp add: p_def u32_simps)
  define it2 where "it2 = it\<lparr>off := next_off it, type_at := next_off it, key_at := next_off it + 1,
    d2 := 0, d3 := 0, d4 := 0, d1 := p\<rparr>"
  obtain step u where sw: "iter_switch data len (data ! n) p it2 = (step, u)" by force
  have marks: "step_marks data (data ! n) p step"
    using switch_marks [OF o(2), of p it2 "data ! n"] p z o sw by (simp add: it2_def)
  have run: "bson_iter_next_internal 0 it =
      then_do step (\<lambda>r. case r of
          Inl it \<Rightarrow> Ret (False, Some (key_at it, data ! n), u, mark_invalid it)
        | Inr (p, it) \<Rightarrow>
            if len \<le> next_off it
            then Ret (False, Some (key_at it, data ! n), u, mark_invalid (it\<lparr>err_off := p\<rparr>))
            else Ret (True, Some (key_at it, data ! n), u, it\<lparr>err_off := 0\<rparr>))"
    using sw o by (simp add: bson_iter_next_internal_def Let_def len_def [symmetric] scan p_def [symmetric]
        it2_def [symmetric] read_byte_in)
  show ?thesis
    using assms(1) marks p unfolding run step_marks_def
    by (auto simp: mark_invalid_def offsets_at_def elim!: then_do_RetE split: sum.splits prod.splits if_splits)
qed

lemma find_nul_exists:
  assumes "0 \<in> set (drop p data)"
  shows "\<exists>z. find_nul data p = Some z"
proof -
  have "length (takeWhile (\<lambda>b. b \<noteq> 0) (drop p data)) \<noteq> length (drop p data)"
    using assms takeWhile_eq_all_conv [of "\<lambda>b. b \<noteq> 0" "drop p data"] by (metis takeWhile_eq_take take_all_iff order_refl)
  then have "length (takeWhile (\<lambda>b. b \<noteq> 0) (drop p data)) < length (drop p data)"
    using length_takeWhile_le [of "\<lambda>b. b \<noteq> 0" "drop p data"] by linarith
  then show ?thesis by (simp add: find_nul_def Let_def)
qed

lemma advance_is:
  assumes "iter_before data n it" and "data ! (length data - 1) = 0"
  shows "\<exists>more it'. bson_iter_next it = Ret (more, it') \<and>
    (if length data \<le> n + 1 then \<not> more \<and> err_off it' = 0
     else case element_at data n of
       None \<Rightarrow> \<not> more \<and> err_off it' \<noteq> 0
     | Some (v, e) \<Rightarrow> more \<and> stands_on data n v e it')"
proof -
  have o: "iter_on data it" "unat (next_off it) = n" "err_off it = 0" "n < length data"
      "sized data (iter_len it)" "raw it = Some data"
    using assms(1) by (simp_all add: iter_before_def iter_on_def)
  note b = sizedD [OF o(5)]
  have n1: "unat (next_off it + 1) = n + 1" using o b by (simp add: u32_simps)
  obtain ok key un it' where r: "bson_iter_next_internal 0 it = Ret (ok, key, un, it')"
    and c: "case element_at data n of
       None \<Rightarrow> \<not> ok \<and> raw it' = None
     | Some (v, e) \<Rightarrow> ok \<and> iter_on data it' \<and> unat (d1 it') = v \<and> unat (next_off it') = e \<and>
         off it' = next_off it \<and> type_at it' = next_off it \<and> key_at it' = next_off it + 1 \<and>
         key = Some (next_off it + 1, data ! n)"
    using bson_iter_next_is_element_at [OF o(1)] o(2) by blast
  show ?thesis
  proof (cases "length data \<le> n + 1")
    case True
    then have "find_nul data (n + 1) = None" by (rule find_nul_end)
    then have "scan_nul data (iter_len it) (next_off it + 1) = Ret None"
      using scan_nul_find [of "iter_len it" data "next_off it + 1"] b n1 o(4) by simp
    then have "\<not> ok \<and> err_off it' = 0"
      using r o by (auto simp: bson_iter_next_internal_def Let_def mark_invalid_def)
    then show ?thesis using True r by (auto simp: bson_iter_next_def)
  next
    case False
    have "Suc (length data - 2) = length data - Suc 0" using False by simp
    then have "0 \<in> set (drop (n + 1) data)"
      using False assms(2) by (auto simp: in_set_conv_nth intro!: exI [of _ "length data - n - 2"])
    then obtain z where z: "find_nul data (n + 1) = Some z" using find_nul_exists by blast
    note m = next_marks [OF r assms(1) z]
    show ?thesis
    proof (cases "element_at data n")
      case None
      then show ?thesis using False c m r by (auto simp: bson_iter_next_def)
    next
      case (Some ve)
      obtain v e where ve: "ve = (v, e)" by (cases ve)
      have "v = z + 1" using Some ve z by (auto simp: element_at_def split: option.splits if_splits)
      moreover have "0 < e" using element_at_after Some ve by fastforce
      ultimately have "ok \<and> stands_on data n v e it'"
        using c m Some ve n1 o(2) by (auto simp: stands_on_def iter_before_def)
      then show ?thesis using False Some ve r by (auto simp: bson_iter_next_def)
    qed
  qed
qed

section \<open>Reading an element\<close>

lemma cstr_to_nul: "find_nul data p = Some z \<Longrightarrow> cstr (drop p data) = take (z - p) (drop p data) \<and> 0 \<in> set (drop p data)"
proof -
  assume f: "find_nul data p = Some z"
  then have z: "z = p + length (takeWhile (\<lambda>b. b \<noteq> 0) (drop p data))" "z < length data"
    by (auto simp: find_nul_def Let_def split: if_splits)
  then have "length (takeWhile (\<lambda>b. b \<noteq> 0) (drop p data)) < length (drop p data)" by simp
  then have "0 \<in> set (drop p data)"
    using takeWhile_eq_all_conv [of "\<lambda>b. b \<noteq> 0" "drop p data"] by fastforce
  moreover have "cstr (drop p data) = take (z - p) (drop p data)"
    unfolding cstr_def by (subst takeWhile_eq_take) (simp add: z(1))
  ultimately show ?thesis by simp
qed

lemma on_element_type:
  assumes "stands_on data n v e it"
  shows "ITER_TYPE it = Ret (data ! n)" and "bson_iter_type it = Ret (data ! n)" and "iter_data it = Ret data"
proof -
  have "n < length data" using assms element_at_after by (fastforce simp: stands_on_def)
  then show t: "ITER_TYPE it = Ret (data ! n)" and "iter_data it = Ret data"
    using assms by (simp_all add: stands_on_def iter_before_def iter_on_def ITER_TYPE_def iter_data_def read_byte_in)
  have "raw it = Some data" "unat (iter_len it) = length data" "5 \<le> length data"
    using assms by (simp_all add: stands_on_def iter_before_def iter_on_def sized_def)
  moreover then have "iter_len it \<noteq> 0" by (intro nonzero_word) auto
  ultimately show "bson_iter_type it = Ret (data ! n)" using t by (simp add: bson_iter_type_def)
qed

lemma on_element_key:
  assumes "stands_on data n v e it"
  shows "bson_iter_key it = Ret (key_of data n v)"
    and "\<exists>w. bson_iter_key_len it = Ret w \<and> unat w = length (key_of data n v)"
    and "read_slice data (unat (key_at it)) (length (key_of data n v)) = Ret (key_of data n v)"
proof -
  obtain z where z: "find_nul data (n + 1) = Some z" "v = z + 1"
    using assms by (auto simp: stands_on_def element_at_def split: option.splits if_splits)
  have b: "n + 1 \<le> z" "z < length data" using find_nul_bounds [OF z(1)] by simp_all
  have k: "unat (key_at it) = n + 1" "unat (d1 it) = v" "iter_data it = Ret data"
    using assms on_element_type(3) [OF assms] by (simp_all add: stands_on_def)
  show "bson_iter_key it = Ret (key_of data n v)"
    using cstr_to_nul [OF z(1)] z(2) k by (simp add: bson_iter_key_def read_cstr_def key_of_def)
  have l: "length (key_of data n v) = v - n - 2" using b z(2) by (simp add: key_of_def)
  have "key_at it < d1 it" using k b z(2) by (simp add: word_less_nat_alt)
  moreover have "unat (d1 it - key_at it - 1) = v - n - 2"
    using unat_sub_two [of "key_at it" 1 "d1 it"] k b z(2) by simp
  ultimately show "\<exists>w. bson_iter_key_len it = Ret w \<and> unat w = length (key_of data n v)"
    by (simp add: bson_iter_key_len_def l)
  show "read_slice data (unat (key_at it)) (length (key_of data n v)) = Ret (key_of data n v)"
    using k b z(2) by (simp add: read_slice_def l) (simp add: key_of_def)
qed

lemma value_end_at: "stands_on data n v e it \<Longrightarrow> value_end data (data ! n) v = Some e \<and> e < length data"
  by (auto simp: stands_on_def element_at_def split: option.splits if_splits)

text \<open>Reading text, subdocuments and code.\<close>

lemma slice_in: "i + k \<le> length data \<Longrightarrow> read_slice data i k = Ret (take k (drop i data))"
  by (simp add: read_slice_def)

lemma on_text:
  assumes "stands_on data n v e it" and "data ! n \<in> {2, 13, 14, 12}"
  shows "read_u32 data (unat (d1 it)) = Ret (word_of_nat (u32_at data v))"
    and "unat (word_of_nat (u32_at data v) - 1 :: u32) = u32_at data v - 1"
    and "read_slice data (unat (d2 it)) (u32_at data v - 1) = Ret (take (u32_at data v - 1) (drop (v + 4) data))"
proof -
  have l: "0 < u32_at data v" "v + 4 + u32_at data v \<le> length data"
    using value_end_at [OF assms(1)] assms(2) by (auto simp: value_end_def Let_def split: if_splits)
  have "unat (d1 it) = v" "unat (d2 it) = v + 4" using assms by (auto simp: stands_on_def offsets_at_def)
  then show "read_u32 data (unat (d1 it)) = Ret (word_of_nat (u32_at data v))"
    "read_slice data (unat (d2 it)) (u32_at data v - 1) = Ret (take (u32_at data v - 1) (drop (v + 4) data))"
    using l by (simp_all add: read_u32_in slice_in)
  show "unat (word_of_nat (u32_at data v) - 1 :: u32) = u32_at data v - 1"
    using l(1) by (subst unat_sub_small) (simp_all add: unat_u32_at)
qed

lemma on_subdocument:
  assumes "stands_on data n v e it" and "data ! n \<in> {3, 4}"
  shows "get_subdocument it = Ret (bson_init_static (take (u32_at data v) (drop v data)))"
proof -
  have "v + 4 < length data" "v + u32_at data v \<le> length data"
    using value_end_at [OF assms(1)] assms(2) by (auto simp: value_end_def Let_def split: if_splits)
  moreover have "unat (d1 it) = v" using assms by (simp add: stands_on_def)
  ultimately show ?thesis
    using on_element_type(3) [OF assms(1)] by (simp add: get_subdocument_def read_u32_in slice_in unat_u32_at)
qed

lemma on_regex:
  assumes "stands_on data n v e it" and "data ! n = 11"
  obtains q where "find_nul data v = Some q"
    and "bson_iter_regex it = Ret (Some (cstr (drop v data), cstr (drop (q + 1) data)))"
proof -
  obtain q r where q: "find_nul data v = Some q" "find_nul data (q + 1) = Some r"
    using value_end_at [OF assms(1)] assms(2) by (auto simp: value_end_def Let_def split: option.splits)
  have d: "unat (d1 it) = v" "unat (d2 it) = q + 1" using assms q(1) by (auto simp: stands_on_def offsets_at_def)
  have "bson_iter_regex it = Ret (Some (cstr (drop v data), cstr (drop (q + 1) data)))"
    using on_element_type(1,3) [OF assms(1)] assms(2) d cstr_to_nul [OF q(1)] cstr_to_nul [OF q(2)]
    by (simp add: bson_iter_regex_def read_cstr_def)
  then show ?thesis using that q(1) by blast
qed

lemma on_codewscope:
  assumes "stands_on data n v e it" and "data ! n = 15"
  defines "l \<equiv> u32_at data (v + 4)"
  shows "bson_iter_codewscope it = Ret (Some (take (l - 1) (drop (v + 8) data),
    take (u32_at data (v + 8 + l)) (drop (v + 8 + l) data)))"
proof -
  have l: "0 < l" "12 + l < u32_at data v" "8 + l + u32_at data (v + 8 + l) = u32_at data v"
      "v + u32_at data v < length data" "v + 14 < length data"
    using value_end_at [OF assms(1)] assms(2) by (auto simp: value_end_def Let_def l_def split: if_splits)
  have d: "unat (d2 it) = v + 4" "unat (d3 it) = v + 8" "unat (d4 it) = v + 8 + l"
    using assms by (simp_all add: stands_on_def offsets_at_def)
  define lw :: u32 where "lw = word_of_nat l"
  have lw: "unat lw = l" by (simp add: lw_def l_def unat_u32_at)
  then have "0 < lw" "unat (lw - 1) = l - 1" using l(1) by (simp_all add: word_less_nat_alt unat_sub_small)
  moreover have "read_u32 data (v + 4) = Ret lw" using l by (simp add: read_u32_in lw_def l_def)
  ultimately show ?thesis
    using on_element_type(1,3) [OF assms(1)] assms(2) d l
    by (simp add: bson_iter_codewscope_def read_u32_in slice_in unat_u32_at)
qed

section \<open>Verdicts\<close>

text \<open>
  A verdict \<open>P\<close>: the function returns \<open>P\<close>, leaves the validator alone when \<open>P\<close> holds and records an
  error otherwise.
\<close>

definition judges :: "validator \<Rightarrow> bool \<Rightarrow> verdict \<Rightarrow> bool" where
  "judges self P r \<longleftrightarrow> (\<exists>self'. r = Ret (P, self') \<and> (if P then self' = self else error_code self' \<noteq> 0))"

named_theorems judgements \<open>verdicts of sequences\<close>

lemma judges_Ret [judgements]: "judges self True (Ret (True, self))"
  by (simp add: judges_def)

lemma judges_with_error [judgements]:
  "code \<noteq> 0 \<Longrightarrow> (c \<Longrightarrow> judges self P k) \<Longrightarrow> judges self (c \<and> P) (require_with_error c i code self k)"
  by (auto simp: judges_def require_with_error_def)

lemma judges_require [judgements]:
  "judges self P r \<Longrightarrow> (P \<Longrightarrow> judges self Q (k self)) \<Longrightarrow> judges self (P \<and> Q) (require r k)"
  by (cases P) (auto simp: judges_def require_def)

lemma judges_eq: "judges self P r \<Longrightarrow> P = Q \<Longrightarrow> judges self Q r"
  by simp

lemma judges_then:
  assumes "judges self0 P r" and "h self0 = self" and "\<And>s. error_code s \<noteq> 0 \<Longrightarrow> error_code (g s) \<noteq> 0"
  shows "judges self P (then_do r (\<lambda>(ok, s). if ok then Ret (True, h s) else Ret (False, g s)))"
  using assms by (cases P) (auto simp: judges_def)

lemma codes_nonzero [simp]:
  "BSON_VALIDATE_UTF8 \<noteq> 0" "BSON_VALIDATE_DOLLAR_KEYS \<noteq> 0" "BSON_VALIDATE_DOT_KEYS \<noteq> 0"
  "BSON_VALIDATE_UTF8_ALLOW_NULL \<noteq> 0" "BSON_VALIDATE_EMPTY_KEYS \<noteq> 0" "BSON_VALIDATE_CORRUPT \<noteq> 0"
  by (simp_all add: validate_codes)

lemma judges_text: "judges self (valid_text ps u) (maybe_validate_utf8 ps self i u)"
  by (simp add: judges_def valid_text_def maybe_validate_utf8_def require_with_error_def validate_codes)

lemma judges_key:
  assumes "stands_on data n v e it"
  shows "judges self (valid_key ps (key_of data n v)) (validate_element_key ps self it)"
proof -
  obtain w where w: "bson_iter_key_len it = Ret w" "unat w = length (key_of data n v)"
    using on_element_key(2) [OF assms] by blast
  have "w \<noteq> 0 \<longleftrightarrow> key_of data n v \<noteq> []"
    using w(2) by (metis length_0_conv unsigned_0 unsigned_eq_0_iff)
  then have r: "validate_element_key ps self it =
      require (maybe_validate_utf8 ps self (off it) (key_of data n v)) (\<lambda>self.
        require_with_error (check_special_dollar_keys ps \<longrightarrow> take 1 (key_of data n v) \<noteq> ascii ''$'')
          (off it) BSON_VALIDATE_DOLLAR_KEYS self
        (require_with_error (\<not> allow_empty_keys ps \<longrightarrow> key_of data n v \<noteq> []) (off it) BSON_VALIDATE_EMPTY_KEYS self
        (require_with_error (\<not> allow_dot_in_keys ps \<longrightarrow> 46 \<notin> set (key_of data n v)) (off it) BSON_VALIDATE_DOT_KEYS self
        (Ret (True, self)))))"
    using on_element_key(1,3) [OF assms] on_element_type(3) [OF assms] w
    by (simp add: validate_element_key_def)
  show ?thesis
    unfolding r by (rule judges_eq, (rule judgements judges_text codes_nonzero)+) (auto simp: valid_key_def)
qed

text \<open>What the recursive call has to do, and the verdict on a value.\<close>

definition judges_docs :: "validate_doc_call \<Rightarrow> (validation_params \<Rightarrow> byte list \<Rightarrow> bool) \<Rightarrow> bool" where
  "judges_docs doc spec \<longleftrightarrow>
     (\<forall>ps self sub. bson_init_static sub \<noteq> None \<longrightarrow> judges self (spec ps sub) (doc ps self sub))"

lemma init_static_same: "bson_init_static sub = Some s \<Longrightarrow> s = sub"
  by (auto simp: bson_init_static_def Let_def split: if_splits)

lemma judges_value:
  assumes "stands_on data n v e it" and "judges_docs doc spec"
  shows "judges self (valid_value spec ps data (data ! n) v) (validate_element_value doc ps self it)"
proof -
  note ty = on_element_type [OF assms(1)]
  let ?t = "data ! n" and ?l = "u32_at data v" and ?l2 = "u32_at data (v + 4)"
  have docs: "judges self' (spec ps' sub) (doc ps' self' sub)" if "bson_init_static sub \<noteq> None" for ps' self' sub
    using that assms(2) by (simp add: judges_docs_def)
  consider "?t \<in> {2, 13, 14, 12}" | "?t \<in> {3, 4}" | "?t = 11" | "?t = 15"
    | "?t \<in> {1, 10, 7, 16, 18, 255, 127, 17, 6, 19, 9, 8, 5}"
    | "?t \<notin> {9, 1, 18, 17, 13, 14, 2, 5, 4, 3, 7, 8, 11, 12, 15, 16, 19, 127, 255, 10, 6}"
    by blast
  then show ?thesis
  proof cases
    case 1
    then have "valid_value spec ps data ?t v = valid_text ps (take (?l - 1) (drop (v + 4) data))"
      by (auto simp: valid_value_def Let_def)
    moreover have "validate_element_value doc ps self it =
        maybe_validate_utf8 ps self (off it) (take (?l - 1) (drop (v + 4) data))"
      using 1 ty on_text [OF assms(1) 1]
      by (auto simp: validate_element_value_def validate_stringlike_element_def)
    ultimately show ?thesis using judges_text by simp
  next
    case 2
    let ?sub = "take ?l (drop v data)"
    obtain w where w: "bson_iter_key_len it = Ret w" using on_element_key(2) [OF assms(1)] by blast
    have p: "valid_value spec ps data ?t v = (bson_init_static ?sub \<noteq> None \<and> spec ps ?sub)"
      using 2 by (auto simp: valid_value_def Let_def)
    have r: "validate_element_value doc ps self it =
        require_with_error (bson_init_static ?sub \<noteq> None) (off it) BSON_VALIDATE_CORRUPT self
          (then_do (doc ps self (the (bson_init_static ?sub))) (\<lambda>(ok, self).
             if ok then Ret (True, self)
             else Ret (False, self\<lparr>error_offset := error_offset self + ucast (off it + w + 2)\<rparr>)))"
      using 2 ty on_subdocument [OF assms(1) 2] w by (auto simp: validate_element_value_def cong: if_cong)
    show ?thesis
      unfolding p r
    proof (rule judgements codes_nonzero)+
      assume i: "bson_init_static ?sub \<noteq> None"
      then have sub: "the (bson_init_static ?sub) = ?sub" using init_static_same by fastforce
      show "judges self (spec ps ?sub)
          (then_do (doc ps self (the (bson_init_static ?sub))) (\<lambda>(ok, self).
             if ok then Ret (True, self)
             else Ret (False, self\<lparr>error_offset := error_offset self + ucast (off it + w + 2)\<rparr>)))"
        unfolding sub by (rule judges_then [OF docs [OF i]]) simp_all
    qed
  next
    case 3
    obtain q where q: "find_nul data v = Some q"
        "bson_iter_regex it = Ret (Some (cstr (drop v data), cstr (drop (q + 1) data)))"
      by (rule on_regex [OF assms(1) 3])
    then have p: "valid_value spec ps data ?t v =
        (valid_text ps (cstr (drop v data)) \<and> valid_text ps (cstr (drop (q + 1) data)))"
      using 3 by (simp add: valid_value_def)
    have r: "validate_element_value doc ps self it =
        require (maybe_validate_utf8 ps self (off it) (cstr (drop v data))) (\<lambda>self.
          maybe_validate_utf8 ps self (off it) (cstr (drop (q + 1) data)))"
      using 3 ty q by (simp add: validate_element_value_def validate_regex_elem_def)
    show ?thesis unfolding p r by (rule judgements judges_text)+
  next
    case 4
    let ?scope = "take (u32_at data (v + 8 + ?l2)) (drop (v + 8 + ?l2) data)"
      and ?code = "take (?l2 - 1) (drop (v + 8) data)"
    have p: "valid_value spec ps data ?t v =
        (bson_init_static ?scope \<noteq> None \<and> (valid_text ps ?code \<and> spec scope_params ?scope))"
      using 4 by (simp add: valid_value_def Let_def)
    have r: "validate_element_value doc ps self it =
        require_with_error (bson_init_static ?scope \<noteq> None) (off it) BSON_VALIDATE_CORRUPT self
          (require (maybe_validate_utf8 ps self (off it) ?code) (\<lambda>self.
             then_do (doc scope_params zero_validator ?scope) (\<lambda>(ok, v).
               if ok then Ret (True, self)
               else Ret (False, self\<lparr>error_code := error_code v,
                 error_offset := error_offset v + ucast (off it)\<rparr>))))"
      using 4 ty on_codewscope [OF assms(1) 4]
      by (simp add: validate_element_value_def validate_codewscope_elem_def)
    show ?thesis
      unfolding p r
    proof (rule judgements judges_text codes_nonzero)+
      assume i: "bson_init_static ?scope \<noteq> None"
      show "judges self (spec scope_params ?scope)
          (then_do (doc scope_params zero_validator ?scope) (\<lambda>(ok, v).
             if ok then Ret (True, self)
             else Ret (False, self\<lparr>error_code := error_code v, error_offset := error_offset v + ucast (off it)\<rparr>)))"
        by (rule judges_then [OF docs [OF i]]) simp_all
    qed
  next
    case 5
    then have "valid_value spec ps data ?t v" by (elim insertE emptyE) (simp_all add: valid_value_def Let_def)
    moreover have "validate_element_value doc ps self it = Ret (True, self)"
      using 5 ty by (elim insertE emptyE) (simp_all add: validate_element_value_def)
    ultimately show ?thesis by (simp add: judges_def)
  next
    case 6
    then show ?thesis using value_end_at [OF assms(1)] by (simp add: value_end_def)
  qed
qed

section \<open>Loops over elements\<close>

text \<open>The elements from \<open>n\<close> on fill the document and satisfy \<open>Q\<close> together.\<close>

definition parsed :: "byte list \<Rightarrow> nat \<Rightarrow> ((nat \<times> nat) list \<Rightarrow> bool) \<Rightarrow> bool" where
  "parsed data n Q \<longleftrightarrow> (\<exists>es. parse_elements data n = Some es \<and> Q es)"

lemma parsed_conj: "(A \<and> parsed data n Q) = parsed data n (\<lambda>es. A \<and> Q es)"
  by (auto simp: parsed_def)

lemma parsed_cong: "(\<And>es. Q es = Q' es) \<Longrightarrow> parsed data n Q = parsed data n Q'"
  by (simp add: parsed_def)

lemma parsed_step:
  "length data \<le> n + 1 \<Longrightarrow> parsed data n Q = Q []"
  "n + 1 < length data \<Longrightarrow> element_at data n = None \<Longrightarrow> \<not> parsed data n Q"
  "n + 1 < length data \<Longrightarrow> element_at data n = Some (v, e) \<Longrightarrow> parsed data n Q = parsed data e (\<lambda>es. Q ((n, v) # es))"
  by (auto simp: parsed_def parse_elements.simps [of data n])

text \<open>
  \<open>require_advance\<close> as one step of parsing. The rest of the function, \<open>k\<close>, is judged at the end and on
  the next element.
\<close>

lemma judges_advance:
  assumes "iter_before data n it" and "data ! (length data - 1) = 0"
    and "\<And>it'. judges self (Q []) (k True it')"
    and "\<And>v e it'. stands_on data n v e it' \<Longrightarrow> judges self (parsed data e (\<lambda>es. Q ((n, v) # es))) (k False it')"
  shows "judges self (parsed data n Q) (require_advance self it k)"
proof -
  obtain more it' where r: "bson_iter_next it = Ret (more, it')"
    and c: "if length data \<le> n + 1 then \<not> more \<and> err_off it' = 0
     else case element_at data n of
       None \<Rightarrow> \<not> more \<and> err_off it' \<noteq> 0
     | Some (v, e) \<Rightarrow> more \<and> stands_on data n v e it'"
    using advance_is [OF assms(1,2)] by blast
  have run: "require_advance self it k =
      (if \<not> more \<and> err_off it' \<noteq> 0
       then require_with_error False (err_off it') BSON_VALIDATE_CORRUPT self (k True it')
       else k (\<not> more) it')"
    by (simp add: require_advance_def r)
  consider "length data \<le> n + 1" | "n + 1 < length data" "element_at data n = None"
    | v e where "n + 1 < length data" "element_at data n = Some (v, e)"
    by (metis not_le option.exhaust surj_pair)
  then show ?thesis
  proof cases
    case 1
    then show ?thesis using c assms(3) by (simp add: run parsed_step)
  next
    case 2
    then show ?thesis
      using c by (simp add: run parsed_step judges_def require_with_error_def validate_codes)
  next
    case 3
    then show ?thesis using c assms(4) by (simp add: run parsed_step)
  qed
qed

definition valid_element ::
  "(validation_params \<Rightarrow> byte list \<Rightarrow> bool) \<Rightarrow> validation_params \<Rightarrow> byte list \<Rightarrow> nat \<times> nat \<Rightarrow> bool" where
  "valid_element spec ps data x \<longleftrightarrow>
     (case x of (n, v) \<Rightarrow> valid_key ps (key_of data n v) \<and> valid_value spec ps data (data ! n) v)"

lemma judges_element:
  assumes "stands_on data n v e it" and "judges_docs doc spec"
  shows "judges self (valid_element spec ps data (n, v)) (validate_element doc ps self it)"
  unfolding validate_element_def valid_element_def prod.case
  by (rule judges_require judges_key judges_value assms)+

lemma judges_remaining:
  assumes "stands_on data n v e it" and "judges_docs doc spec" and "data ! (length data - 1) = 0"
    and "length data - n \<le> m"
  shows "judges self (parsed data e (\<lambda>es. \<forall>x \<in> set ((n, v) # es). valid_element spec ps data x))
    (validate_remaining_elements doc m ps self it)"
  using assms(1,4)
proof (induction m arbitrary: n v e it)
  case 0
  then show ?case using element_at_after by (fastforce simp: stands_on_def)
next
  case (Suc m)
  have b: "iter_before data e it" "n < e" "e < length data"
    using Suc.prems(1) element_at_after by (fastforce simp: stands_on_def)+
  have "judges self (valid_element spec ps data (n, v) \<and> parsed data e (\<lambda>es. \<forall>x \<in> set es. valid_element spec ps data x))
      (validate_remaining_elements doc (Suc m) ps self it)"
    unfolding validate_remaining_elements.simps
  proof (rule judges_require [OF judges_element [OF Suc.prems(1) assms(2)]], rule judges_advance [OF b(1) assms(3)])
    show "judges self (parsed data e' (\<lambda>es. \<forall>x \<in> set ((e, v') # es). valid_element spec ps data x))
        (if False then Ret (True, self) else validate_remaining_elements doc m ps self it')"
      if "stands_on data e v' e' it'" for v' e' it'
      using Suc.IH [OF that] Suc.prems(2) b by simp
  qed (simp add: judges_def)
  then show ?case by (rule judges_eq) (simp add: parsed_conj)
qed

lemma on_key_is: "stands_on data n v e it \<Longrightarrow> key_is it k = Ret (key_of data n v = ascii k)"
  by (simp add: key_is_def on_element_key)

lemma judges_rest:
  assumes "iter_before data e it" and "judges_docs doc spec" and "data ! (length data - 1) = 0"
    and "length data \<le> m"
  shows "judges self (parsed data e (\<lambda>es. \<forall>x \<in> set es. valid_element spec ps data x))
    (require_advance self it (\<lambda>finished it.
       if finished then Ret (True, self) else validate_remaining_elements doc m ps self it))"
proof (rule judges_advance [OF assms(1,3)])
  show "judges self (parsed data e' (\<lambda>es. \<forall>x \<in> set ((n, v) # es). valid_element spec ps data x))
      (if False then Ret (True, self) else validate_remaining_elements doc m ps self it')"
    if "stands_on data n v e' it'" for n v e' it'
    using judges_remaining [OF that assms(2,3)] assms(4) by simp
qed (simp add: judges_def)

text \<open>The elements after \<open>$id\<close>, and those after \<open>$ref\<close>.\<close>

definition after_id ::
  "(validation_params \<Rightarrow> byte list \<Rightarrow> bool) \<Rightarrow> validation_params \<Rightarrow> byte list \<Rightarrow> (nat \<times> nat) list \<Rightarrow> bool" where
  "after_id spec ps data es =
     (case es of
        [] \<Rightarrow> True
      | (n, v) # es' \<Rightarrow>
          if key_of data n v = ascii ''$db''
          then data ! n = BSON_TYPE_UTF8 \<and> valid_value spec ps data (data ! n) v \<and>
            (\<forall>x \<in> set es'. valid_element spec ps data x)
          else \<forall>x \<in> set es. valid_element spec ps data x)"

definition after_ref ::
  "(validation_params \<Rightarrow> byte list \<Rightarrow> bool) \<Rightarrow> validation_params \<Rightarrow> byte list \<Rightarrow> (nat \<times> nat) list \<Rightarrow> bool" where
  "after_ref spec ps data es =
     (case es of
        [] \<Rightarrow> False
      | (n, v) # es' \<Rightarrow>
          key_of data n v = ascii ''$id'' \<and> valid_value spec ps data (data ! n) v \<and> after_id spec ps data es')"

lemma judges_after_id:
  assumes "iter_before data e it" and "judges_docs doc spec" and "data ! (length data - 1) = 0"
    and "length data \<le> m"
  shows "judges self (parsed data e (after_id spec ps data))
    (require_advance self it (\<lambda>finished it.
       if finished then Ret (True, self)
       else then_do (key_is it ''$db'') (\<lambda>is_db.
         if is_db then
           then_do (bson_iter_type it) (\<lambda>t.
           require_with_error (t = BSON_TYPE_UTF8) (off it) BSON_VALIDATE_DOLLAR_KEYS self
           (require (validate_element_value doc ps self it) (\<lambda>self.
           require_advance self it (\<lambda>finished it.
             if finished then Ret (True, self) else validate_remaining_elements doc m ps self it))))
         else validate_remaining_elements doc m ps self it)))"
proof (rule judges_advance [OF assms(1,3)], goal_cases)
  case 1
  then show ?case by (simp add: judges_def after_id_def)
next
  case (2 v e' it')
  have b: "iter_before data e' it'" using 2 by (simp add: stands_on_def)
  show ?case
  proof (cases "key_of data e v = ascii ''$db''")
    case True
    have "judges self (data ! e = BSON_TYPE_UTF8 \<and> valid_value spec ps data (data ! e) v \<and>
          parsed data e' (\<lambda>es. \<forall>x \<in> set es. valid_element spec ps data x))
        (require_with_error (data ! e = BSON_TYPE_UTF8) (off it') BSON_VALIDATE_DOLLAR_KEYS self
           (require (validate_element_value doc ps self it') (\<lambda>self.
           require_advance self it' (\<lambda>finished it.
             if finished then Ret (True, self) else validate_remaining_elements doc m ps self it))))"
      by (rule judgements codes_nonzero judges_value [OF 2 assms(2)] judges_rest [OF b assms(2-4)])+
    then show ?thesis
      using True on_key_is [OF 2] on_element_type(2) [OF 2] by (simp add: parsed_conj after_id_def)
  next
    case False
    then show ?thesis
      using judges_remaining [OF 2 assms(2,3), of m self ps] assms(4) on_key_is [OF 2]
      by (simp add: after_id_def)
  qed
qed

lemma judges_dbref:
  assumes "stands_on data n v e it" and "judges_docs doc spec" and "data ! (length data - 1) = 0"
    and "length data \<le> m" and "key_of data n v = ascii ''$ref''"
  shows "judges self (parsed data e (\<lambda>es. data ! n = BSON_TYPE_UTF8 \<and>
      valid_value spec ps data (data ! n) v \<and> after_ref spec ps data es))
    (validate_dbref doc m ps self it)"
proof -
  have b: "iter_before data e it" using assms(1) by (simp add: stands_on_def)
  have "judges self (data ! n = BSON_TYPE_UTF8 \<and> valid_value spec ps data (data ! n) v \<and>
      parsed data e (after_ref spec ps data)) (validate_dbref doc m ps self it)"
    unfolding validate_dbref_def on_key_is [OF assms(1)] assms(5) on_element_type(2) [OF assms(1)] then_do.simps
      assert_that_simps simp_thms
  proof (rule judges_with_error, rule codes_nonzero,
      rule judges_require [OF judges_value [OF assms(1,2)]], rule judges_advance [OF b assms(3)], goal_cases)
    case 1
    then show ?case by (simp add: judges_def require_with_error_def validate_codes after_ref_def)
  next
    case (2 v' e' it')
    have b': "iter_before data e' it'" using 2(3) by (simp add: stands_on_def)
    show ?case
      unfolding if_False on_key_is [OF 2(3)] then_do.simps
    proof (rule judges_eq, rule judges_with_error, rule codes_nonzero,
        rule judges_require [OF judges_value [OF 2(3) assms(2)]], rule judges_after_id [OF b' assms(2-4)])
      show "(key_of data e v' = ascii ''$id'' \<and> valid_value spec ps data (data ! e) v' \<and>
          parsed data e' (after_id spec ps data)) = parsed data e' (\<lambda>es. after_ref spec ps data ((e, v') # es))"
        by (simp add: parsed_conj after_ref_def)
    qed
  qed
  then show ?thesis by (rule judges_eq) (simp add: parsed_conj)
qed

text \<open>The elements of a document, from the first on.\<close>

lemma valid_elements_plain:
  "\<not> (check_special_dollar_keys ps \<and> take 1 (key_of data n v) = ascii ''$'') \<Longrightarrow>
     valid_elements spec ps data ((n, v) # es) = (\<forall>x \<in> set ((n, v) # es). valid_element spec ps data x)"
  by (auto simp: valid_elements_def dollar_prefix_def elements_info_def valid_element_def)

lemma valid_elements_dollar:
  assumes "check_special_dollar_keys ps" and "take 1 (key_of data n v) = ascii ''$''"
  shows "valid_elements spec ps data ((n, v) # es) \<longleftrightarrow>
    key_of data n v = ascii ''$ref'' \<and> data ! n = BSON_TYPE_UTF8 \<and> valid_value spec ps data (data ! n) v \<and>
    after_ref spec ps data es"
proof (cases es)
  case Nil
  then show ?thesis using assms
    by (simp add: valid_elements_def dollar_prefix_def elements_info_def after_ref_def)
next
  case (Cons x2 es2)
  obtain n2 v2 where x2: "x2 = (n2, v2)" by (cases x2)
  show ?thesis
  proof (cases es2)
    case Nil
    then show ?thesis using assms Cons x2
      by (auto simp: valid_elements_def dollar_prefix_def elements_info_def after_ref_def after_id_def)
  next
    case (Cons x3 es3)
    obtain n3 v3 where "x3 = (n3, v3)" by (cases x3)
    then show ?thesis using assms \<open>es = x2 # es2\<close> Cons x2
      by (auto simp: valid_elements_def dollar_prefix_def elements_info_def after_ref_def after_id_def
          valid_element_def)
  qed
qed

lemma judges_dollar_doc:
  assumes "stands_on data n v e it" and "judges_docs doc spec" and "data ! (length data - 1) = 0"
    and "length data \<le> m" and "check_special_dollar_keys ps" and "take 1 (key_of data n v) = ascii ''$''"
  shows "judges self (parsed data e (\<lambda>es. valid_elements spec ps data ((n, v) # es)))
    (validate_dollar_doc doc m ps self it)"
proof (cases "key_of data n v = ascii ''$ref''")
  case True
  then show ?thesis
    using judges_dbref [OF assms(1-4) True, of self ps] on_key_is [OF assms(1)]
    by (simp add: validate_dollar_doc_def valid_elements_dollar [OF assms(5,6)])
next
  case False
  then have p: "\<not> parsed data e (\<lambda>es. valid_elements spec ps data ((n, v) # es))"
    by (simp add: parsed_def valid_elements_dollar [OF assms(5,6)])
  have "\<not> valid_key ps (key_of data n v)" using assms(5,6) by (simp add: valid_key_def)
  then obtain self' where "validate_element_key ps self it = Ret (False, self')" "error_code self' \<noteq> 0"
    using judges_key [OF assms(1), of self ps] by (auto simp: judges_def)
  then show ?thesis using False p on_key_is [OF assms(1)]
    by (simp add: validate_dollar_doc_def judges_def)
qed

lemma judges_doc_levels:
  "bson_init_static bson \<noteq> None \<Longrightarrow>
     judges self (valid_doc (BSON_VALIDATION_MAX_NESTING_DEPTH + 1 - depth) ps bson) (validate_doc ps self bson depth)"
proof (induction "BSON_VALIDATION_MAX_NESTING_DEPTH + 1 - depth" arbitrary: ps self bson depth)
  case 0
  then have "\<not> depth \<le> BSON_VALIDATION_MAX_NESTING_DEPTH" by simp
  then show ?case using 0(1)
    by (simp add: validate_doc.simps [of ps self bson depth] judges_def require_with_error_def valid_doc.simps
        validate_codes)
next
  case (Suc levels)
  then have d: "depth \<le> BSON_VALIDATION_MAX_NESTING_DEPTH"
    "levels = BSON_VALIDATION_MAX_NESTING_DEPTH + 1 - (depth + 1)" by simp_all
  have i: "bson \<noteq> []" "5 \<le> length bson" "length bson < 2147483648" "bson ! (length bson - 1) = 0"
    using Suc.prems by (auto simp: bson_init_static_def BSON_MAX_SIZE_def split: if_splits)
  let ?doc = "\<lambda>ps self sub. validate_doc ps self sub (depth + 1)"
  have docs: "judges_docs ?doc (valid_doc levels)"
    using Suc.hyps(1) [OF d(2)] d(2) by (simp add: judges_docs_def)
  define it where "it = snd (bson_iter_init bson)"
  have it: "bson_iter_init bson = (True, it)" using i by (simp add: it_def bson_iter_init_def)
  have b: "iter_before bson 4 it"
    using i by (simp add: it_def bson_iter_init_def iter_before_def iter_on_def sized_def u32_simps zero_iter_def)
  have "judges self (depth \<le> BSON_VALIDATION_MAX_NESTING_DEPTH \<and> True \<and>
      parsed bson 4 (valid_elements (valid_doc levels) ps bson)) (validate_doc ps self bson depth)"
    unfolding validate_doc.simps [of ps self bson depth] it prod.case
  proof (rule judges_with_error judges_advance [OF b i(4)] codes_nonzero)+
    show "judges self (valid_elements (valid_doc levels) ps bson [])
       (if True then Ret (True, self)
        else then_do (bson_iter_key it') f)" for it' f
      by (simp add: judges_def valid_elements_def dollar_prefix_def elements_info_def)
  next
    fix v e it'
    assume s: "stands_on bson 4 v e it'"
    show "judges self (parsed bson e (\<lambda>es. valid_elements (valid_doc levels) ps bson ((4, v) # es)))
       (if False then Ret (True, self)
        else then_do (bson_iter_key it') (\<lambda>key.
          if check_special_dollar_keys ps \<and> take 1 key = ascii ''$''
          then validate_dollar_doc ?doc (length bson) ps self it'
          else validate_remaining_elements ?doc (length bson) ps self it'))"
    proof (cases "check_special_dollar_keys ps \<and> take 1 (key_of bson 4 v) = ascii ''$''")
      case True
      then show ?thesis
        using judges_dollar_doc [OF s docs i(4) order_refl] on_element_key(1) [OF s] by simp
    next
      case False
      then show ?thesis
        using judges_remaining [OF s docs i(4), of "length bson" self ps] on_element_key(1) [OF s]
        by (auto simp: valid_elements_plain)
    qed
  qed
  moreover have "valid_doc (Suc levels) ps bson = parsed bson 4 (valid_elements (valid_doc levels) ps bson)"
    by (simp add: valid_doc.simps parsed_def split: option.split)
  ultimately show ?case using Suc.hyps(2) d(1) by simp
qed

end
