(* ===== verification/Config_Props.thy ===== *)
theory Config_Props
  imports Config_Facts
begin

text \<open>
  The properties of the configuration: what reaches the script and the logger, how deep a document may
  be nested, and that the conversions between tables and documents are inverse to each other.
\<close>

section \<open>Tables and documents\<close>

text \<open>The document of a Lua table, and the tables that survive: string keys without NUL, each once.\<close>

fun bval_of :: "lua_val \<Rightarrow> bval" and fields_of :: "(lua_val \<times> lua_val) list \<Rightarrow> (byte list \<times> bval) list" where
  "bval_of (LInt i) = BInt64 i"
| "bval_of (LNum d) = BDouble d"
| "bval_of (LStr s) = BUtf8 s"
| "bval_of (LBool b) = BBool b"
| "bval_of (LTab t) = BDoc (fields_of t)"
| "bval_of LNil = BNull"
| "bval_of LOther = BNull"
| "fields_of [] = []"
| "fields_of ((k, v) # es) = (case k of LStr s \<Rightarrow> (s, bval_of v) # fields_of es | _ \<Rightarrow> fields_of es)"

fun plain :: "lua_val \<Rightarrow> bool" and plain_entries :: "(lua_val \<times> lua_val) list \<Rightarrow> bool" where
  "plain LNil = False"
| "plain LOther = False"
| "plain (LStr s) = (0 \<notin> set s)"
| "plain (LTab t) = plain_entries t"
| "plain v = True"
| "plain_entries [] = True"
| "plain_entries ((k, v) # es) =
     ((case k of LStr s \<Rightarrow> 0 \<notin> set s | _ \<Rightarrow> False) \<and> k \<notin> fst ` set es \<and> plain v \<and> plain_entries es)"

lemma cstr_plain: "0 \<notin> set s \<Longrightarrow> cstr s = s"
  unfolding cstr_def by (rule takeWhile_eq_all_conv [THEN iffD2]) auto

lemma plain_element:
  "plain v \<Longrightarrow> element key v = btype (bval_of v) # key @ 0 # bbytes (bval_of v)"
  "plain_entries t \<Longrightarrow> elements t = bfields (fields_of t)"
  by (induction v and t arbitrary: key rule: plain_plain_entries.induct)
    (auto simp: cstr_plain add.commute split: lua_val.splits)

lemma plain_ok:
  "plain v \<Longrightarrow> keys_ok (bval_of v) \<and> string_keyed v"
  "plain_entries t \<Longrightarrow> fields_ok (fields_of t) \<and> string_entries t"
  by (induction v and t rule: plain_plain_entries.induct) (auto split: lua_val.splits)

lemma plain_back:
  "plain v \<Longrightarrow> lua_of (bval_of v) = v"
  "plain_entries t \<Longrightarrow> fst ` set es \<inter> fst ` set t = {} \<Longrightarrow> set_fields es (fields_of t) = es @ t"
proof (induction v and t arbitrary: and es rule: plain_plain_entries.induct)
  case (7 k v es')
  obtain s where k: "k = LStr s" using 7(3) by (auto split: lua_val.splits)
  have v: "lua_of (bval_of v) = v" and n: "v \<noteq> LNil" using 7 by auto
  have "table_set es k v = es @ [(k, v)]" using 7(4) n by (auto simp: table_set_def)
  moreover have "set_fields (es @ [(k, v)]) (fields_of es') = (es @ [(k, v)]) @ es'"
    by (rule 7(2)) (use 7(3,4) in auto)
  ultimately show ?case using k v by simp
qed auto

text \<open>
  C8. A table sent over the wire or stored comes back: the document \<open>bson_from_lua_table\<close> builds of a
  table whose keys are strings without NUL, and whose values are not functions, is turned by
  \<open>push_bson_document\<close> into the same table, at every depth, as long as the Lua stack suffices.
\<close>

theorem table_document_round_trip:
  assumes "plain_entries t" and "grows grow" and "entries_fuel t \<le> n"
    and "length (document (elements t)) \<le> BSON_MAX_SIZE"
    and "fields_depth (fields_of t) \<le> m" and "used + 1 + fields_slots (fields_of t) \<le> LUA_MINSTACK"
  shows "\<exists>doc. bson_from_lua_table grow nt n (LTab t) = Ret (Some (Some doc)) \<and>
    push_bson_document m used doc = Ret (LTab t)"
proof -
  note ok = plain_ok(2) [OF assms(1)] and el = plain_element(2) [OF assms(1)]
  have "bson_from_lua_table grow nt n (LTab t) = Ret (Some (Some (document (elements t))))"
    using append_entries_document [OF assms(2) _ assms(3), of "[]" nt t] ok assms(4)
    by (simp add: bson_from_lua_table_def bson_new_document)
  moreover have "push_bson_document m used (document (elements t)) = Ret (LTab t)"
    using push_bson_document_is [of "fields_of t" m used] ok assms(4-6) el plain_back(2) [OF assms(1), of "[]"]
    by (simp add: pushes_def)
  ultimately show ?thesis by blast
qed

definition chat_message :: "(lua_val \<times> lua_val) list" where
  "chat_message =
     [(LStr [105, 100], LInt 7), (LStr [111, 107], LBool True),
      (LStr [109], LTab [(LStr [120], LStr [104, 105]), (LStr [121], LNum 0)])]"

theorem table_document_round_trip_witness:
  "\<exists>doc. bson_from_lua_table (\<lambda>n. True) (\<lambda>v. []) 9 (LTab chat_message) = Ret (Some (Some doc)) \<and>
    push_bson_document 3 2 doc = Ret (LTab chat_message)"
  by (rule table_document_round_trip)
    (simp_all add: chat_message_def grows_def bson_types cstr_def BSON_MAX_SIZE_def le64_def le_bytes_def
      LUA_MINSTACK_def)

section \<open>The configuration\<close>







section \<open>The table \<open>gear\<close>\<close>















end
