(* ===== verification/Bson_Validate_Props.thy ===== *)
theory Bson_Validate_Props
  imports Bson_Validate_Facts Config_Props
begin

text \<open>
  The properties of validation: UTF-8, the validator against its reference, and what
  \<open>bson_from_buffer\<close> accepts.
\<close>

section \<open>The documents of the program\<close>

fun bval_levels :: "bval \<Rightarrow> nat" and fields_levels :: "(byte list \<times> bval) list \<Rightarrow> nat" where
  "bval_levels (BDoc fs) = Suc (fields_levels fs)"
| "bval_levels (BArr fs) = Suc (fields_levels fs)"
| "bval_levels v = 0"
| "fields_levels [] = 0"
| "fields_levels ((k, v) # fs) = max (bval_levels v) (fields_levels fs)"

fun bval_valid :: "validation_params \<Rightarrow> bval \<Rightarrow> bool" and
  fields_valid :: "validation_params \<Rightarrow> (byte list \<times> bval) list \<Rightarrow> bool" where
  "bval_valid ps (BUtf8 s) = valid_text ps s"
| "bval_valid ps (BDoc fs) = fields_valid ps fs"
| "bval_valid ps (BArr fs) = fields_valid ps fs"
| "bval_valid ps v = True"
| "fields_valid ps [] = True"
| "fields_valid ps ((k, v) # fs) = (valid_key ps k \<and> bval_valid ps v \<and> fields_valid ps fs)"

lemma key_of_bytes: "key_of (pre @ t # k @ 0 # rest) (length pre) (length pre + length k + 2) = k"
  by (simp add: key_of_def)

lemma parsed_fields:
  assumes "length (pre @ bfields fs @ [0]) \<le> BSON_MAX_SIZE" and "fields_ok fs"
    and "\<And>k v pre rest. (k, v) \<in> set fs \<Longrightarrow> length (pre @ bbytes v @ rest) \<le> BSON_MAX_SIZE \<Longrightarrow>
      valid_value spec ps (pre @ bbytes v @ rest) (btype v) (length pre) = ok v"
  shows "parsed (pre @ bfields fs @ [0]) (length pre)
      (\<lambda>es. \<forall>x \<in> set es. valid_element spec ps (pre @ bfields fs @ [0]) x) =
    (\<forall>(k, v) \<in> set fs. valid_key ps k \<and> ok v)"
  using assms
proof (induction fs arbitrary: pre)
  case Nil
  then show ?case by (simp add: parsed_step)
next
  case (Cons f fs)
  obtain k v where f: "f = (k, v)" by (cases f)
  define pre' where "pre' = pre @ btype v # k @ 0 # bbytes v"
  define data where "data = pre' @ bfields fs @ [0]"
  have d: "data = pre @ btype v # k @ 0 # bbytes v @ bfields fs @ [0]" by (simp add: data_def pre'_def)
  have l: "length pre' = length pre + length k + 2 + length (bbytes v)" by (simp add: pre'_def)
  have e: "element_at data (length pre) = Some (length pre + length k + 2, length pre')"
    using element_at_bytes [of pre v k "bfields fs @ [0]"] Cons.prems(1,2) f by (simp add: d l)
  have "valid_value spec ps ((pre @ btype v # k @ [0]) @ bbytes v @ bfields fs @ [0]) (btype v)
      (length (pre @ btype v # k @ [0])) = ok v"
    using Cons.prems(1) f by (intro Cons.prems(3)) auto
  then have "valid_element spec ps data (length pre, length pre + length k + 2) = (valid_key ps k \<and> ok v)"
    using key_of_bytes [of pre "btype v" k "bbytes v @ bfields fs @ [0]"]
    by (simp add: valid_element_def d nth_append)
  moreover have "parsed data (length pre') (\<lambda>es. \<forall>x \<in> set es. valid_element spec ps data x) =
      (\<forall>(k, v) \<in> set fs. valid_key ps k \<and> ok v)"
    unfolding data_def using Cons.prems f by (intro Cons.IH) (auto simp: pre'_def)
  ultimately have "parsed data (length pre) (\<lambda>es. \<forall>x \<in> set es. valid_element spec ps data x) =
      (\<forall>(k, v) \<in> set (f # fs). valid_key ps k \<and> ok v)"
    using e by (simp add: parsed_step(3) f parsed_conj [symmetric] d)
  then show ?case by (simp add: d f)
qed

lemma valid_fields_split:
  "fields_valid ps fs \<and> fields_levels fs \<le> n \<longleftrightarrow>
     (\<forall>(k, v) \<in> set fs. valid_key ps k \<and> bval_valid ps v \<and> bval_levels v \<le> n)"
  by (induction fs) auto

lemma value_in_document:
  assumes "\<And>fs. length (document (bfields fs)) \<le> BSON_MAX_SIZE \<Longrightarrow> fields_ok fs \<Longrightarrow>
      spec ps (document (bfields fs)) = (fields_valid ps fs \<and> fields_levels fs < n)"
    and "length (pre @ bbytes v @ rest) \<le> BSON_MAX_SIZE" and "keys_ok v"
  shows "valid_value spec ps (pre @ bbytes v @ rest) (btype v) (length pre) = (bval_valid ps v \<and> bval_levels v \<le> n)"
proof -
  have sub: "valid_value spec ps (pre @ document (bfields fs) @ rest) t (length pre) =
      (fields_valid ps fs \<and> Suc (fields_levels fs) \<le> n)"
    if "t \<in> {3, 4}" "length (document (bfields fs)) \<le> BSON_MAX_SIZE" "fields_ok fs" for t fs
  proof -
    have "u32_at (pre @ document (bfields fs) @ rest) (length pre) = length (document (bfields fs))"
      using that(2) by (simp add: document_def unat_of_nat BSON_MAX_SIZE_def del: of_nat_add)
    then show ?thesis
      using that assms(1) [OF that(2,3)] init_static_document [of "bfields fs"]
      by (auto simp: valid_value_def Let_def)
  qed
  show ?thesis
  proof (cases v)
    case (BUtf8 s)
    have "u32_at (pre @ bbytes v @ rest) (length pre) = length s + 1"
      using assms(2) BUtf8 by (simp add: unat_of_nat BSON_MAX_SIZE_def del: of_nat_add of_nat_Suc)
    then show ?thesis using BUtf8 by (simp add: valid_value_def bson_types)
  next
    case (BDoc fs)
    then show ?thesis using sub [of 3 fs] assms(2,3) by (simp add: bson_types)
  next
    case (BArr fs)
    then show ?thesis using sub [of 4 fs] assms(2,3) by (simp add: bson_types)
  qed (simp_all add: valid_value_def bson_types Let_def)
qed

lemma valid_document:
  assumes "\<not> check_special_dollar_keys ps"
  shows "length (document (bfields fs)) \<le> BSON_MAX_SIZE \<Longrightarrow> fields_ok fs \<Longrightarrow>
    valid_doc levels ps (document (bfields fs)) = (fields_valid ps fs \<and> fields_levels fs < levels)"
proof (induction levels arbitrary: fs)
  case 0
  then show ?case by (simp add: valid_doc.simps)
next
  case (Suc levels)
  let ?data = "document (bfields fs)"
  let ?hd = "le_bytes (word_of_nat (length (bfields fs) + 5)) :: byte list"
  have d: "?data = ?hd @ bfields fs @ [0]" by (simp add: document_def)
  have plain: "valid_elements spec ps data es = (\<forall>x \<in> set es. valid_element spec ps data x)" for spec data es
    using assms by (auto simp: valid_elements_def dollar_prefix_def valid_element_def)
  have "valid_doc (Suc levels) ps ?data =
      parsed ?data 4 (\<lambda>es. \<forall>x \<in> set es. valid_element (valid_doc levels) ps ?data x)"
    by (simp add: valid_doc.simps parsed_def plain split: option.split)
  also have "\<dots> = (\<forall>(k, v) \<in> set fs. valid_key ps k \<and> (bval_valid ps v \<and> bval_levels v \<le> levels))"
  proof -
    have "length ?hd = 4" by simp
    moreover have "parsed (?hd @ bfields fs @ [0]) (length ?hd)
        (\<lambda>es. \<forall>x \<in> set es. valid_element (valid_doc levels) ps (?hd @ bfields fs @ [0]) x) =
      (\<forall>(k, v) \<in> set fs. valid_key ps k \<and> (bval_valid ps v \<and> bval_levels v \<le> levels))"
    proof (rule parsed_fields)
      fix k v and pre rest :: "byte list"
      assume "(k, v) \<in> set fs" and l: "length (pre @ bbytes v @ rest) \<le> BSON_MAX_SIZE"
      then have "keys_ok v" using field_parts(1) Suc.prems(2) by blast
      then show "valid_value (valid_doc levels) ps (pre @ bbytes v @ rest) (btype v) (length pre) =
          (bval_valid ps v \<and> bval_levels v \<le> levels)"
        by (intro value_in_document Suc.IH l)
    qed (use Suc.prems d in simp_all)
    ultimately show ?thesis by (simp only: d)
  qed
  also have "\<dots> = (fields_valid ps fs \<and> fields_levels fs \<le> levels)" by (simp add: valid_fields_split)
  finally show ?case by (simp add: less_Suc_eq_le)
qed

lemma validate_is_valid_doc:
  assumes "bson_init_static bson \<noteq> None"
  shows "\<exists>v. bson_validate_impl_v2 bson flags = Ret (valid_doc 501 (params_of_flags flags) bson, v) \<and>
    (valid_doc 501 (params_of_flags flags) bson \<longleftrightarrow> error_code v = 0)"
proof -
  let ?P = "valid_doc 501 (params_of_flags flags) bson"
  have "judges zero_validator ?P (validate_doc (params_of_flags flags) zero_validator bson 0)"
    using judges_doc_levels [OF assms, of zero_validator 0] by (simp add: BSON_VALIDATION_MAX_NESTING_DEPTH_def)
  then obtain v where "validate_doc (params_of_flags flags) zero_validator bson 0 = Ret (?P, v)"
      "if ?P then v = zero_validator else error_code v \<noteq> 0"
    by (auto simp: judges_def)
  then show ?thesis by (auto simp: bson_validate_impl_v2_def zero_validator_def split: if_splits)
qed

lemma bson_validate_document:
  assumes "length (document (bfields fs)) \<le> BSON_MAX_SIZE" and "fields_ok fs" and "flags AND 2 = 0"
  shows "bson_validate (document (bfields fs)) flags =
    Ret (fields_valid (params_of_flags flags) fs \<and> fields_levels fs \<le> 500)"
proof -
  have "bson_init_static (document (bfields fs)) \<noteq> None"
    using assms(1) init_static_document [of "bfields fs"] by simp
  moreover have "\<not> check_special_dollar_keys (params_of_flags flags)"
    using assms(3) by (simp add: params_of_flags_def)
  ultimately show ?thesis
    using validate_is_valid_doc [of "document (bfields fs)" flags] valid_document [OF _ assms(1,2), of _ 501]
    by (auto simp: bson_validate_def)
qed

lemma valid_unchecked:
  assumes "allow_invalid_utf8 ps" and "\<not> check_special_dollar_keys ps" and "allow_empty_keys ps"
    and "allow_dot_in_keys ps"
  shows "bval_valid ps v" and "fields_valid ps fs"
  using assms by (induction ps v and ps fs rule: bval_valid_fields_valid.induct) (auto simp: valid_key_def valid_text_def)

lemma from_buffer_document:
  assumes "length (document (bfields fs)) \<le> BSON_MAX_SIZE" and "fields_ok fs"
  shows "bson_from_buffer (document (bfields fs)) =
    Ret (if fields_levels fs \<le> 500 then Some (document (bfields fs)) else None)"
proof -
  have "fields_valid (params_of_flags 0) fs"
    by (rule valid_unchecked) (simp_all add: params_of_flags_def)
  then show ?thesis
    using bson_validate_document [OF assms, of 0] new_from_data_document [of "bfields fs"] assms(1)
    by (simp add: bson_from_buffer_def)
qed

section \<open>UTF-8\<close>

text \<open>
  C24. UTF-8 in libbson: \<open>bson_utf8_get_char\<close> reads back every code point below 2 to the 21 that
  \<open>bson_utf8_from_unichar\<close> wrote, and \<open>bson_utf8_validate\<close> accepts exactly the texts made of the
  encodings of Unicode scalar values (no surrogates, nothing beyond 10FFFF, no overlong form), of
  U+0000 only when it is allowed, then also as the two bytes C0 80.
\<close>

theorem utf8_validate_is_reference:
  assumes "unat c < 2 ^ 21"
  shows "bson_utf8_get_char (utf8_from_unichar c @ rest) = Ret c \<and>
    (bson_utf8_validate u allow_null \<longleftrightarrow> (\<exists>us. u = concat us \<and> (\<forall>v \<in> set us. utf8_unit allow_null v)))"
  using get_char_encoding [of c rest] validate_iff_units [of u allow_null] assms by simp

theorem utf8_validate_is_reference_witness:
  "bson_utf8_get_char [0xE2, 0x82, 0xAC, 0x21] = Ret 0x20AC \<and> \<not> bson_utf8_validate [0xE2, 0x82] False \<and>
   bson_utf8_validate [0xC0, 0x80] True \<and> \<not> bson_utf8_validate [0xC0, 0x80] False"
proof -
  have e: "utf8_from_unichar 0x20AC = [0xE2, 0x82, 0xAC]" by (simp add: utf8_from_unichar_def)
  have "bson_utf8_get_char [0xE2, 0x82, 0xAC, 0x21] = Ret 0x20AC"
    using utf8_validate_is_reference [of "0x20AC" "[0x21]"] by (simp add: e)
  moreover have "bson_utf8_validate [0xC0, 0x80] True"
    using utf8_validate_is_reference [of 0 "[]" "[0xC0, 0x80]" True]
    by (auto intro!: exI [of _ "[[0xC0, 0x80]]"] simp: utf8_unit_def)
  moreover have "\<not> bson_utf8_validate [0xE2, 0x82] False" "\<not> bson_utf8_validate [0xC0, 0x80] False"
    by (simp_all add: bson_utf8_validate.simps utf8_get_sequence_def utf8_add_byte_def utf8_shortest_def)
  ultimately show ?thesis by blast
qed

section \<open>The validator\<close>

text \<open>
  C6. \<open>bson_validate\<close> on any bytes that libbson takes as a document (right length, NUL at the end),
  however broken inside, and with any flags: it reads nothing outside of them, no assertion
  of it fails, it returns, an error code is set if and only if it returns false, and its answer is that of
  the reference: the elements fill the document, texts and keys are as the flags ask, and
  subdocuments and scopes of code are valid themselves, down to 501 levels.
\<close>

theorem validator_is_reference:
  assumes "bson_init_static bson \<noteq> None"
  shows "\<exists>v. bson_validate_impl_v2 bson flags = Ret (valid_doc 501 (params_of_flags flags) bson, v) \<and>
    (valid_doc 501 (params_of_flags flags) bson \<longleftrightarrow> error_code v = 0)"
  by (rule validate_is_valid_doc [OF assms])

text \<open>A document with a subdocument whose int32 ends behind it, and the key of the outer element.\<close>

definition lying_document :: "byte list" where
  "lying_document = [17, 0, 0, 0, 3, 97, 0, 8, 0, 0, 0, 16, 98, 0, 0, 7, 0]"

theorem validator_is_reference_witness:
  "\<exists>v. bson_validate_impl_v2 lying_document 0 = Ret (False, v) \<and> error_code v \<noteq> 0"
proof -
  have "bson_init_static lying_document \<noteq> None"
    by (simp add: lying_document_def bson_init_static_def BSON_MAX_SIZE_def)
  moreover have "\<not> valid_doc 501 (params_of_flags 0) lying_document"
    using valid_doc.simps(2) [of 500 "params_of_flags 0" lying_document]
    by (simp add: lying_document_def parse_elements.simps element_at_def
        find_nul_def value_end_def u32_at_def Let_def valid_elements_def dollar_prefix_def elements_info_def
        valid_value_def)
  ultimately show ?thesis using validator_is_reference [of lying_document 0] by auto
qed

text \<open>
  C25. The document of a Lua table survives its way through a buffer on a little-endian host:
  \<open>bson_to_buffer\<close> copies it whole when the buffer is large enough and fails otherwise, and
  \<open>bson_from_buffer\<close> takes the copied bytes for the same document if and only if the table is nested at
  most 500 levels deep; a deeper one can be written but not read back.
\<close>

theorem document_buffer_round_trip:
  assumes "plain_entries t" and "length (document (elements t)) \<le> BSON_MAX_SIZE" and "0 < buffer_size"
  shows "bson_to_buffer True (Some (document (elements t))) buffer_size =
      (if buffer_size < int (length (document (elements t))) then Ret (- 1, [])
       else Ret (int (length (document (elements t))), document (elements t))) \<and>
    bson_from_buffer (document (elements t)) =
      Ret (if fields_levels (fields_of t) \<le> 500 then Some (document (elements t)) else None)"
proof -
  note el = plain_element(2) [OF assms(1)]
  have "bson_from_buffer (document (elements t)) =
      Ret (if fields_levels (fields_of t) \<le> 500 then Some (document (elements t)) else None)"
    unfolding el by (rule from_buffer_document) (use plain_ok(2) [OF assms(1)] assms(2) el in simp_all)
  then show ?thesis using to_buffer_document [OF assms(2,3)] by simp
qed

theorem document_buffer_round_trip_witness:
  "bson_to_buffer True (Some (document (elements chat_message))) 64 =
     Ret (int (length (document (elements chat_message))), document (elements chat_message)) \<and>
   bson_from_buffer (document (elements chat_message)) = Ret (Some (document (elements chat_message)))"
proof -
  have "plain_entries chat_message" "fields_levels (fields_of chat_message) \<le> 500"
      "length (document (elements chat_message)) \<le> 64"
    by (simp_all add: chat_message_def bson_types cstr_def le64_def)
  then show ?thesis
    using document_buffer_round_trip [of chat_message 64] by (simp add: BSON_MAX_SIZE_def)
qed

end
