(* ===== verification/Server_Main.thy ===== *)
theory Server_Main
  imports Server Config Uv_Inet
begin

text \<open>
  From the command line to the loop: \<open>server_init\<close> and \<open>server_cleanup\<close> of \<open>ge/src/server.c\<close> and
  \<open>ge/src/main.c\<close>. The program is the server context with the state of its parts; what the allocator, Lua and
  the operating system answer is input.
\<close>

section \<open>The program\<close>

text \<open>
  \<open>server_context_t\<close> as far as \<open>server\<close> leaves it out, the logger, the table \<open>gear\<close>, the address the
  listening socket is bound to, how many of the strings made by \<open>strdup\<close> are live, and the error messages.
\<close>

record 'l program =
  p_server :: "'l server"
  p_port :: int
  p_loop :: bool
  p_lua :: bool
  p_script :: "string option"
  p_process :: "string option"
  p_config :: "string option"
  p_logger :: logger
  p_gear :: "(string \<Rightarrow> gear_val option) option"
  p_bound :: "sockaddr_in option"
  p_strings :: nat
  p_errors :: "string list"

text \<open>The context cleared by \<open>memset\<close>: the handle of the listening socket has no type.\<close>

definition zeroed_server :: "u64 \<Rightarrow> bool \<Rightarrow> 'l script \<Rightarrow> 'l \<Rightarrow> 'l server" where
  "zeroed_server now le scr l =
     (initial_server now le scr l)
       \<lparr>uv := (initial_loop now)\<lparr>handles := [ServerHandle \<mapsto> zero_handle], handle_queue := []\<rparr>\<rparr>"

text \<open>What running the script file does: it fails to load, ends in an error, or defines the callbacks.\<close>

datatype 'l script_run = ScriptUnreadable | ScriptError | ScriptDefines 'l "'l script"

record 'l init_env =
  start_time :: u64
  little_endian :: bool
  no_script :: "'l script"
  lua0 :: 'l
  strdup_script :: bool
  strdup_process :: bool
  strdup_config :: bool
  newstate_ok :: bool
  log_env_of :: log_env
  file_at :: "string \<Rightarrow> file_env"
  parse_json :: "byte list \<Rightarrow> byte list option"
  config_fuel :: nat
  script_run :: "'l script_run"
  socket_rc :: int
  sockopt_rc :: int
  bind_rc :: int

definition say :: "string \<Rightarrow> 'l program \<Rightarrow> 'l program" where
  "say msg p = p\<lparr>p_errors := p_errors p @ [msg]\<rparr>"

section \<open>Cleanup\<close>

definition released :: "string option \<Rightarrow> nat" where
  "released s = (if s = None then 0 else 1)"

definition server_cleanup :: "'l program \<Rightarrow> 'l program" where
  "server_cleanup p =
     (let p = (if p_lua p then p\<lparr>p_logger := logger_shutdown (p_logger p), p_lua := False\<rparr> else p);
          p = p\<lparr>p_server := (p_server p)\<lparr>clients := []\<rparr>\<rparr>;
          p = p\<lparr>p_strings := p_strings p - released (p_script p), p_script := None\<rparr>;
          p = p\<lparr>p_strings := p_strings p - released (p_process p), p_process := None\<rparr> in
      p\<lparr>p_strings := p_strings p - released (p_config p), p_config := None\<rparr>)"

section \<open>Initialisation\<close>

text \<open>The end of \<open>server_init\<close>: the listening socket.\<close>

definition init_socket :: "'l init_env \<Rightarrow> 'l program \<Rightarrow> (int \<times> 'l program) res" where
  "init_socket env p =
     (let (_, addr) = uv_ip4_addr ''0.0.0.0'' (p_port p) in
      then_do (on_loop_rc (\<lambda>L. uv_tcp_init L ServerHandle) (p_server p)) (\<lambda>(r, w).
        let p = p\<lparr>p_server := w\<rparr> in
        if r \<noteq> 0 then Ret (- 1, server_cleanup (say ''Failed to init server handle'' p))
        else
          then_do (on_loop (\<lambda>L. deref (handles L ServerHandle) (\<lambda>x.
              Ret (set_handle L ServerHandle (x\<lparr>hdata := Some CtxPtr\<rparr>)))) (p_server p)) (\<lambda>w.
          then_do (on_loop_rc (\<lambda>L. uv_tcp_bind L ServerHandle (socket_rc env) (sockopt_rc env) (bind_rc env)) w)
            (\<lambda>(r, w).
              let p = p\<lparr>p_server := w\<rparr> in
              if r \<noteq> 0 then Ret (- 1, server_cleanup (say ''Failed to bind address'' p))
              else Ret (0, p\<lparr>p_bound := Some addr\<rparr>)))))"

text \<open>Its middle: the Lua state, the bindings and the script.\<close>

definition init_lua :: "'l init_env \<Rightarrow> 'l program \<Rightarrow> (int \<times> 'l program) res" where
  "init_lua env p =
     (let p = p\<lparr>p_loop := True\<rparr> in
      if \<not> newstate_ok env then Ret (- 1, say ''Failed to create Lua state'' p)
      else
        let p = p\<lparr>p_lua := True\<rparr> in
        then_do (register_lua_bindings (log_env_of env) (file_at env) (parse_json env) (config_fuel env)
            (p_process p) (p_config p) (p_logger p)) (\<lambda>(_, gear, g).
          let p = p\<lparr>p_gear := Some gear, p_logger := g\<rparr> in
          if p_script p = None then init_socket env p
          else case script_run env of
            ScriptUnreadable \<Rightarrow> Ret (- 1, server_cleanup (say ''Failed to load script file'' p))
          | ScriptError \<Rightarrow> Ret (- 1, server_cleanup (say ''Script execution error'' p))
          | ScriptDefines l scr \<Rightarrow>
              init_socket env (p\<lparr>p_server := (p_server p)\<lparr>lua := l, script := scr\<rparr>\<rparr>)))"

text \<open>Its beginning: the strings, one after the other.\<close>

definition server_init ::
  "'l init_env \<Rightarrow> int \<Rightarrow> string option \<Rightarrow> string option \<Rightarrow> string option \<Rightarrow> 'l program \<Rightarrow>
   (int \<times> 'l program) res" where
  "server_init env port script_path process_name config_path p =
     (let p = p\<lparr>p_server := zeroed_server (start_time env) (little_endian env) (no_script env) (lua0 env),
          p_port := port, p_loop := False, p_lua := False, p_script := None, p_process := None,
          p_config := None\<rparr> in
      if script_path \<noteq> None \<and> \<not> strdup_script env
      then Ret (- 1, say ''Failed to allocate memory for script_path'' p)
      else
        let p = p\<lparr>p_script := script_path, p_strings := p_strings p + released script_path\<rparr> in
        if process_name \<noteq> None \<and> \<not> strdup_process env
        then Ret (- 1, server_cleanup (say ''Failed to allocate memory for process_name'' p))
        else
          let p = p\<lparr>p_process := process_name, p_strings := p_strings p + released process_name\<rparr> in
          if config_path \<noteq> None \<and> \<not> strdup_config env
          then Ret (- 1, server_cleanup (say ''Failed to allocate memory for config_path'' p))
          else
            init_lua env (p\<lparr>p_config := config_path, p_strings := p_strings p + released config_path\<rparr>))"

section \<open>The entry point\<close>

text \<open>
  The program before \<open>main\<close>: the context is static, and so zeroed.
\<close>

definition initial_program :: "'l init_env \<Rightarrow> 'l program" where
  "initial_program env =
     \<lparr>p_server = zeroed_server (start_time env) (little_endian env) (no_script env) (lua0 env), p_port = 0,
      p_loop = False, p_lua = False, p_script = None, p_process = None, p_config = None,
      p_logger = initial_logger, p_gear = None, p_bound = None, p_strings = 0, p_errors = []\<rparr>"

text \<open>The signal handler, registered before \<open>server_init\<close>: \<open>server_stop\<close>, whose last call needs the Lua state.\<close>

definition signal_handler :: "'l program \<Rightarrow> 'l program res" where
  "signal_handler p =
     then_do (server_stop (p_server p)) (\<lambda>w. if p_lua p then Ret (p\<lparr>p_server := w\<rparr>) else Fault NullDeref)"

definition arguments :: "string list \<Rightarrow> (string \<times> string \<times> string) option" where
  "arguments argv =
     (let argc = length argv in
      if argc < 2 then None
      else Some (argv ! 1,
        if 2 < argc then argv ! 2 else ''../ge/example/example_server/chat_server.lua'',
        if 3 < argc then argv ! 3 else ''conf/conf.json''))"

text \<open>
  \<open>main\<close>; the loop runs at time \<open>now\<close> on the given inputs. The result is the exit status, \<open>None\<close> while the
  loop is still running when they end.
\<close>

definition server_main ::
  "'l init_env \<Rightarrow> string list \<Rightarrow> int \<Rightarrow> u64 \<Rightarrow> (('l server \<Rightarrow> 'l server res) \<times> u64) list \<Rightarrow> 'l program \<Rightarrow>
   (int option \<times> 'l program) res" where
  "server_main env argv listen_rc now inputs p =
     (case arguments argv of
        None \<Rightarrow> Ret (Some 1, say ''Error: Process name is required'' p)
      | Some (process_name, script_path, config_path) \<Rightarrow>
          then_do (server_init env 8080 (Some script_path) (Some process_name) (Some config_path) p) (\<lambda>(r, p).
            if r \<noteq> 0 then Ret (Some 1, say ''Server initialization failed'' p)
            else
              then_do (server_start listen_rc now inputs (p_server p)) (\<lambda>(r, w).
                let p = p\<lparr>p_server := w\<rparr> in
                Ret (r, if r = None then p else server_cleanup p))))"

end
