(* ===== verification/Server_Main_Props.thy ===== *)
theory Server_Main_Props
  imports Server_Main Server_Inv
begin

text \<open>
  The properties of the start of the server: what \<open>server_init\<close> leaves behind on every path, and what a
  signal does before it is through.
\<close>






lemma say_simps [simp]:
  "p_strings (say m p) = p_strings p" "p_script (say m p) = p_script p" "p_process (say m p) = p_process p"
  "p_config (say m p) = p_config p"
  by (simp_all add: say_def)



definition plain_env :: "bool \<Rightarrow> unit init_env" where
  "plain_env ok =
     \<lparr>start_time = 5, little_endian = True,
      no_script = \<lparr>on_server_start = \<lambda>_. None, on_client_connect = \<lambda>_. None, on_client_data = \<lambda>_. None,
        on_client_disconnect = \<lambda>_. None, on_server_stop = \<lambda>_. None\<rparr>, lua0 = (), strdup_script = True,
      strdup_process = True, strdup_config = True, newstate_ok = ok, log_env_of = undefined,
      file_at = \<lambda>p. \<lparr>fopen_rd = False, seek_end = False, ftell_size = 0, seek_set = False,
        buffer_malloc = False, fread_bytes = []\<rparr>,
      parse_json = \<lambda>s. None, config_fuel = 0,
      script_run = ScriptDefines () \<lparr>on_server_start = \<lambda>_. None, on_client_connect = \<lambda>_. None,
        on_client_data = \<lambda>_. None, on_client_disconnect = \<lambda>_. None, on_server_stop = \<lambda>_. None\<rparr>,
      socket_rc = 0, sockopt_rc = 0, bind_rc = 0\<rparr>"


text \<open>
  C29. A signal that arrives before the listening socket is initialised aborts the process: \<open>main\<close> registers
  the handler before \<open>server_init\<close>, and \<open>server_stop\<close> closes the handle in the zeroed context,
  whose type \<open>uv_close\<close> does not know.
\<close>

theorem early_signal_aborts:
  assumes "handles (uv (p_server p)) ServerHandle = Some zero_handle"
  shows "signal_handler p = Fault AssertionFailure"
  using assms
  by (simp add: signal_handler_def server_stop_def uv_is_closing_def uv__is_closing_def zero_handle_def on_loop_def
      uv_close_def Let_def)

theorem early_signal_aborts_witness: "signal_handler (initial_program (plain_env True)) = Fault AssertionFailure"
  by (rule early_signal_aborts) (simp add: initial_program_def zeroed_server_def)

end
