(* ===== verification/Stress.thy ===== *)
theory Stress
  imports Uv_Run Uv_Inet Wire_Facts
begin

text \<open>
  The stress client (\<open>benchmark/stress_client.c\<close>): many connections to the server, each with a socket and
  a timer that sends numbered lines, and statistics over all of them.
\<close>

section \<open>The state\<close>

datatype shid = StressSocket nat | StressTimer nat | StatsTimer

datatype stress_cb = On_timer | On_stress_close | On_print_stats

type_synonym stress_loop = "(shid, stress_cb, nat) uv_loop"

text \<open>\<open>stats_t\<close>; the latency fields are never written.\<close>

record stats_t =
  total_connections :: int
  active_connections :: int
  successful_connections :: int
  failed_connections :: int
  stat_sent :: int
  stat_received :: int
  stat_errors :: int

text \<open>
  \<open>stress_client_t\<close>; \<open>connecting\<close> is whether \<open>connect_req\<close> is outstanding on the socket. The handles
  \<open>socket\<close> and \<open>timer\<close> of the client at address \<open>a\<close> are \<open>StressSocket a\<close> and \<open>StressTimer a\<close>.
\<close>

record stress_client =
  client_id :: int
  messages_to_send :: int
  messages_sent :: int
  messages_received :: int
  connecting :: bool
  sc_connected :: bool

text \<open>
  The globals of the file, the live read buffers, the outcomes of coming allocations and whether the kernel takes
  the data of coming writes at once (both succeed when the list runs out), how many writes it has not taken
  yet, the lines handed to \<open>uv_write\<close> by each client.
\<close>

record stress =
  suv :: stress_loop
  sclients :: "nat \<Rightarrow> stress_client option"
  g_stats :: stats_t
  g_total_clients :: int
  g_messages_per_client :: int
  g_message_interval_ms :: int
  g_host :: string
  g_port :: int
  s_bufs :: "nat list"
  s_mallocs :: "bool list"
  s_takes :: "bool list"
  s_untaken :: nat
  s_lines :: "(nat \<times> byte list) list"

definition set_suv :: "stress_loop \<Rightarrow> stress \<Rightarrow> stress" where
  "set_suv L w = w\<lparr>suv := L\<rparr>"

definition on_suv :: "(stress_loop \<Rightarrow> stress_loop res) \<Rightarrow> stress \<Rightarrow> stress res" where
  "on_suv f w = then_do (f (suv w)) (\<lambda>L. Ret (set_suv L w))"

definition on_suv_rc :: "(stress_loop \<Rightarrow> (int \<times> stress_loop) res) \<Rightarrow> stress \<Rightarrow> (int \<times> stress) res" where
  "on_suv_rc f w = then_do (f (suv w)) (\<lambda>(r, L). Ret (r, set_suv L w))"

definition s_malloc :: "stress \<Rightarrow> bool \<times> stress" where
  "s_malloc w = (case s_mallocs w of [] \<Rightarrow> (True, w) | b # bs \<Rightarrow> (b, w\<lparr>s_mallocs := bs\<rparr>))"

definition set_sclient :: "nat \<Rightarrow> stress_client \<Rightarrow> stress \<Rightarrow> stress" where
  "set_sclient a c w = w\<lparr>sclients := (sclients w)(a \<mapsto> c)\<rparr>"

definition count_error :: "stress \<Rightarrow> stress" where
  "count_error w = w\<lparr>g_stats := (g_stats w)\<lparr>stat_errors := stat_errors (g_stats w) + 1\<rparr>\<rparr>"

text \<open>\<open>free (client)\<close>, with the handles inside it.\<close>

definition free_sclient :: "nat \<Rightarrow> stress \<Rightarrow> stress res" where
  "free_sclient a w =
     (if sclients w a = None then Fault DoubleFree
      else Ret (w\<lparr>sclients := (sclients w)(a := None),
                  suv := (suv w)\<lparr>handles := (handles (suv w))(StressSocket a := None, StressTimer a := None)\<rparr>\<rparr>))"

section \<open>Reading\<close>

text \<open>The size asked for is not checked, nor is the result of \<open>malloc\<close>.\<close>

definition s_alloc_buffer :: "nat \<Rightarrow> stress \<Rightarrow> (nat option \<times> nat) \<times> stress" where
  "s_alloc_buffer suggested_size w =
     (case s_malloc w of (ok, w) \<Rightarrow>
        if \<not> ok then ((None, suggested_size), w)
        else let b = Suc (fold max (s_bufs w) 0) in ((Some b, suggested_size), w\<lparr>s_bufs := b # s_bufs w\<rparr>))"

definition s_free_buf :: "nat option \<Rightarrow> stress \<Rightarrow> stress res" where
  "s_free_buf b w =
     (case b of
        None \<Rightarrow> Ret w
      | Some i \<Rightarrow> if i \<in> set (s_bufs w) then Ret (w\<lparr>s_bufs := remove1 i (s_bufs w)\<rparr>) else Fault DoubleFree)"

text \<open>The end of a stream is no reason to close it here.\<close>

definition s_on_read :: "shid \<Rightarrow> read_result \<Rightarrow> nat option \<Rightarrow> stress \<Rightarrow> stress res" where
  "s_on_read stream r buf w =
     deref (handles (suv w) stream) (\<lambda>x.
       case r of
         ReadError e \<Rightarrow> s_free_buf buf (if e \<noteq> UV_EOF then count_error w else w)
       | ReadData bs \<Rightarrow>
           if bs = [] then s_free_buf buf w
           else case hdata x of
             None \<Rightarrow> Fault NullDeref
           | Some a \<Rightarrow> deref (sclients w a) (\<lambda>c.
               let w = set_sclient a (c\<lparr>messages_received := messages_received c + 1\<rparr>) w in
               s_free_buf buf
                 (w\<lparr>g_stats := (g_stats w)\<lparr>stat_received := stat_received (g_stats w) + 1\<rparr>\<rparr>)))"

section \<open>Sending\<close>

definition text_bytes :: "string \<Rightarrow> byte list" where
  "text_bytes s = map of_char s"

definition stress_line :: "int \<Rightarrow> int \<Rightarrow> string" where
  "stress_line client n = fit 256 (''Client'' @ dec_int client @ '': Message '' @ dec_int n @ [CHR 0x0A])"

definition s_on_write :: "int \<Rightarrow> byte list \<Rightarrow> stress \<Rightarrow> stress res" where
  "s_on_write status bs w = Ret (if status < 0 then count_error w else w)"

text \<open>
  \<open>send_message\<close>. The line lies on the stack of the function; what the kernel does not take at once is read
  from there later.
\<close>

definition send_message :: "nat \<Rightarrow> stress \<Rightarrow> stress res" where
  "send_message a w =
     deref (sclients w a) (\<lambda>c.
       if \<not> sc_connected c \<or> messages_to_send c \<le> messages_sent c then Ret w
       else
         let msg = text_bytes (stress_line (client_id c) (messages_sent c + 1)) in
         case s_malloc w of (req, w) \<Rightarrow>
           if \<not> req then Fault NullDeref
           else then_do (on_suv_rc (\<lambda>L. uv_write L (StressSocket a) msg) w) (\<lambda>(r, w).
             if r = 0 then
               let at_once = (s_untaken w = 0 \<and> (case s_takes w of [] \<Rightarrow> True | b # _ \<Rightarrow> b));
                   w = w\<lparr>s_takes := tl (s_takes w), s_lines := s_lines w @ [(a, msg)],
                         s_untaken := (if at_once then s_untaken w else s_untaken w + 1)\<rparr> in
               Ret ((set_sclient a (c\<lparr>messages_sent := messages_sent c + 1\<rparr>) w)
                 \<lparr>g_stats := (g_stats w)\<lparr>stat_sent := stat_sent (g_stats w) + 1\<rparr>\<rparr>)
             else Ret (count_error w)))"

text \<open>The kernel takes more data: the stack frame it lies in has been left.\<close>

definition s_write_more :: "stress \<Rightarrow> stress res" where
  "s_write_more w = (if s_untaken w = 0 then Ret w else Fault UseAfterFree)"

section \<open>Timers, closing\<close>

definition timer_client :: "shid \<Rightarrow> stress \<Rightarrow> (nat \<Rightarrow> stress_client \<Rightarrow> 'a res) \<Rightarrow> 'a res" where
  "timer_client h w f =
     deref (handles (suv w) h) (\<lambda>x.
       case hdata x of None \<Rightarrow> Fault NullDeref | Some a \<Rightarrow> deref (sclients w a) (f a))"

definition on_timer :: "shid \<Rightarrow> stress \<Rightarrow> stress res" where
  "on_timer h w =
     timer_client h w (\<lambda>a c.
       if sc_connected c \<and> messages_sent c < messages_to_send c then send_message a w
       else then_do (on_suv (\<lambda>L. uv_timer_stop L h) w) (\<lambda>w.
         if messages_to_send c \<le> messages_sent c
         then on_suv (\<lambda>L. uv_close L (StressSocket a) (Some On_stress_close)) w
         else Ret w))"

definition s_on_client_close :: "shid \<Rightarrow> stress \<Rightarrow> stress res" where
  "s_on_client_close h w =
     deref (handles (suv w) h) (\<lambda>x.
       case hdata x of
         None \<Rightarrow> Ret w
       | Some a \<Rightarrow>
           then_do (on_suv (\<lambda>L. uv_timer_stop L (StressTimer a)) w) (\<lambda>w.
           then_do (on_suv (\<lambda>L. uv_close L (StressTimer a) None) w) (\<lambda>w.
             free_sclient a
               (w\<lparr>g_stats := (g_stats w)\<lparr>active_connections := active_connections (g_stats w) - 1\<rparr>\<rparr>))))"

text \<open>\<open>print_stats_timer\<close> only prints.\<close>

definition print_stats_timer :: "shid \<Rightarrow> stress \<Rightarrow> stress res" where
  "print_stats_timer h w = Ret w"

definition stress_callback :: "stress_cb \<Rightarrow> shid \<Rightarrow> stress \<Rightarrow> stress res" where
  "stress_callback cb h w =
     (case cb of
        On_timer \<Rightarrow> on_timer h w
      | On_stress_close \<Rightarrow> s_on_client_close h w
      | On_print_stats \<Rightarrow> print_stats_timer h w)"

section \<open>Connecting\<close>

text \<open>\<open>handle->data = client\<close>.\<close>

definition set_sdata :: "shid \<Rightarrow> nat \<Rightarrow> stress \<Rightarrow> stress res" where
  "set_sdata h a w = on_suv (\<lambda>L. deref (handles L h) (\<lambda>x. Ret (set_handle L h (x\<lparr>hdata := Some a\<rparr>)))) w"

definition on_stress_connect :: "nat \<Rightarrow> int \<Rightarrow> stress \<Rightarrow> stress res" where
  "on_stress_connect a status w =
     deref (sclients w a) (\<lambda>c.
       if status < 0 then
         free_sclient a (w\<lparr>g_stats := (g_stats w)\<lparr>failed_connections := failed_connections (g_stats w) + 1,
           active_connections := active_connections (g_stats w) - 1\<rparr>\<rparr>)
       else
         let w = (set_sclient a (c\<lparr>sc_connected := True\<rparr>) w)
                   \<lparr>g_stats := (g_stats w)\<lparr>successful_connections := successful_connections (g_stats w) + 1\<rparr>\<rparr> in
         then_do (on_suv_rc (\<lambda>L. uv_read_start L (StressSocket a) 0) w) (\<lambda>(_, w).
         then_do (on_suv_rc (\<lambda>L. uv_timer_init L (StressTimer a)) w) (\<lambda>(_, w).
         then_do (set_sdata (StressTimer a) a w) (\<lambda>w.
         then_do (on_suv_rc (\<lambda>L. uv_timer_start L (StressTimer a) (Some On_timer) 0
             (word_of_int (g_message_interval_ms w))) w) (\<lambda>(_, w). Ret w)))))"

text \<open>
  \<open>uv_tcp_connect\<close> on the socket of a client, with the results of \<open>socket\<close> and \<open>connect\<close>, as in the other
  client; and the end of the connection attempt with the error \<open>err\<close> of the socket (\<open>uv__stream_connect\<close>),
  which looks at the stream again after the callback.
\<close>

definition s_tcp_connect :: "nat \<Rightarrow> int \<Rightarrow> int \<Rightarrow> stress \<Rightarrow> (int \<times> stress) res" where
  "s_tcp_connect a socket_rc connect_rc w =
     deref (handles (suv w) (StressSocket a)) (\<lambda>x.
     deref (sclients w a) (\<lambda>c.
       if htype x \<noteq> UV_TCP then Ret (UV_EINVAL, w)
       else if connecting c then Ret (UV_EALREADY, w)
       else if socket_rc \<noteq> 0 then Ret (socket_rc, w)
       else
         then_do (on_suv (\<lambda>L. uv__stream_open L (StressSocket a) True True) w) (\<lambda>w.
           if connect_rc \<noteq> 0 then Ret (connect_rc, w)
           else Ret (0, (set_sclient a (c\<lparr>connecting := True\<rparr>) w)
                  \<lparr>suv := (suv w)\<lparr>active_reqs := active_reqs (suv w) + 1\<rparr>\<rparr>))))"

definition s_stream_connect :: "nat \<Rightarrow> int \<Rightarrow> stress \<Rightarrow> stress res" where
  "s_stream_connect a err w =
     deref (sclients w a) (\<lambda>c.
       assert_that (connecting c)
         (then_do (on_stress_connect a err
             ((set_sclient a (c\<lparr>connecting := False\<rparr>) w)
                \<lparr>suv := (suv w)\<lparr>active_reqs := active_reqs (suv w) - 1\<rparr>\<rparr>)) (\<lambda>w.
           deref (handles (suv w) (StressSocket a)) (\<lambda>x.
             if \<not> fd_open x then Ret w
             else if err < 0 then uv__stream_destroy suv set_suv s_on_write (StressSocket a) w
             else Ret w))))"

text \<open>
  \<open>create_client\<close> at the address \<open>malloc\<close> returned; its result is used unchecked, like those of
  \<open>uv_ip4_addr\<close> and \<open>uv_tcp_connect\<close>.
\<close>

definition create_client :: "int \<Rightarrow> nat option \<Rightarrow> int \<Rightarrow> int \<Rightarrow> stress \<Rightarrow> stress res" where
  "create_client cid addr socket_rc connect_rc w =
     (case addr of
        None \<Rightarrow> Fault NullDeref
      | Some a \<Rightarrow>
          let w = w\<lparr>sclients := (sclients w)(a \<mapsto> \<lparr>client_id = cid, messages_to_send = g_messages_per_client w,
                     messages_sent = 0, messages_received = 0, connecting = False, sc_connected = False\<rparr>),
                    suv := (suv w)\<lparr>handles := (handles (suv w))
                      (StressSocket a \<mapsto> zero_handle, StressTimer a \<mapsto> zero_handle)\<rparr>\<rparr> in
          then_do (on_suv_rc (\<lambda>L. uv_tcp_init L (StressSocket a)) w) (\<lambda>(_, w).
          then_do (set_sdata (StressSocket a) a w) (\<lambda>w.
            let (_, sin) = uv_ip4_addr (g_host w) (g_port w);
                w = w\<lparr>g_stats := (g_stats w)\<lparr>active_connections := active_connections (g_stats w) + 1\<rparr>\<rparr> in
            then_do (s_tcp_connect a socket_rc connect_rc w) (\<lambda>(_, w). Ret w))))"

section \<open>The program\<close>

datatype stress_input =
    S_connected nat int
  | S_readable nat "kernel_read list"
  | S_writable
  | S_written nat int
  | S_signal

definition stress_cleanup :: "stress \<Rightarrow> stress" where
  "stress_cleanup w = w\<lparr>suv := (suv w)\<lparr>stop_flag := True\<rparr>\<rparr>"

definition stress_handle :: "stress_input \<Rightarrow> stress \<Rightarrow> stress res" where
  "stress_handle i w =
     (case i of
        S_connected a err \<Rightarrow> s_stream_connect a err w
      | S_readable a ks \<Rightarrow>
          uv__read suv set_suv (\<lambda>h. s_alloc_buffer) s_on_read (StressSocket a) (take 32 ks) w
      | S_writable \<Rightarrow> s_write_more w
      | S_written a status \<Rightarrow> uv__write_complete suv set_suv s_on_write status (StressSocket a) w
      | S_signal \<Rightarrow> Ret (stress_cleanup w))"

fun stress_poll :: "stress_input list \<Rightarrow> stress \<Rightarrow> stress res" where
  "stress_poll [] w = Ret w"
| "stress_poll (i # is) w = then_do (stress_handle i w) (stress_poll is)"

text \<open>A round of the loop, and \<open>uv_run\<close> with \<open>UV_RUN_NOWAIT\<close>: one round at most.\<close>

definition stress_iteration :: "stress_input list \<times> u64 \<Rightarrow> stress \<Rightarrow> stress res" where
  "stress_iteration i w =
     uv_iteration suv set_suv stress_callback s_on_write (stress_poll (fst i), snd i) w"

definition run_nowait :: "stress_input list \<times> u64 \<Rightarrow> stress \<Rightarrow> stress res" where
  "run_nowait i w =
     (if \<not> uv__loop_alive (suv w) \<or> stop_flag (suv w)
      then Ret (set_suv ((suv w)\<lparr>stop_flag := False\<rparr>) w)
      else then_do (stress_iteration i w) (\<lambda>w. Ret (set_suv ((suv w)\<lparr>stop_flag := False\<rparr>) w)))"

text \<open>
  The loop of \<open>main\<close> from index \<open>i\<close>: for each client what \<open>malloc\<close>, \<open>socket\<close> and \<open>connect\<close> return, and the
  inputs of the round after every tenth.
\<close>

fun create_clients :: "int \<Rightarrow> (nat option \<times> int \<times> int \<times> stress_input list \<times> u64) list \<Rightarrow> stress \<Rightarrow> stress res" where
  "create_clients i [] w = Ret w"
| "create_clients i ((addr, socket_rc, connect_rc, round) # rest) w =
     (if g_total_clients w \<le> i then Ret w
      else
        let w = w\<lparr>g_stats := (g_stats w)\<lparr>total_connections := total_connections (g_stats w) + 1\<rparr>\<rparr> in
        then_do (create_client (i + 1) addr socket_rc connect_rc w) (\<lambda>w.
        then_do (if i mod 10 = 0 then run_nowait round w else Ret w)
          (create_clients (i + 1) rest)))"

definition zero_stats :: stats_t where
  "zero_stats = \<lparr>total_connections = 0, active_connections = 0, successful_connections = 0, failed_connections = 0,
     stat_sent = 0, stat_received = 0, stat_errors = 0\<rparr>"

definition stress_program :: "u64 \<Rightarrow> stress" where
  "stress_program now =
     \<lparr>suv = \<lparr>handles = [StatsTimer \<mapsto> zero_handle], loop_time = now, timer_heap = [], timer_counter = 0,
        ready_queue = [], closing_handles = [], detached = [], handle_queue = [], active_handles = 0,
        active_reqs = 0, write_queue = [], stop_flag = False\<rparr>,
      sclients = Map.empty, g_stats = zero_stats, g_total_clients = 100, g_messages_per_client = 10,
      g_message_interval_ms = 100, g_host = ''localhost'', g_port = 8080, s_bufs = [], s_mallocs = [],
      s_takes = [], s_untaken = 0, s_lines = []\<rparr>"

definition stress_arguments :: "(string \<Rightarrow> int) \<Rightarrow> string list \<Rightarrow> stress \<Rightarrow> stress" where
  "stress_arguments atoi argv w =
     (let argc = length argv;
          w = (if 1 < argc then w\<lparr>g_total_clients := atoi (argv ! 1)\<rparr> else w);
          w = (if 2 < argc then w\<lparr>g_messages_per_client := atoi (argv ! 2)\<rparr> else w);
          w = (if 3 < argc then w\<lparr>g_message_interval_ms := atoi (argv ! 3)\<rparr> else w);
          w = (if 4 < argc then w\<lparr>g_host := argv ! 4\<rparr> else w) in
      if 5 < argc then w\<lparr>g_port := atoi (argv ! 5)\<rparr> else w)"

text \<open>
  \<open>main\<close>: the result is whether the loop returned before its inputs ended, and the final state.
\<close>

definition stress_main ::
  "(string \<Rightarrow> int) \<Rightarrow> string list \<Rightarrow> (nat option \<times> int \<times> int \<times> stress_input list \<times> u64) list \<Rightarrow> u64 \<Rightarrow>
   (stress_input list \<times> u64) list \<Rightarrow> stress \<Rightarrow> (bool \<times> stress) res" where
  "stress_main atoi argv creations now inputs w =
     then_do (create_clients 0 creations ((stress_arguments atoi argv w)\<lparr>g_stats := zero_stats\<rparr>)) (\<lambda>w.
     then_do (on_suv_rc (\<lambda>L. uv_timer_init L StatsTimer) w) (\<lambda>(_, w).
     then_do (on_suv_rc (\<lambda>L. uv_timer_start L StatsTimer (Some On_print_stats) 1000 1000) w) (\<lambda>(_, w).
     then_do (uv_run suv set_suv stress_callback s_on_write now
         (map (\<lambda>i. (stress_poll (fst i), snd i)) inputs) w) (\<lambda>(returned, w).
       Ret (returned, if returned then stress_cleanup w else w)))))"

end
