(* ===== verification/Stress_Props.thy ===== *)
theory Stress_Props
  imports Stress Uv_Timer_Facts Server_Demo
begin

text \<open>
  The properties of the stress client: what the server makes of its lines, and how a client that cannot
  connect, or has sent all its lines, ends the program.
\<close>

section \<open>The lines\<close>

lemma stress_line_shape:
  "4 \<le> length (text_bytes (stress_line i n))" "hd (text_bytes (stress_line i n)) = 67"
  "length (text_bytes (stress_line i n)) < 256"
  by (simp_all add: text_bytes_def stress_line_def fit_def)

text \<open>
  The stress client does not measure what it is meant to: its lines are no frames of the server's
  protocol. Whatever the numbers in it, the first line of a client makes the server close the
  connection without telling the script anything -- the letters "Clie" are taken for a length.
\<close>

theorem stress_line_ends_connection:
  assumes "server_inv w" and "client_mem w a = Some c" and "is_valid c" and "pending c = []"
    and "scripts_ok True w" and "mallocs w = []"
    and "enabled (Readable a [KernelData (text_bytes (stress_line i n))]) w"
  shows "\<exists>w'. handle_event (Readable a [KernelData (text_bytes (stress_line i n))]) w = Ret w' \<and>
    delivered a (trace w') = delivered a (trace w) \<and> chain (uv w') = ClientHandle a # chain (uv w)"
  using text_ends_connection [OF assms(1-4,7,5,6)] stress_line_shape [of i n] by simp

theorem stress_line_ends_connection_witness:
  "\<exists>w'. handle_event (Readable 7 [KernelData (text_bytes (stress_line 1 1))]) (demo_server echo_script ()) = Ret w' \<and>
     chain (uv w') = [ClientHandle 7]"
proof -
  let ?w = "demo_server echo_script ()" and ?ks = "[KernelData (text_bytes (stress_line 1 1))]"
  have "\<exists>w'. handle_event (Readable 7 ?ks) ?w = Ret w' \<and>
      delivered 7 (trace w') = delivered 7 (trace ?w) \<and> chain (uv w') = ClientHandle 7 # chain (uv ?w)"
    by (rule stress_line_ends_connection [OF demo_inv demo_simps(1,7,8)])
      (simp_all add: scripts_ok_def echo_script_ok)
  moreover have "chain (uv ?w) = []" by (rule demo_simps)
  ultimately show ?thesis by (auto simp only:)
qed

section \<open>The end of a client\<close>

text \<open>
  A connection that fails: \<open>on_connect\<close> frees the client with the socket in it, which
  \<open>uv__stream_connect\<close> looks at next.
\<close>

lemma failed_connection_reads_freed_socket:
  "sclients w a = Some c \<Longrightarrow> connecting c \<Longrightarrow> err < 0 \<Longrightarrow> s_stream_connect a err w = Fault UseAfterFree"
  by (simp add: s_stream_connect_def on_stress_connect_def free_sclient_def set_sclient_def)

lemma set_suv_simps [simp]: "suv (set_suv L w) = L" "sclients (set_suv L w) = sclients w"
  by (simp_all add: set_suv_def)

text \<open>What completing the writes of a closed socket leaves alone.\<close>

definition same_but_writes :: "stress \<Rightarrow> stress \<Rightarrow> bool" where
  "same_but_writes w w' \<longleftrightarrow>
     handles (suv w') = handles (suv w) \<and> closing_handles (suv w') = closing_handles (suv w) \<and>
     sclients w' = sclients w"

lemma write_callbacks_same:
  "\<exists>w'. write_callbacks suv set_suv s_on_write reqs w = Ret w' \<and> same_but_writes w w'"
proof (induction reqs arbitrary: w)
  case (Cons r reqs)
  obtain h bs where r: "r = (h, bs)" by (cases r)
  define v where "v = set_suv ((suv w)\<lparr>active_reqs := active_reqs (suv w) - 1\<rparr>) w"
  obtain u where u: "s_on_write UV_ECANCELED bs v = Ret u" "same_but_writes v u"
    by (simp add: s_on_write_def UV_ECANCELED_def same_but_writes_def count_error_def)
  obtain w' where "write_callbacks suv set_suv s_on_write reqs u = Ret w'" "same_but_writes u w'"
    using Cons by blast
  then show ?case using r u by (auto simp: v_def same_but_writes_def Let_def)
qed (simp add: same_but_writes_def)

lemma stream_destroy_same:
  "\<exists>w'. uv__stream_destroy suv set_suv s_on_write h w = Ret w' \<and> same_but_writes w w'"
proof -
  let ?v = "set_suv ((suv w)\<lparr>write_queue := filter (\<lambda>r. fst r \<noteq> h) (write_queue (suv w))\<rparr>) w"
  obtain w' where "write_callbacks suv set_suv s_on_write (filter (\<lambda>r. fst r = h) (write_queue (suv w))) ?v = Ret w'"
      "same_but_writes ?v w'"
    using write_callbacks_same by blast
  then show ?thesis by (auto simp: uv__stream_destroy_def Let_def same_but_writes_def)
qed

text \<open>A closing socket whose timer is stopped but not closed.\<close>

definition leaving :: "nat \<Rightarrow> stress \<Rightarrow> bool" where
  "leaving a w \<longleftrightarrow>
     sclients w a \<noteq> None \<and>
     (\<exists>x. handles (suv w) (StressSocket a) = Some x \<and> htype x = UV_TCP \<and> f_closing x \<and> \<not> f_closed x \<and>
        close_cb x = Some On_stress_close \<and> hdata x = Some a) \<and>
     (\<exists>t. handles (suv w) (StressTimer a) = Some t \<and> htype t = UV_TIMER \<and> \<not> uv__is_closing t \<and>
        \<not> f_active t \<and> node_linked t)"

lemma close_callback_leaves_timer:
  assumes "sclients w a \<noteq> None" and "handles (suv w) (StressSocket a) = Some x" and "hdata x = Some a"
    and "handles (suv w) (StressTimer a) = Some t" and "htype t = UV_TIMER" and "\<not> uv__is_closing t"
    and "\<not> f_active t" and "node_linked t"
  shows "\<exists>w'. s_on_client_close (StressSocket a) w = Ret w' \<and>
    closing_handles (suv w') = StressTimer a # closing_handles (suv w) \<and> handles (suv w') (StressTimer a) = None"
proof -
  have nc: "\<not> f_closing t" "\<not> f_closed t" using assms(6) by (simp_all add: uv__is_closing_def)
  show ?thesis
    using assms nc
    by (simp add: s_on_client_close_def on_suv_def uv_timer_stop_inactive uv_close_def set_handle_def
        uv_timer_stop_def uv__make_close_pending_def free_sclient_def uv__is_closing_def Let_def)
qed

lemma closing_pass_frees_timer:
  assumes "leaving a w" and "closing_handles (suv w) = [StressSocket a]"
  shows "\<exists>w'. uv__run_closing_handles suv set_suv stress_callback s_on_write w = Ret w' \<and>
    closing_handles (suv w') = [StressTimer a] \<and> handles (suv w') (StressTimer a) = None"
proof -
  obtain x t where c: "sclients w a \<noteq> None" and x: "handles (suv w) (StressSocket a) = Some x" "htype x = UV_TCP"
      "f_closing x" "\<not> f_closed x" "close_cb x = Some On_stress_close" "hdata x = Some a"
    and t: "handles (suv w) (StressTimer a) = Some t" "htype t = UV_TIMER" "\<not> uv__is_closing t"
      "\<not> f_active t" "node_linked t"
    using assms(1) by (auto simp: leaving_def)
  define v where "v = set_suv ((suv w)\<lparr>closing_handles := [], detached := [],
      handles := (handles (suv w))(StressSocket a \<mapsto> x\<lparr>f_closed := True\<rparr>)\<rparr>) w"
  obtain u where u: "uv__stream_destroy suv set_suv s_on_write (StressSocket a) v = Ret u" "same_but_writes v u"
    using stream_destroy_same by blast
  then have hu: "handles (suv u) (StressSocket a) = Some (x\<lparr>f_closed := True\<rparr>)"
      "handles (suv u) (StressTimer a) = Some t" "closing_handles (suv u) = []" "sclients u a \<noteq> None"
    using t c by (simp_all add: same_but_writes_def v_def)
  have "\<exists>L y. uv__handle_unref (suv u) (StressSocket a) = Ret L \<and> closing_handles L = [] \<and>
      handles L (StressSocket a) = Some y \<and> hdata y = Some a \<and> close_cb y = Some On_stress_close \<and>
      handles L (StressTimer a) = Some t"
    using hu x by (cases "f_ref x") (simp_all add: uv__handle_unref_def Let_def set_handle_def)
  then obtain L y where L: "uv__handle_unref (suv u) (StressSocket a) = Ret L" "closing_handles L = []"
      "handles L (StressSocket a) = Some y" "hdata y = Some a" "close_cb y = Some On_stress_close"
      "handles L (StressTimer a) = Some t"
    by blast
  define z where "z = set_suv (L\<lparr>handle_queue := remove1 (StressSocket a) (handle_queue L)\<rparr>) u"
  have y: "handles (suv z) (StressSocket a) = Some y" "hdata y = Some a" "close_cb y = Some On_stress_close"
      "handles (suv z) (StressTimer a) = Some t" "closing_handles (suv z) = []" "sclients z a \<noteq> None"
    using L hu by (simp_all add: z_def)
  obtain w' where w': "s_on_client_close (StressSocket a) z = Ret w'" "closing_handles (suv w') = [StressTimer a]"
      "handles (suv w') (StressTimer a) = None"
    using close_callback_leaves_timer [OF y(6,1,2,4) t(2-5)] y(5) by auto
  have "uv__finish_close suv set_suv stress_callback s_on_write (StressSocket a)
      (set_suv ((suv w)\<lparr>closing_handles := [], detached := []\<rparr>) w) = Ret w'"
    using x u(1) L(1) w'(1) y(1,3)
    by (simp add: uv__finish_close_def Let_def set_handle_def v_def z_def set_suv_def stress_callback_def)
  then show ?thesis using w'(2,3) assms(2)
    by (auto simp: uv__run_closing_handles_def set_suv_def)
qed

lemma freed_timer_stops_loop:
  "closing_handles (suv w) = [StressTimer a] \<Longrightarrow> handles (suv w) (StressTimer a) = None \<Longrightarrow>
     uv__run_closing_handles suv set_suv stress_callback s_on_write w = Fault UseAfterFree"
  by (simp add: uv__run_closing_handles_def uv__finish_close_def set_suv_def)

lemma last_tick_closes_socket:
  assumes "timers_ok (suv w)" and "sclients w a = Some c" and "messages_to_send c \<le> messages_sent c"
    and t: "handles (suv w) (StressTimer a) = Some t" "htype t = UV_TIMER" "f_active t" "\<not> uv__is_closing t"
      "hdata t = Some a"
    and x: "handles (suv w) (StressSocket a) = Some x" "htype x = UV_TCP" "\<not> uv__is_closing x" "hdata x = Some a"
    and "closing_handles (suv w) = []"
  shows "\<exists>w'. on_timer (StressTimer a) w = Ret w' \<and> leaving a w' \<and> closing_handles (suv w') = [StressSocket a]"
proof -
  have it: "is_timer (suv w) (StressTimer a)" using t by (simp add: is_timer_def)
  obtain L t' where L: "uv_timer_stop (suv w) (StressTimer a) = Ret L" "timers_ok L"
      "handles L = (handles (suv w))(StressTimer a \<mapsto> t')"
      "\<exists>y. handles (suv w) (StressTimer a) = Some y \<and> t' = y\<lparr>f_active := False, node_linked := True\<rparr>"
      "closing_handles L = []"
    by (rule uv_timer_stop_ok [OF assms(1) it]) (use assms(13) in auto)
  have hx: "handles L (StressSocket a) = Some x" using L(3) x(1) by simp
  obtain L' x' where L': "uv_close L (StressSocket a) (Some On_stress_close) = Ret L'"
      "handles L' = (handles L)(StressSocket a \<mapsto> x')"
      "x' = x\<lparr>f_closing := True, close_cb := Some On_stress_close, f_active := False, f_reading := False,
         f_readable := False, f_writable := False, fd_open := False\<rparr>"
      "closing_handles L' = StressSocket a # closing_handles L"
    by (rule uv_close_stream [OF L(2) hx _ x(3), of "Some On_stress_close"]) (use x(2) in auto)
  have "on_timer (StressTimer a) w = Ret (set_suv L' (set_suv L w))"
    using t(1,5) assms(2,3) L(1) L'(1) by (simp add: on_timer_def timer_client_def on_suv_def)
  moreover have "leaving a (set_suv L' (set_suv L w))"
    using assms(2) L'(2,3) L(3,4) t x by (auto simp: leaving_def uv__is_closing_def)
  ultimately show ?thesis using L'(4) L(5) by simp
qed

text \<open>
  C27. A client that has sent all its lines ends the program: the next tick of its timer closes the socket,
  the close callback puts the timer on the closing chain and frees the client with the timer in it,
  and the following pass over the closing handles reads the freed timer.
\<close>

theorem finished_client_stops_program:
  assumes "timers_ok (suv w)" and "sclients w a = Some c" and "messages_to_send c \<le> messages_sent c"
    and "handles (suv w) (StressTimer a) = Some t" and "htype t = UV_TIMER" and "f_active t"
    and "\<not> uv__is_closing t" and "hdata t = Some a"
    and "handles (suv w) (StressSocket a) = Some x" and "htype x = UV_TCP" and "\<not> uv__is_closing x"
    and "hdata x = Some a" and "closing_handles (suv w) = []"
  shows "\<exists>w1 w2. on_timer (StressTimer a) w = Ret w1 \<and>
    uv__run_closing_handles suv set_suv stress_callback s_on_write w1 = Ret w2 \<and>
    uv__run_closing_handles suv set_suv stress_callback s_on_write w2 = Fault UseAfterFree"
  using last_tick_closes_socket [OF assms] closing_pass_frees_timer freed_timer_stops_loop by metis

definition last_socket :: "(stress_cb, nat) uv_handle" where
  "last_socket = zero_handle\<lparr>htype := UV_TCP, f_ref := True, f_active := True, f_reading := True,
     f_readable := True, f_writable := True, fd_open := True, hdata := Some 3\<rparr>"

definition last_timer :: "(stress_cb, nat) uv_handle" where
  "last_timer = zero_handle\<lparr>htype := UV_TIMER, f_ref := True, f_active := True, node_linked := True,
     hdata := Some 3, timer_cb := Some On_timer, repeat := 100\<rparr>"

definition last_client :: stress_client where
  "last_client = \<lparr>client_id = 1, messages_to_send = 10, messages_sent = 10, messages_received = 0,
     connecting = False, sc_connected = True\<rparr>"

definition last_state :: stress where
  "last_state = (stress_program 0)
     \<lparr>suv := (suv (stress_program 0))\<lparr>handles := [StressSocket 3 \<mapsto> last_socket, StressTimer 3 \<mapsto> last_timer],
        timer_heap := [StressTimer 3], active_handles := 2\<rparr>,
      sclients := [3 \<mapsto> last_client]\<rparr>"

lemma last_state_timers: "timers_ok (suv last_state)"
  by (rule timers_okI) (auto simp: last_state_def heap_ok_def last_socket_def last_timer_def is_active_timer_def
      zero_handle_def split: option.splits)

theorem finished_client_stops_program_witness:
  "\<exists>w1 w2. on_timer (StressTimer 3) last_state = Ret w1 \<and>
    uv__run_closing_handles suv set_suv stress_callback s_on_write w1 = Ret w2 \<and>
    uv__run_closing_handles suv set_suv stress_callback s_on_write w2 = Fault UseAfterFree"
  by (rule finished_client_stops_program [OF last_state_timers, where c = last_client and t = last_timer and x = last_socket])
    (simp_all add: last_state_def last_client_def last_timer_def last_socket_def zero_handle_def
      uv__is_closing_def stress_program_def)

end
