(* ===== verification/Uv_Write.thy ===== *)
theory Uv_Write
  imports Uv_Loop
begin

text \<open>
  How a stream writes (\<open>ge/libuv/src/unix/stream.c\<close>): the requests of \<open>uv_write\<close> with their buffers, which
  the kernel takes in pieces of its own choice, the queue of requests still to write and that of the
  requests whose callbacks are due. The bytes the kernel has taken are the \<open>wire\<close>.

  This is the detail behind \<open>uv_write\<close> and \<open>uv__write_complete\<close>, where a request is written at one point
  of time. No descriptors are sent along, \<open>uv_shutdown\<close> is not used, the platform is Linux.
\<close>

section \<open>State\<close>

text \<open>
  \<open>uv_write_t\<close>. A buffer is the bytes still to write of it: moving \<open>base\<close> forward and reducing \<open>len\<close> drops
  bytes in front. \<open>r_bufs\<close> is \<open>None\<close> after it was freed, \<open>r_id\<close> tells requests apart.
\<close>

record uv_write_req =
  r_id :: nat
  r_bufs :: "byte list list option"
  r_index :: nat
  r_error :: int

text \<open>
  The writing side of \<open>uv_stream_t\<close>: \<open>wr_connecting\<close> while there is a \<open>connect_req\<close>, \<open>wr_pollout\<close> when the loop
  watches for \<open>POLLOUT\<close>, \<open>wr_fed\<close> when \<open>uv__io_feed\<close> has put the stream on the list of pending
  callbacks, \<open>called\<close> the write callbacks so far with their status, \<open>wr_active\<close> the stream's share of the active
  requests of the loop.
\<close>

record wstream =
  wr_fd_open :: bool
  wr_writable :: bool
  wr_blocking :: bool
  wr_connecting :: bool
  wr_delayed_error :: int
  wr_closing :: bool
  wr_queue :: "uv_write_req list"
  wr_completed :: "uv_write_req list"
  wr_queue_size :: nat
  wr_active :: nat
  wr_pollout :: bool
  wr_fed :: bool
  called :: "(nat \<times> int) list"
  wire :: "byte list"

definition UV_EAGAIN :: int where "UV_EAGAIN = -11"
definition UV_ENOMEM :: int where "UV_ENOMEM = -12"
definition UV_EINPROGRESS :: int where "UV_EINPROGRESS = -115"

text \<open>\<open>uv__req_unregister\<close>.\<close>

definition uv__req_unregister :: "wstream \<Rightarrow> wstream res" where
  "uv__req_unregister s = assert_that (0 < wr_active s) (Ret (s\<lparr>wr_active := wr_active s - 1\<rparr>))"

section \<open>Buffers and requests\<close>

definition uv__count_bufs :: "byte list list \<Rightarrow> nat" where
  "uv__count_bufs bufs = sum_list (map length bufs)"

definition uv__write_req_size :: "wstream \<Rightarrow> uv_write_req \<Rightarrow> nat res" where
  "uv__write_req_size s req =
     (case r_bufs req of
        None \<Rightarrow> Fault AssertionFailure
      | Some bufs \<Rightarrow>
          let bytes = uv__count_bufs (drop (r_index req) bufs) in
          assert_that (bytes \<le> wr_queue_size s) (Ret bytes))"

text \<open>The loop of \<open>uv__write_req_update\<close>: the buffers, the current one, and how much is written.\<close>

function advance_bufs :: "byte list list \<Rightarrow> nat \<Rightarrow> nat \<Rightarrow> (byte list list \<times> nat) res" where
  "advance_bufs bufs i n =
     (if length bufs \<le> i then Fault OutOfBounds
      else let buf = bufs ! i; len = (if n < length buf then n else length buf);
               buf' = drop len buf; i' = (if length buf' = 0 then i + 1 else i) in
        if 0 < n - len then advance_bufs (bufs[i := buf']) i' (n - len)
        else Ret (bufs[i := buf'], i'))"
  by pat_completeness auto
termination
  by (relation "measure (\<lambda>(bufs, i, n). length bufs - i)") (auto simp: Let_def split: if_splits)

declare advance_bufs.simps [simp del]

definition uv__write_req_update :: "wstream \<Rightarrow> uv_write_req \<Rightarrow> nat \<Rightarrow> (bool \<times> wstream \<times> uv_write_req) res" where
  "uv__write_req_update s req n =
     assert_that (n \<le> wr_queue_size s)
       (case r_bufs req of
          None \<Rightarrow> Fault NullDeref
        | Some bufs \<Rightarrow> then_do (advance_bufs bufs (r_index req) n) (\<lambda>(bufs, i).
            Ret (i = length bufs, s\<lparr>wr_queue_size := wr_queue_size s - n\<rparr>,
              req\<lparr>r_bufs := Some bufs, r_index := i\<rparr>)))"

text \<open>\<open>uv__write_req_finish\<close> for the request at the head of the queue.\<close>

definition uv__write_req_finish :: "wstream \<Rightarrow> wstream" where
  "uv__write_req_finish s =
     (case wr_queue s of
        [] \<Rightarrow> s
      | req # q \<Rightarrow>
          s\<lparr>wr_queue := q,
            wr_completed := wr_completed s @ [if r_error req = 0 then req\<lparr>r_bufs := None\<rparr> else req],
            wr_fed := True\<rparr>)"

section \<open>Writing\<close>

text \<open>
  What the kernel answers to \<open>write\<close> and \<open>writev\<close>: it takes some bytes, never more than there are, or reports an
  error number. An interrupted call is repeated; when no answer is left the kernel takes nothing.
\<close>

datatype kernel_write = Wrote nat | Errno nat

definition EINTR :: nat where "EINTR = 4"
definition EAGAIN :: nat where "EAGAIN = 11"
definition ENOBUFS :: nat where "ENOBUFS = 105"

fun uv__try_write ::
  "nat \<Rightarrow> byte list list \<Rightarrow> kernel_write list \<Rightarrow> wstream \<Rightarrow> int \<times> wstream \<times> kernel_write list" where
  "uv__try_write iovmax bufs [] s = (UV_EAGAIN, s, [])"
| "uv__try_write iovmax bufs (Wrote k # ks) s =
     (let data = concat (take iovmax bufs); n = min k (length data) in
        (int n, s\<lparr>wire := wire s @ take n data\<rparr>, ks))"
| "uv__try_write iovmax bufs (Errno e # ks) s =
     (if e = EINTR then uv__try_write iovmax bufs ks s
      else if e = EAGAIN \<or> e = ENOBUFS then (UV_EAGAIN, s, ks)
      else (- int e, s, ks))"

lemma try_write_answers:
  "uv__try_write iovmax bufs ks s = (n, s', ks') \<Longrightarrow> length ks' \<le> length ks \<and> (ks \<noteq> [] \<longrightarrow> length ks' < length ks)"
  by (induction iovmax bufs ks s rule: uv__try_write.induct)
    (auto simp: Let_def split: if_splits)

lemma try_write_shortens:
  "uv__try_write iovmax bufs ks s = (n, s', ks') \<Longrightarrow> 0 \<le> n \<or> ks \<noteq> [] \<Longrightarrow> length ks' < length ks"
  using try_write_answers [of iovmax bufs ks s n s' ks'] by (cases ks) (auto simp: UV_EAGAIN_def)

text \<open>
  The loop of \<open>uv__write\<close>, with the requests it may still finish. A blocking stream tries again for ever when
  the kernel takes nothing.
\<close>

function write_loop :: "nat \<Rightarrow> nat \<Rightarrow> kernel_write list \<Rightarrow> wstream \<Rightarrow> wstream res" where
  "write_loop iovmax tries ks s =
     (case wr_queue s of
        [] \<Rightarrow> Ret s
      | req # q \<Rightarrow>
          case r_bufs req of
            None \<Rightarrow> Fault NullDeref
          | Some bufs \<Rightarrow>
              case uv__try_write iovmax (drop (r_index req) bufs) ks s of (n, s, ks') \<Rightarrow>
                if 0 \<le> n then
                  then_do (uv__write_req_update s req (nat n)) (\<lambda>(all, s, req).
                    let s = s\<lparr>wr_queue := req # q\<rparr> in
                    if all then
                      let s = uv__write_req_finish s in
                      if 0 < tries then write_loop iovmax (tries - 1) ks' s else Ret s
                    else if wr_blocking s then write_loop iovmax tries ks' s
                    else Ret (s\<lparr>wr_pollout := True\<rparr>))
                else if n \<noteq> UV_EAGAIN then
                  Ret ((uv__write_req_finish (s\<lparr>wr_queue := req\<lparr>r_error := n\<rparr> # q\<rparr>))\<lparr>wr_pollout := False\<rparr>)
                else if wr_blocking s then
                  if ks = [] then Fault Diverges else write_loop iovmax tries ks' s
                else Ret (s\<lparr>wr_pollout := True\<rparr>))"
  by pat_completeness auto
termination
  by (relation "measure (\<lambda>(iovmax, tries, ks, s). length ks)")
    (auto dest!: try_write_shortens [OF sym])

declare write_loop.simps [simp del]

definition uv__write :: "nat \<Rightarrow> kernel_write list \<Rightarrow> wstream \<Rightarrow> wstream res" where
  "uv__write iovmax ks s = assert_that (wr_fd_open s) (write_loop iovmax 32 ks s)"

text \<open>
  \<open>uv__check_before_write\<close> without a handle to send, and \<open>uv_write2\<close>. A request of more than four buffers
  needs memory; \<open>malloc_ok\<close> says whether there is some.
\<close>

definition uv__check_before_write :: "wstream \<Rightarrow> nat \<Rightarrow> int res" where
  "uv__check_before_write s nbufs =
     assert_that (0 < nbufs)
       (if \<not> wr_fd_open s then Ret UV_EBADF else if \<not> wr_writable s then Ret UV_EPIPE else Ret 0)"

definition uv_write2 ::
  "nat \<Rightarrow> nat \<Rightarrow> byte list list \<Rightarrow> bool \<Rightarrow> kernel_write list \<Rightarrow> wstream \<Rightarrow> (int \<times> wstream) res" where
  "uv_write2 iovmax rid bufs malloc_ok ks s =
     then_do (uv__check_before_write s (length bufs)) (\<lambda>err.
       if err < 0 then Ret (err, s)
       else let empty_queue = (wr_queue_size s = 0);
                s = s\<lparr>wr_active := wr_active s + 1\<rparr> in
         if 4 < length bufs \<and> \<not> malloc_ok then Ret (UV_ENOMEM, s)
         else let s = s\<lparr>wr_queue_size := wr_queue_size s + uv__count_bufs bufs,
                   wr_queue := wr_queue s @ [\<lparr>r_id = rid, r_bufs = Some bufs, r_index = 0, r_error = 0\<rparr>]\<rparr> in
           if wr_connecting s then Ret (0, s)
           else if empty_queue then then_do (uv__write iovmax ks s) (\<lambda>s. Ret (0, s))
           else assert_that (\<not> wr_blocking s) (Ret (0, s\<lparr>wr_pollout := True\<rparr>)))"

section \<open>Callbacks\<close>

text \<open>\<open>uv__write_callbacks\<close>. The callbacks are recorded; those of the program only free what they were given.\<close>

fun callback_loop :: "uv_write_req list \<Rightarrow> wstream \<Rightarrow> wstream res" where
  "callback_loop [] s = Ret s"
| "callback_loop (req # pq) s =
     then_do (uv__req_unregister s) (\<lambda>s.
     then_do
       (if r_bufs req \<noteq> None
        then then_do (uv__write_req_size s req) (\<lambda>bytes. Ret (s\<lparr>wr_queue_size := wr_queue_size s - bytes\<rparr>))
        else Ret s) (\<lambda>s.
     callback_loop pq (s\<lparr>called := called s @ [(r_id req, r_error req)]\<rparr>)))"

definition uv__write_callbacks :: "wstream \<Rightarrow> wstream res" where
  "uv__write_callbacks s =
     (if wr_completed s = [] then Ret s else callback_loop (wr_completed s) (s\<lparr>wr_completed := []\<rparr>))"

definition uv__drain :: "wstream \<Rightarrow> wstream res" where
  "uv__drain s =
     assert_that (wr_queue s = []) (Ret (if \<not> wr_closing s then s\<lparr>wr_pollout := False\<rparr> else s))"

definition uv__stream_flush_write_queue :: "wstream \<Rightarrow> int \<Rightarrow> wstream" where
  "uv__stream_flush_write_queue s err =
     s\<lparr>wr_completed := wr_completed s @ map (\<lambda>r. r\<lparr>r_error := err\<rparr>) (wr_queue s), wr_queue := []\<rparr>"

text \<open>
  \<open>uv__stream_connect\<close>, where \<open>so_error\<close> is what \<open>getsockopt\<close> answers; the callback of the connect
  request does not touch the writing side.
\<close>

definition connect_error :: "int \<Rightarrow> wstream \<Rightarrow> (int \<times> wstream) res" where
  "connect_error so_error s =
     (if wr_delayed_error s \<noteq> 0 then Ret (wr_delayed_error s, s\<lparr>wr_delayed_error := 0\<rparr>)
      else assert_that (wr_fd_open s) (Ret (so_error, s)))"

definition stream_connect_writes :: "int \<Rightarrow> wstream \<Rightarrow> wstream res" where
  "stream_connect_writes so_error s =
     then_do (connect_error so_error s) (\<lambda>(err, s).
       if err = UV_EINPROGRESS then Ret s
       else then_do (uv__req_unregister (s\<lparr>wr_connecting := False\<rparr>)) (\<lambda>s.
         let s = (if err < 0 \<or> wr_queue s = [] then s\<lparr>wr_pollout := False\<rparr> else s) in
         if \<not> wr_fd_open s then Ret s
         else if err < 0 then uv__write_callbacks (uv__stream_flush_write_queue s UV_ECANCELED)
         else Ret s))"

text \<open>
  \<open>uv__stream_io\<close> for \<open>POLLOUT\<close>: the loop calls it when the descriptor is writable, and
  \<open>uv__run_pending\<close> when the stream was fed.
\<close>

definition uv__stream_io :: "nat \<Rightarrow> int \<Rightarrow> kernel_write list \<Rightarrow> wstream \<Rightarrow> wstream res" where
  "uv__stream_io iovmax so_error ks s =
     assert_that (\<not> wr_closing s)
       (if wr_connecting s then stream_connect_writes so_error s
        else assert_that (wr_fd_open s)
          (then_do (uv__write iovmax ks s) (\<lambda>s.
           then_do (uv__write_callbacks s) (\<lambda>s.
             if wr_queue s = [] then uv__drain s else Ret s))))"

definition run_pending :: "nat \<Rightarrow> int \<Rightarrow> kernel_write list \<Rightarrow> wstream \<Rightarrow> wstream res" where
  "run_pending iovmax so_error ks s =
     (if wr_fed s then uv__stream_io iovmax so_error ks (s\<lparr>wr_fed := False\<rparr>) else Ret s)"

text \<open>
  \<open>uv__stream_close\<close> stops the watcher and closes the descriptor; \<open>uv__stream_destroy\<close> follows when the
  loop runs the closing callbacks; both for what they do to the writing side.
\<close>

definition close_writes :: "wstream \<Rightarrow> wstream" where
  "close_writes s =
     s\<lparr>wr_closing := True, wr_pollout := False, wr_fed := False, wr_writable := False, wr_fd_open := False\<rparr>"

definition stream_destroy_writes :: "wstream \<Rightarrow> wstream res" where
  "stream_destroy_writes s =
     assert_that (\<not> wr_pollout s)
       (then_do
         (if wr_connecting s
          then then_do (uv__req_unregister s) (\<lambda>s. Ret (s\<lparr>wr_connecting := False\<rparr>))
          else Ret s) (\<lambda>s.
       then_do (uv__write_callbacks (uv__stream_flush_write_queue s UV_ECANCELED)) (\<lambda>s.
       then_do (uv__drain s) (\<lambda>s.
         assert_that (wr_queue_size s = 0) (Ret s)))))"

section \<open>Runs\<close>

text \<open>A sequence of calls and events on one stream.\<close>

datatype write_op =
    CallWrite nat "byte list list" bool "kernel_write list"
  | PollOut int "kernel_write list"
  | RunPending int "kernel_write list"

fun run_op :: "nat \<Rightarrow> write_op \<Rightarrow> wstream \<Rightarrow> wstream res" where
  "run_op iovmax (CallWrite rid bufs ok ks) s =
     then_do (uv_write2 iovmax rid bufs ok ks s) (\<lambda>(r, s). Ret s)"
| "run_op iovmax (PollOut e ks) s = uv__stream_io iovmax e ks s"
| "run_op iovmax (RunPending e ks) s = run_pending iovmax e ks s"

fun run_ops :: "nat \<Rightarrow> write_op list \<Rightarrow> wstream \<Rightarrow> wstream res" where
  "run_ops iovmax [] s = Ret s"
| "run_ops iovmax (p # ps) s = then_do (run_op iovmax p s) (run_ops iovmax ps)"

text \<open>
  A connected stream (\<open>connecting\<close> false), or one on which \<open>uv__tcp_connect\<close> has started a connection, perhaps with
  an error to report later.
\<close>

definition fresh_stream :: "bool \<Rightarrow> int \<Rightarrow> wstream" where
  "fresh_stream connecting delayed = \<lparr>wr_fd_open = True, wr_writable = True, wr_blocking = False,
     wr_connecting = connecting, wr_delayed_error = delayed, wr_closing = False, wr_queue = [], wr_completed = [],
     wr_queue_size = 0, wr_active = (if connecting then 1 else 0), wr_pollout = connecting, wr_fed = (delayed \<noteq> 0),
     called = [], wire = []\<rparr>"

end
