(* ===== verification/Uv_Write_Facts.thy ===== *)
theory Uv_Write_Facts
  imports Uv_Write "HOL-Library.Sublist"
begin

text \<open>
  What the writing side of a stream keeps: the requests accepted so far are those whose callbacks ran, those whose
  callbacks are due and those in the queue, in this order; the wire has what was written of each; a stream with work
  left is watched or fed.
\<close>

section \<open>Buffers\<close>

definition rest_of :: "uv_write_req \<Rightarrow> byte list" where
  "rest_of r = (case r_bufs r of None \<Rightarrow> [] | Some bufs \<Rightarrow> concat (drop (r_index r) bufs))"

lemma count_bufs_concat: "uv__count_bufs bufs = length (concat bufs)"
  by (simp add: uv__count_bufs_def length_concat)

lemma advance_bufs_drops:
  assumes "i < length bufs" and "n \<le> length (concat (drop i bufs))"
  shows "\<exists>bufs' i'. advance_bufs bufs i n = Ret (bufs', i') \<and> length bufs' = length bufs \<and> i \<le> i' \<and> i' \<le> length bufs \<and>
    concat (drop i' bufs') = drop n (concat (drop i bufs)) \<and> (n = 0 \<and> bufs ! i = [] \<longrightarrow> i < i')"
  using assms
proof (induction bufs i n rule: advance_bufs.induct)
  case (1 bufs i n)
  have d: "drop i bufs = bufs ! i # drop (Suc i) bufs"
    using "1.prems"(1) by (simp add: Cons_nth_drop_Suc)
  show ?case
  proof (cases "length (bufs ! i) < n")
    case True
    have n: "n - length (bufs ! i) \<le> length (concat (drop (Suc i) bufs))"
      using "1.prems"(2) d by simp
    then have i: "Suc i < length bufs" using True by (cases "Suc i < length bufs") auto
    show ?thesis
      using "1.IH" [OF _ refl refl refl refl] True "1.prems" n i d
      by (subst advance_bufs.simps) (auto simp: Let_def)
  next
    case False
    then have "advance_bufs bufs i n =
        Ret (bufs[i := drop n (bufs ! i)], if drop n (bufs ! i) = [] then Suc i else i)"
      using "1.prems"(1) by (subst advance_bufs.simps) (auto simp: Let_def)
    moreover have "drop i (bufs[i := x]) = x # drop (Suc i) bufs" for x
      using "1.prems"(1) by (simp add: drop_update_swap d)
    ultimately show ?thesis using "1.prems"(1) False d by auto
  qed
qed

text \<open>What is left to do of a request: its bytes, and its buffers, since an empty one takes a call of its own.\<close>

definition req_rank :: "uv_write_req \<Rightarrow> nat" where
  "req_rank r = length (rest_of r) + (case r_bufs r of None \<Rightarrow> 0 | Some bufs \<Rightarrow> length bufs - r_index r)"

definition backlog :: "wstream \<Rightarrow> nat" where
  "backlog s = sum_list (map req_rank (wr_queue s))"

definition next_buf :: "uv_write_req \<Rightarrow> byte list" where
  "next_buf r = the (r_bufs r) ! r_index r"

section \<open>The invariant\<close>

text \<open>What became of a request that is no longer in the queue: its status and the bytes sent of it.\<close>

record outcome =
  o_id :: nat
  o_full :: "byte list"
  o_status :: int
  o_sent :: "byte list"

definition fair_outcome :: "outcome \<Rightarrow> bool" where
  "fair_outcome x \<longleftrightarrow> (if o_status x = 0 then o_sent x = o_full x else o_status x < 0 \<and> prefix (o_sent x) (o_full x))"

text \<open>A request in the queue, of which \<open>p\<close> is written.\<close>

definition pending_req :: "byte list \<Rightarrow> nat \<times> byte list \<Rightarrow> uv_write_req \<Rightarrow> bool" where
  "pending_req p a r \<longleftrightarrow> r_id r = fst a \<and> r_error r = 0 \<and> snd a = p @ rest_of r \<and>
     (\<exists>bufs. r_bufs r = Some bufs \<and> r_index r < length bufs)"

fun queue_holds :: "byte list \<Rightarrow> (nat \<times> byte list) list \<Rightarrow> uv_write_req list \<Rightarrow> bool" where
  "queue_holds p [] [] = (p = [])"
| "queue_holds p (a # acq) (r # q) = (pending_req p a r \<and> list_all2 (pending_req []) acq q)"
| "queue_holds p _ _ = False"

definition settled_req :: "uv_write_req \<Rightarrow> bool" where
  "settled_req r \<longleftrightarrow> (r_error r = 0) = (r_bufs r = None)"

definition bytes_left :: "uv_write_req list \<Rightarrow> nat" where
  "bytes_left q = sum_list (map (length \<circ> rest_of) q)"

definition ledger :: "outcome list \<Rightarrow> byte list \<Rightarrow> (nat \<times> byte list) list \<Rightarrow> wstream \<Rightarrow> bool" where
  "ledger out p acq s \<longleftrightarrow>
     map (\<lambda>x. (o_id x, o_status x)) out = called s @ map (\<lambda>r. (r_id r, r_error r)) (wr_completed s) \<and>
     wire s = concat (map o_sent out) @ p \<and>
     (\<forall>x\<in>set out. fair_outcome x) \<and>
     queue_holds p acq (wr_queue s) \<and>
     (\<forall>r\<in>set (wr_completed s). settled_req r) \<and>
     wr_queue_size s = bytes_left (wr_queue s) + bytes_left (wr_completed s) \<and>
     length (wr_queue s) + length (wr_completed s) + (if wr_connecting s then 1 else 0) \<le> wr_active s"

text \<open>The flags of a stream in use: a stream with work left is watched or fed.\<close>

definition awake :: "wstream \<Rightarrow> bool" where
  "awake s \<longleftrightarrow> wr_fd_open s \<and> wr_writable s \<and> \<not> wr_blocking s \<and> \<not> wr_closing s \<and>
     (wr_connecting s \<longrightarrow> wr_pollout s \<and> wr_completed s = []) \<and>
     (wr_queue s \<noteq> [] \<longrightarrow> wr_pollout s \<or> wr_fed s) \<and> (wr_completed s \<noteq> [] \<longrightarrow> wr_fed s)"

definition writes :: "(nat \<times> byte list) list \<Rightarrow> wstream \<Rightarrow> bool" where
  "writes acc s \<longleftrightarrow> (\<exists>out p acq. acc = map (\<lambda>x. (o_id x, o_full x)) out @ acq \<and> ledger out p acq s)"

lemma writes_fresh: "writes [] (fresh_stream c d)" "awake (fresh_stream c d)"
  by (auto simp: writes_def ledger_def fresh_stream_def awake_def bytes_left_def intro!: exI [of _ "[]"])

text \<open>Only some of the fields matter.\<close>

lemma writes_flags [simp]:
  "writes acc (s\<lparr>wr_pollout := b\<rparr>) = writes acc s"
  "writes acc (s\<lparr>wr_fed := b\<rparr>) = writes acc s"
  by (simp_all add: writes_def ledger_def)

section \<open>The queue\<close>

lemma bytes_left_simps [simp]:
  "bytes_left [] = 0" "bytes_left (r # q) = length (rest_of r) + bytes_left q"
  "bytes_left (q @ q') = bytes_left q + bytes_left q'"
  by (simp_all add: bytes_left_def)

lemma queue_holds_cons:
  "queue_holds p acq (r # q) \<longleftrightarrow> (\<exists>a acq'. acq = a # acq' \<and> pending_req p a r \<and> list_all2 (pending_req []) acq' q)"
  by (cases acq) auto

lemma queue_holds_clean: "list_all2 (pending_req []) acq q \<longleftrightarrow> queue_holds [] acq q"
  by (cases "([]::byte list, acq, q)" rule: queue_holds.cases) auto

lemma queue_holds_snoc:
  "queue_holds p acq q \<Longrightarrow> pending_req [] a r \<Longrightarrow> queue_holds p (acq @ [a]) (q @ [r])"
  by (cases "(p, acq, q)" rule: queue_holds.cases) (auto intro: list_all2_appendI)

lemma req_update:
  assumes "writes acc s" and "wr_queue s = r # q" and "n \<le> length (rest_of r)"
  shows "\<exists>r'. uv__write_req_update (s\<lparr>wire := wire s @ take n (rest_of r)\<rparr>) r n =
      Ret (r_index r' = length (the (r_bufs r')),
        s\<lparr>wire := wire s @ take n (rest_of r), wr_queue_size := wr_queue_size s - n\<rparr>, r') \<and>
    rest_of r' = drop n (rest_of r) \<and> r_id r' = r_id r \<and> r_error r' = 0 \<and>
    (\<exists>bufs. r_bufs r' = Some bufs \<and> r_index r' \<le> length bufs) \<and>
    req_rank r' \<le> req_rank r \<and> (0 < n \<or> next_buf r = [] \<longrightarrow> req_rank r' < req_rank r)"
proof -
  obtain out p acq where acc: "acc = map (\<lambda>x. (o_id x, o_full x)) out @ acq" and l: "ledger out p acq s"
    using assms(1) by (auto simp: writes_def)
  then obtain bufs where b: "r_bufs r = Some bufs" "r_index r < length bufs" "r_error r = 0"
    using assms(2) by (auto simp: ledger_def queue_holds_cons pending_req_def)
  have rest: "rest_of r = concat (drop (r_index r) bufs)" by (simp add: rest_of_def b)
  have n: "n \<le> wr_queue_size s" using l assms(2,3) by (simp add: ledger_def)
  obtain bufs' i' where a: "advance_bufs bufs (r_index r) n = Ret (bufs', i')" "length bufs' = length bufs"
      "r_index r \<le> i'" "i' \<le> length bufs" "concat (drop i' bufs') = drop n (rest_of r)"
      "n = 0 \<and> bufs ! r_index r = [] \<longrightarrow> r_index r < i'"
    using advance_bufs_drops [OF b(2), of n] assms(3) rest by auto
  show ?thesis
    by (rule exI [of _ "r\<lparr>r_bufs := Some bufs', r_index := i'\<rparr>"])
      (use a b n assms(3) in \<open>auto simp: uv__write_req_update_def rest_of_def req_rank_def next_buf_def\<close>)
qed

text \<open>The three ways an attempt to write the first request ends: it is finished, there is more of it, it failed.\<close>

lemma writes_finish:
  assumes "writes acc s" and "wr_queue s = r # q" and "n \<le> length (rest_of r)"
    and "rest_of r' = drop n (rest_of r)" and "rest_of r' = []" and "r_id r' = r_id r" and "r_error r' = 0"
  shows "writes acc (uv__write_req_finish
    (s\<lparr>wire := wire s @ take n (rest_of r), wr_queue_size := wr_queue_size s - n, wr_queue := r' # q\<rparr>))"
proof -
  obtain out p a acq where acc: "acc = map (\<lambda>x. (o_id x, o_full x)) out @ a # acq"
      and l: "ledger out p (a # acq) s" and r: "pending_req p a r" and q: "list_all2 (pending_req []) acq q"
    using assms(1,2) by (auto simp: writes_def ledger_def queue_holds_cons)
  have n: "n = length (rest_of r)" using assms(3,4,5) by simp
  show ?thesis unfolding writes_def
    by (rule exI [of _ "out @ [\<lparr>o_id = r_id r, o_full = snd a, o_status = 0, o_sent = snd a\<rparr>]"],
        rule exI [of _ "[]"], rule exI [of _ acq])
      (use acc l r q n assms in \<open>auto simp: ledger_def uv__write_req_finish_def fair_outcome_def pending_req_def
         settled_req_def rest_of_def queue_holds_clean prod_eq_iff\<close>)
qed

lemma writes_partial:
  assumes "writes acc s" and "wr_queue s = r # q" and "n \<le> length (rest_of r)"
    and "rest_of r' = drop n (rest_of r)" and "r_id r' = r_id r" and "r_error r' = 0"
    and "r_bufs r' = Some bufs" and "r_index r' < length bufs"
  shows "writes acc (s\<lparr>wire := wire s @ take n (rest_of r), wr_queue_size := wr_queue_size s - n, wr_queue := r' # q\<rparr>)"
proof -
  obtain out p a acq where acc: "acc = map (\<lambda>x. (o_id x, o_full x)) out @ a # acq"
      and l: "ledger out p (a # acq) s" and r: "pending_req p a r" and q: "list_all2 (pending_req []) acq q"
    using assms(1,2) by (auto simp: writes_def ledger_def queue_holds_cons)
  show ?thesis unfolding writes_def
    by (rule exI [of _ out], rule exI [of _ "p @ take n (rest_of r)"], rule exI [of _ "a # acq"])
      (use acc l r q assms in \<open>auto simp: ledger_def pending_req_def\<close>)
qed

lemma writes_failed:
  assumes "writes acc s" and "wr_queue s = r # q" and "e < 0"
  shows "writes acc (uv__write_req_finish (s\<lparr>wr_queue := r\<lparr>r_error := e\<rparr> # q\<rparr>))"
proof -
  obtain out p a acq where acc: "acc = map (\<lambda>x. (o_id x, o_full x)) out @ a # acq"
      and l: "ledger out p (a # acq) s" and r: "pending_req p a r" and q: "list_all2 (pending_req []) acq q"
    using assms(1,2) by (auto simp: writes_def ledger_def queue_holds_cons)
  show ?thesis unfolding writes_def
    by (rule exI [of _ "out @ [\<lparr>o_id = r_id r, o_full = snd a, o_status = e, o_sent = p\<rparr>]"],
        rule exI [of _ "[]"], rule exI [of _ acq])
      (use acc l r q assms in \<open>auto simp: ledger_def uv__write_req_finish_def fair_outcome_def pending_req_def
         settled_req_def rest_of_def queue_holds_clean prod_eq_iff\<close>)
qed

section \<open>Writing\<close>

definition steady :: "wstream \<Rightarrow> bool" where
  "steady s \<longleftrightarrow> wr_fd_open s \<and> wr_writable s \<and> \<not> wr_blocking s \<and> \<not> wr_closing s \<and> \<not> wr_connecting s"

definition reported :: "wstream \<Rightarrow> bool" where
  "reported s \<longleftrightarrow> (wr_completed s \<noteq> [] \<longrightarrow> wr_fed s)"

definition watched :: "wstream \<Rightarrow> bool" where
  "watched s \<longleftrightarrow> (wr_queue s \<noteq> [] \<longrightarrow> wr_pollout s \<or> wr_fed s)"

lemma awake_steady: "\<not> wr_connecting s \<Longrightarrow> awake s \<longleftrightarrow> steady s \<and> reported s \<and> watched s"
  by (auto simp: awake_def steady_def reported_def watched_def)

lemma try_write_result:
  assumes "uv__try_write iovmax bufs ks s = (n, s', ks')"
  shows "n < 0 \<and> s' = s \<or> (\<exists>k \<le> length (concat bufs). n = int k \<and> s' = s\<lparr>wire := wire s @ take k (concat bufs)\<rparr>)"
  using assms
proof (induction iovmax bufs ks s rule: uv__try_write.induct)
  case (2 iovmax bufs k ks s)
  let ?c = "concat (take iovmax bufs)" let ?n = "min k (length ?c)"
  have "concat bufs = ?c @ concat (drop iovmax bufs)" by (metis append_take_drop_id concat_append)
  then have "?n \<le> length (concat bufs)" "take ?n ?c = take ?n (concat bufs)" by simp_all
  then show ?case using 2 by (auto simp: Let_def intro!: exI [of _ ?n])
qed (auto simp: UV_EAGAIN_def split: if_splits)

lemma try_write_moves:
  assumes "uv__try_write iovmax (drop (r_index r) bufs) (Wrote (Suc j) # ks) s = (int k, s', ks')" and "0 < iovmax"
    and "r_bufs r = Some bufs" and "r_index r < length bufs"
  shows "0 < k \<or> next_buf r = []"
  using assms by (cases iovmax; cases "drop (r_index r) bufs")
    (auto simp: Let_def next_buf_def hd_drop_conv_nth [symmetric])

definition takes_some :: "nat \<Rightarrow> kernel_write list \<Rightarrow> bool" where
  "takes_some iovmax ks \<longleftrightarrow> 0 < iovmax \<and> (case ks of Wrote (Suc k) # ks' \<Rightarrow> True | _ \<Rightarrow> False)"

lemma takes_some_iff: "takes_some iovmax ks \<longleftrightarrow> 0 < iovmax \<and> (\<exists>k ks'. ks = Wrote (Suc k) # ks')"
  by (auto simp: takes_some_def split: list.split kernel_write.split nat.split)

lemma write_loop_keeps:
  assumes "writes acc s" and "steady s"
  shows "\<exists>s'. write_loop iovmax tries ks s = Ret s' \<and> writes acc s' \<and> steady s' \<and> watched s' \<and>
    (reported s \<longrightarrow> reported s') \<and> backlog s' \<le> backlog s \<and>
    (takes_some iovmax ks \<and> wr_queue s \<noteq> [] \<longrightarrow> backlog s' < backlog s)"
  using assms
proof (induction "length ks" arbitrary: tries ks s rule: less_induct)
  case less
  show ?case
  proof (cases "wr_queue s")
    case Nil
    then show ?thesis using less.prems
      by (subst write_loop.simps) (auto simp: steady_def watched_def reported_def)
  next
    case (Cons r q)
    have "\<exists>bufs. r_bufs r = Some bufs \<and> r_index r < length bufs"
      using less.prems(1) Cons by (auto simp: writes_def ledger_def queue_holds_cons pending_req_def)
    then obtain bufs where b: "r_bufs r = Some bufs" and i: "r_index r < length bufs" by blast
    have rank: "backlog s = req_rank r + sum_list (map req_rank q)" by (simp add: backlog_def Cons)
    have c: "concat (drop (r_index r) bufs) = rest_of r" by (simp add: rest_of_def b)
    obtain n s1 ks' where t: "uv__try_write iovmax (drop (r_index r) bufs) ks s = (n, s1, ks')"
      by (metis prod_cases3)
    have nb: "\<not> wr_blocking s" using less.prems(2) by (simp add: steady_def)
    show ?thesis
    proof (cases "n < 0")
      case True
      then have s1: "s1 = s" using try_write_result [OF t] by auto
      have k: "\<not> takes_some iovmax ks" using True t by (auto simp: takes_some_iff Let_def)
      show ?thesis
      proof (cases "n = UV_EAGAIN")
        case again: True
        then show ?thesis using less.prems True Cons b t s1 nb
          by (subst write_loop.simps) (auto simp: steady_def watched_def reported_def backlog_def k)
      next
        case False
        then show ?thesis using less.prems True Cons b t s1 writes_failed [OF less.prems(1) Cons True]
          by (subst write_loop.simps) (auto simp: steady_def watched_def reported_def backlog_def k uv__write_req_finish_def)
      qed
    next
      case False
      then obtain k where k: "n = int k" "k \<le> length (rest_of r)"
          and s1: "s1 = s\<lparr>wire := wire s @ take k (rest_of r)\<rparr>"
        using try_write_result [OF t] unfolding c by auto
      obtain r' bufs' where u: "uv__write_req_update s1 r k = Ret (r_index r' = length bufs',
            s\<lparr>wire := wire s @ take k (rest_of r), wr_queue_size := wr_queue_size s - k\<rparr>, r')"
          and r': "rest_of r' = drop k (rest_of r)" "r_id r' = r_id r" "r_error r' = 0"
            "r_bufs r' = Some bufs'" "r_index r' \<le> length bufs'"
          and less_left: "req_rank r' \<le> req_rank r" "0 < k \<or> next_buf r = [] \<Longrightarrow> req_rank r' < req_rank r"
        using req_update [OF less.prems(1) Cons k(2)] unfolding s1 by auto
      let ?s = "s\<lparr>wire := wire s @ take k (rest_of r), wr_queue_size := wr_queue_size s - k, wr_queue := r' # q\<rparr>"
      have taken: "req_rank r' < req_rank r" if "takes_some iovmax ks"
        using that t try_write_moves [OF _ _ b i] less_left(2) k(1) by (auto simp: takes_some_iff)
      have len: "length ks' < length ks" using try_write_shortens [OF t] False by simp
      show ?thesis
      proof (cases "r_index r' = length bufs'")
        case True
        then have "rest_of r' = []" using r' by (simp add: rest_of_def)
        then have w: "writes acc (uv__write_req_finish ?s)"
          by (rule writes_finish [OF less.prems(1) Cons k(2) r'(1) _ r'(2,3)])
        have st: "steady (uv__write_req_finish ?s)" "wr_fed (uv__write_req_finish ?s)"
          using less.prems(2) by (simp_all add: steady_def uv__write_req_finish_def)
        have rep: "reported (uv__write_req_finish ?s)" using st(2) by (simp add: reported_def)
        have "backlog (uv__write_req_finish ?s) < backlog s"
          using rank i b by (simp add: backlog_def uv__write_req_finish_def req_rank_def)
        moreover obtain s2 where "write_loop iovmax (tries - 1) ks' (uv__write_req_finish ?s) = Ret s2" "writes acc s2"
            "steady s2" "watched s2" "reported s2" "backlog s2 \<le> backlog (uv__write_req_finish ?s)"
          using less.hyps [OF len w st(1)] rep by blast
        moreover have "watched (uv__write_req_finish ?s)" using st(2) by (simp add: watched_def)
        moreover have "write_loop iovmax tries ks s = (if 0 < tries
            then write_loop iovmax (tries - 1) ks' (uv__write_req_finish ?s) else Ret (uv__write_req_finish ?s))"
          using b t k u True Cons by (subst write_loop.simps) (simp add: Let_def)
        ultimately show ?thesis using w st(1) rep by (cases "0 < tries") auto
      next
        case False
        then have "writes acc ?s"
          using writes_partial [OF less.prems(1) Cons k(2) r'(1-4)] r'(5) by simp
        then show ?thesis using False less.prems(2) b t k u Cons less_left(1) taken
          by (subst write_loop.simps) (auto simp: Let_def watched_def reported_def steady_def backlog_def)
      qed
    qed
  qed
qed

section \<open>Operations\<close>

lemma uv__write_keeps:
  assumes "writes acc s" and "steady s"
  shows "\<exists>s'. uv__write iovmax ks s = Ret s' \<and> writes acc s' \<and> steady s' \<and> watched s' \<and>
    (reported s \<longrightarrow> reported s') \<and> backlog s' \<le> backlog s \<and>
    (takes_some iovmax ks \<and> wr_queue s \<noteq> [] \<longrightarrow> backlog s' < backlog s)"
  using write_loop_keeps [OF assms] assms(2) by (simp add: uv__write_def steady_def)

text \<open>What a call of \<open>uv_write2\<close> adds: nothing without memory for the buffers.\<close>

definition accepted_by :: "write_op \<Rightarrow> (nat \<times> byte list) list" where
  "accepted_by op =
     (case op of CallWrite rid bufs ok ks \<Rightarrow> if length bufs \<le> 4 \<or> ok then [(rid, concat bufs)] else []
      | _ \<Rightarrow> [])"

lemma writes_append:
  assumes "writes acc s" and "bufs \<noteq> []"
  shows "writes (acc @ [(rid, concat bufs)])
    (s\<lparr>wr_active := wr_active s + 1, wr_queue_size := wr_queue_size s + uv__count_bufs bufs,
       wr_queue := wr_queue s @ [\<lparr>r_id = rid, r_bufs = Some bufs, r_index = 0, r_error = 0\<rparr>]\<rparr>)"
proof -
  obtain out p acq where acc: "acc = map (\<lambda>x. (o_id x, o_full x)) out @ acq" and l: "ledger out p acq s"
    using assms(1) by (auto simp: writes_def)
  have "pending_req [] (rid, concat bufs) \<lparr>r_id = rid, r_bufs = Some bufs, r_index = 0, r_error = 0\<rparr>"
    using assms(2) by (simp add: pending_req_def rest_of_def)
  then show ?thesis unfolding writes_def
    by (intro exI [of _ out] exI [of _ p] exI [of _ "acq @ [(rid, concat bufs)]"])
      (use acc l in \<open>auto simp: ledger_def count_bufs_concat rest_of_def intro: queue_holds_snoc\<close>)
qed

lemma uv_write2_keeps:
  assumes w: "writes acc s" "awake s" and bufs: "bufs \<noteq> []"
  shows "\<exists>r s'. uv_write2 iovmax rid bufs ok ks s = Ret (r, s') \<and>
    r = (if length bufs \<le> 4 \<or> ok then 0 else UV_ENOMEM) \<and>
    writes (acc @ accepted_by (CallWrite rid bufs ok ks)) s' \<and> awake s' \<and> (wr_connecting s' \<longrightarrow> wr_connecting s)"
proof (cases "length bufs \<le> 4 \<or> ok")
  case False
  have "writes acc (s\<lparr>wr_active := Suc (wr_active s)\<rparr>)"
    using w(1) by (fastforce simp: writes_def ledger_def)
  then show ?thesis using False w(2) bufs
    by (auto simp: uv_write2_def uv__check_before_write_def awake_def accepted_by_def Let_def)
next
  case True
  let ?s = "s\<lparr>wr_active := wr_active s + 1, wr_queue_size := wr_queue_size s + uv__count_bufs bufs,
       wr_queue := wr_queue s @ [\<lparr>r_id = rid, r_bufs = Some bufs, r_index = 0, r_error = 0\<rparr>]\<rparr>"
  note a = writes_append [OF w(1) bufs, of rid]
  show ?thesis
  proof (cases "wr_connecting s \<or> wr_queue_size s \<noteq> 0")
    case later: True
    then show ?thesis using True w(2) bufs a
      by (auto simp: uv_write2_def uv__check_before_write_def awake_def accepted_by_def Let_def)
  next
    case False
    then have st: "steady ?s" "reported ?s" using w(2) by (simp_all add: steady_def reported_def awake_def)
    obtain s' where "uv__write iovmax ks ?s = Ret s'" "writes (acc @ [(rid, concat bufs)]) s'" "awake s'"
        "\<not> wr_connecting s'"
      using uv__write_keeps [OF a st(1)] st(2) by (auto simp: awake_def steady_def reported_def watched_def)
    moreover have "uv_write2 iovmax rid bufs ok ks s = then_do (uv__write iovmax ks ?s) (\<lambda>s. Ret (0, s))"
      using True False w(2) bufs by (auto simp: uv_write2_def uv__check_before_write_def awake_def Let_def)
    ultimately show ?thesis using True by (auto simp: accepted_by_def)
  qed
qed

text \<open>
  A call that is refused for want of memory has registered its request already, and nothing takes it back: the loop
  stays alive.
\<close>

lemma refused_write_stays_active:
  assumes "wr_fd_open s" and "wr_writable s" and "4 < length bufs"
  shows "uv_write2 iovmax rid bufs False ks s = Ret (UV_ENOMEM, s\<lparr>wr_active := wr_active s + 1\<rparr>)"
  using assms by (cases bufs) (simp_all add: uv_write2_def uv__check_before_write_def)

text \<open>The callbacks.\<close>

lemma callback_loop_keeps:
  assumes "writes acc (s\<lparr>wr_completed := pq\<rparr>)" and "wr_completed s = []"
  shows "\<exists>s'. callback_loop pq s = Ret s' \<and> writes acc s' \<and> wr_completed s' = [] \<and>
    called s' = called s @ map (\<lambda>r. (r_id r, r_error r)) pq \<and> wr_queue s' = wr_queue s \<and>
    wire s' = wire s \<and> wr_pollout s' = wr_pollout s \<and> wr_fed s' = wr_fed s \<and> wr_fd_open s' = wr_fd_open s \<and>
    wr_writable s' = wr_writable s \<and> wr_blocking s' = wr_blocking s \<and> wr_closing s' = wr_closing s \<and>
    wr_connecting s' = wr_connecting s"
  using assms
proof (induction pq arbitrary: s)
  case Nil
  then have "s\<lparr>wr_completed := []\<rparr> = s" by simp
  then have "writes acc s" using Nil.prems(1) by metis
  then show ?case using Nil.prems(2) by simp
next
  case (Cons r pq)
  let ?n = "length (rest_of r)"
  let ?s = "s\<lparr>wr_active := wr_active s - 1, wr_queue_size := wr_queue_size s - ?n,
    called := called s @ [(r_id r, r_error r)]\<rparr>"
  have l: "0 < wr_active s" "?n \<le> wr_queue_size s" "r_bufs r = None \<Longrightarrow> ?n = 0"
    using Cons.prems(1) by (auto simp: writes_def ledger_def rest_of_def)
  have "writes acc (?s\<lparr>wr_completed := pq\<rparr>)"
  proof -
    obtain out p acq where "acc = map (\<lambda>x. (o_id x, o_full x)) out @ acq" and
        "ledger out p acq (s\<lparr>wr_completed := r # pq\<rparr>)"
      using Cons.prems(1) by (auto simp: writes_def)
    then show ?thesis unfolding writes_def
      by (intro exI [of _ out] exI [of _ p] exI [of _ acq]) (auto simp: ledger_def)
  qed
  from Cons.IH [OF this] Cons.prems(2) obtain s' where s': "callback_loop pq ?s = Ret s'" "writes acc s'" and
      "wr_completed s' = []" "called s' = called ?s @ map (\<lambda>r. (r_id r, r_error r)) pq" "wr_queue s' = wr_queue s"
      "wire s' = wire s" "wr_pollout s' = wr_pollout s" "wr_fed s' = wr_fed s" "wr_fd_open s' = wr_fd_open s"
      "wr_writable s' = wr_writable s" "wr_blocking s' = wr_blocking s" "wr_closing s' = wr_closing s"
      "wr_connecting s' = wr_connecting s"
    by auto
  moreover have "callback_loop (r # pq) s = callback_loop pq ?s"
    using l by (cases "r_bufs r")
      (auto simp: uv__req_unregister_def uv__write_req_size_def rest_of_def count_bufs_concat Let_def)
  ultimately show ?case by simp
qed

lemma uv__write_callbacks_keeps:
  assumes "writes acc s"
  shows "\<exists>s'. uv__write_callbacks s = Ret s' \<and> writes acc s' \<and> wr_completed s' = [] \<and>
    called s' = called s @ map (\<lambda>r. (r_id r, r_error r)) (wr_completed s) \<and> wr_queue s' = wr_queue s \<and>
    wire s' = wire s \<and> wr_pollout s' = wr_pollout s \<and> wr_fed s' = wr_fed s \<and> wr_fd_open s' = wr_fd_open s \<and>
    wr_writable s' = wr_writable s \<and> wr_blocking s' = wr_blocking s \<and> wr_closing s' = wr_closing s \<and>
    wr_connecting s' = wr_connecting s"
  using callback_loop_keeps [of acc "wr_completed s" "s\<lparr>wr_completed := []\<rparr>"] assms
  by (auto simp: uv__write_callbacks_def)

lemma writes_flush:
  assumes "writes acc s" and "e < 0"
  shows "writes acc (uv__stream_flush_write_queue s e)"
proof -
  obtain out p acq where acc: "acc = map (\<lambda>x. (o_id x, o_full x)) out @ acq" and l: "ledger out p acq s"
    using assms(1) by (auto simp: writes_def)
  have len: "list_all2 (pending_req []) acq q \<Longrightarrow>
      map (\<lambda>r. (r_id r, e)) q = map (\<lambda>a. (fst a, e)) acq \<and> (\<forall>r\<in>set q. r_bufs r \<noteq> None)" for acq q
    by (induction rule: list_all2_induct) (auto simp: pending_req_def)
  have left: "bytes_left (map (\<lambda>r. r\<lparr>r_error := e\<rparr>) q) = bytes_left q" for q
    by (induction q) (auto simp: rest_of_def split: option.split)
  define cut where "cut = (case acq of [] \<Rightarrow> [] | a # as \<Rightarrow>
    \<lparr>o_id = fst a, o_full = snd a, o_status = e, o_sent = p\<rparr> #
    map (\<lambda>a. \<lparr>o_id = fst a, o_full = snd a, o_status = e, o_sent = []\<rparr>) as)"
  have full: "map (\<lambda>x. (o_id x, o_full x)) cut = acq"
    by (cases acq) (auto simp: cut_def comp_def)
  have q: "queue_holds p acq (wr_queue s)" using l by (simp add: ledger_def)
  have ids: "map (\<lambda>x. (o_id x, o_status x)) cut = map (\<lambda>r. (r_id r, e)) (wr_queue s)"
    and bufs: "\<forall>r\<in>set (wr_queue s). r_bufs r \<noteq> None" and sent: "concat (map o_sent cut) = p"
    using q len by (cases "(p, acq, wr_queue s)" rule: queue_holds.cases;
      force simp: cut_def comp_def pending_req_def)+
  have fair: "\<forall>x\<in>set cut. fair_outcome x"
    using q assms(2) by (cases "(p, acq, wr_queue s)" rule: queue_holds.cases)
      (auto simp: cut_def fair_outcome_def pending_req_def)
  show ?thesis unfolding writes_def
    by (intro exI [of _ "out @ cut"] exI [of _ "[]"])
      (use acc l full ids bufs sent fair left assms(2) in \<open>auto simp: ledger_def uv__stream_flush_write_queue_def
         comp_def settled_req_def\<close>)
qed

lemma writes_connected:
  assumes "writes acc s" and "wr_connecting s"
  shows "\<exists>s'. uv__req_unregister (s\<lparr>wr_connecting := False\<rparr>) = Ret s' \<and> writes acc s' \<and>
    s' = s\<lparr>wr_connecting := False, wr_active := wr_active s - 1\<rparr>"
  using assms by (fastforce simp: writes_def ledger_def uv__req_unregister_def)

lemma stream_connect_writes_keeps:
  assumes w: "writes acc s" "awake s" and c: "wr_connecting s"
  shows "\<exists>s'. stream_connect_writes e s = Ret s' \<and> writes acc s' \<and> awake s'"
proof -
  obtain err s1 where e: "connect_error e s = Ret (err, s1)" and s1: "writes acc s1" "awake s1" "wr_connecting s1"
  proof (cases "wr_delayed_error s = 0")
    case True
    then show ?thesis using that w c by (auto simp: connect_error_def awake_def)
  next
    case False
    then have "connect_error e s = Ret (wr_delayed_error s, s\<lparr>wr_delayed_error := 0\<rparr>)"
      by (simp add: connect_error_def)
    moreover have "writes acc (s\<lparr>wr_delayed_error := 0\<rparr>)"
      using w(1) by (simp add: writes_def ledger_def)
    moreover have "awake (s\<lparr>wr_delayed_error := 0\<rparr>)" using w(2) by (simp add: awake_def)
    ultimately show ?thesis using that c by simp
  qed
  obtain s2 where s2: "uv__req_unregister (s1\<lparr>wr_connecting := False\<rparr>) = Ret s2" "writes acc s2"
      "s2 = s1\<lparr>wr_connecting := False, wr_active := wr_active s1 - 1\<rparr>"
    using writes_connected [OF s1(1,3)] by auto
  show ?thesis
  proof (cases "err < 0 \<and> err \<noteq> UV_EINPROGRESS")
    case True
    have "writes acc (uv__stream_flush_write_queue (s2\<lparr>wr_pollout := False\<rparr>) UV_ECANCELED)"
      by (rule writes_flush) (use s2(2) in \<open>simp_all add: UV_ECANCELED_def\<close>)
    from uv__write_callbacks_keeps [OF this] show ?thesis
      using True e s2 s1 by (auto simp: stream_connect_writes_def awake_def uv__stream_flush_write_queue_def)
  next
    case False
    then show ?thesis using e s2 s1
      by (auto simp: stream_connect_writes_def awake_def Let_def)
  qed
qed

lemma uv__stream_io_keeps:
  assumes w: "writes acc s" and fl: "awake (s\<lparr>wr_fed := True\<rparr>)"
    and c: "wr_connecting s \<Longrightarrow> awake s"
  shows "\<exists>s'. uv__stream_io iovmax e ks s = Ret s' \<and> writes acc s' \<and> awake s' \<and>
    (wr_connecting s' \<longrightarrow> wr_connecting s)"
proof (cases "wr_connecting s")
  case True
  then show ?thesis
    using stream_connect_writes_keeps [OF w c True, of e] fl by (auto simp: uv__stream_io_def awake_def)
next
  case False
  then have st: "steady s" using fl by (simp add: steady_def awake_def)
  obtain s1 where s1: "uv__write iovmax ks s = Ret s1" "writes acc s1" "steady s1" "watched s1"
    using uv__write_keeps [OF w st] by blast
  obtain s2 where "uv__write_callbacks s1 = Ret s2" "writes acc s2" "steady s2" "watched s2" "wr_completed s2 = []"
    using uv__write_callbacks_keeps [OF s1(2)] s1(3,4) by (auto simp: steady_def watched_def)
  then show ?thesis using s1 st
    by (auto simp: uv__stream_io_def uv__drain_def steady_def watched_def awake_def)
qed

text \<open>Every run of calls with at least one buffer, whatever the kernel answers.\<close>

definition has_buffers :: "write_op \<Rightarrow> bool" where
  "has_buffers op = (case op of CallWrite rid bufs ok ks \<Rightarrow> bufs \<noteq> [] | _ \<Rightarrow> True)"

lemma run_op_keeps:
  assumes "writes acc s" and "awake s" and "has_buffers op"
  shows "\<exists>s'. run_op iovmax op s = Ret s' \<and> writes (acc @ accepted_by op) s' \<and> awake s' \<and>
    (wr_connecting s' \<longrightarrow> wr_connecting s)"
proof (cases op)
  case (CallWrite rid bufs ok ks)
  then have "bufs \<noteq> []" using assms(3) by (simp add: has_buffers_def)
  from uv_write2_keeps [OF assms(1,2) this, of iovmax rid ok ks] show ?thesis
    using CallWrite by auto
next
  case (PollOut e ks)
  have "awake (s\<lparr>wr_fed := True\<rparr>)" using assms(2) by (auto simp: awake_def)
  from uv__stream_io_keeps [OF assms(1) this assms(2)] show ?thesis
    using PollOut by (simp add: accepted_by_def)
next
  case (RunPending e ks)
  show ?thesis
  proof (cases "wr_fed s")
    case True
    then have "awake (s\<lparr>wr_fed := False\<rparr>\<lparr>wr_fed := True\<rparr>)" "writes acc (s\<lparr>wr_fed := False\<rparr>)"
      "wr_connecting (s\<lparr>wr_fed := False\<rparr>) \<Longrightarrow> awake (s\<lparr>wr_fed := False\<rparr>)"
      using assms by (auto simp: awake_def)
    from uv__stream_io_keeps [OF this(2,1,3)] show ?thesis
      using RunPending True by (auto simp: accepted_by_def run_pending_def)
  next
    case False
    then show ?thesis using RunPending assms by (simp add: accepted_by_def run_pending_def)
  qed
qed

lemma run_ops_keeps:
  assumes "writes acc s" and "awake s" and "\<forall>op\<in>set ops. has_buffers op"
  shows "\<exists>s'. run_ops iovmax ops s = Ret s' \<and> writes (acc @ concat (map accepted_by ops)) s' \<and> awake s' \<and>
    (wr_connecting s' \<longrightarrow> wr_connecting s)"
  using assms
proof (induction ops arbitrary: acc s)
  case (Cons op ops)
  obtain s1 where s1: "run_op iovmax op s = Ret s1" "writes (acc @ accepted_by op) s1" "awake s1"
      "wr_connecting s1 \<longrightarrow> wr_connecting s"
    using run_op_keeps [OF Cons.prems(1,2), of op iovmax] Cons.prems(3) by auto
  then show ?case using Cons.IH [OF s1(2,3)] s1(4) Cons.prems(3) by auto
qed simp

text \<open>Closing calls back what is left.\<close>

lemma stream_destroy_writes_keeps:
  assumes w: "writes acc s" and fl: "awake s"
  shows "\<exists>s'. stream_destroy_writes (close_writes s) = Ret s' \<and> writes acc s' \<and> wr_queue s' = [] \<and>
    wr_completed s' = [] \<and> wr_queue_size s' = 0 \<and> prefix (called s) (called s') \<and> wire s' = wire s"
proof -
  let ?c = "close_writes s"
  obtain s1 where s1: "(if wr_connecting ?c
      then then_do (uv__req_unregister ?c) (\<lambda>s. Ret (s\<lparr>wr_connecting := False\<rparr>)) else Ret ?c) = Ret s1"
    "writes acc s1" "called s1 = called s" "wire s1 = wire s"
  proof (cases "wr_connecting s")
    case True
    have "writes acc (?c\<lparr>wr_active := wr_active s - 1, wr_connecting := False\<rparr>)" "0 < wr_active s"
      using writes_connected [OF w True] w True by (auto simp: close_writes_def writes_def ledger_def)
    then show ?thesis using that True by (simp add: close_writes_def uv__req_unregister_def)
  next
    case False
    moreover have "writes acc ?c" using w by (simp add: close_writes_def writes_def ledger_def)
    ultimately show ?thesis using that by (simp add: close_writes_def)
  qed
  have "writes acc (uv__stream_flush_write_queue s1 UV_ECANCELED)"
    by (rule writes_flush [OF s1(2)]) (simp add: UV_ECANCELED_def)
  from uv__write_callbacks_keeps [OF this] obtain s2 where
      s2: "uv__write_callbacks (uv__stream_flush_write_queue s1 UV_ECANCELED) = Ret s2" "writes acc s2"
      "wr_completed s2 = []" "wr_queue s2 = []" "prefix (called s) (called s2)" "wire s2 = wire s"
    using s1(3,4) by (auto simp: uv__stream_flush_write_queue_def)
  have "wr_queue_size s2 = 0" using s2(2,3,4) by (auto simp: writes_def ledger_def)
  moreover have "wr_queue_size (s2\<lparr>wr_pollout := False\<rparr>) = wr_queue_size s2" by simp
  ultimately show ?thesis using s1 s2
    by (auto simp: stream_destroy_writes_def uv__drain_def close_writes_def)
qed

section \<open>Getting done\<close>

text \<open>
  One event on a connected stream for which the kernel takes at least one byte at first, whatever it does afterwards:
  nothing waits for its callback any more, and unless the queue was empty there is less of it.
\<close>

definition on_line :: "(nat \<times> byte list) list \<Rightarrow> wstream \<Rightarrow> bool" where
  "on_line acc s \<longleftrightarrow> writes acc s \<and> awake s \<and> \<not> wr_connecting s"

lemma poll_progress:
  assumes "on_line acc s"
  shows "\<exists>s'. uv__stream_io iovmax e ks s = Ret s' \<and> on_line acc s' \<and> wr_completed s' = [] \<and>
    backlog s' \<le> backlog s \<and> (takes_some iovmax ks \<and> wr_queue s \<noteq> [] \<longrightarrow> backlog s' < backlog s) \<and>
    (wr_queue s' = [] \<longrightarrow> \<not> wr_pollout s')"
proof -
  have st: "steady s" "writes acc s" using assms by (simp_all add: on_line_def steady_def awake_def)
  obtain s1 where s1: "uv__write iovmax ks s = Ret s1" "writes acc s1" "steady s1" "watched s1"
      "backlog s1 \<le> backlog s" "takes_some iovmax ks \<and> wr_queue s \<noteq> [] \<longrightarrow> backlog s1 < backlog s"
    using uv__write_keeps [OF st(2,1)] by blast
  obtain s2 where "uv__write_callbacks s1 = Ret s2" "writes acc s2" "steady s2" "watched s2" "wr_completed s2 = []"
      "backlog s2 = backlog s1"
    using uv__write_callbacks_keeps [OF s1(2)] s1(3,4) by (auto simp: steady_def watched_def backlog_def)
  then show ?thesis using s1 st
    by (auto simp: uv__stream_io_def uv__drain_def steady_def watched_def awake_def on_line_def backlog_def)
qed

lemma backlog_zero:
  assumes "writes acc s" and "backlog s = 0"
  shows "wr_queue s = []"
proof (cases "wr_queue s")
  case (Cons r q)
  then have "0 < req_rank r"
    using assms(1) by (auto simp: writes_def ledger_def queue_holds_cons pending_req_def req_rank_def)
  then show ?thesis using Cons assms(2) by (simp add: backlog_def)
qed

lemma polls_drain:
  assumes "on_line acc s" and "polls \<noteq> []" and "backlog s \<le> length polls"
    and "\<forall>(e, ks)\<in>set polls. takes_some iovmax ks"
  shows "\<exists>s'. run_ops iovmax (map (\<lambda>(e, ks). PollOut e ks) polls) s = Ret s' \<and> on_line acc s' \<and>
    wr_queue s' = [] \<and> wr_completed s' = [] \<and> \<not> wr_pollout s'"
  using assms
proof (induction polls arbitrary: s)
  case (Cons poll polls)
  obtain e ks where p: "poll = (e, ks)" by (cases poll)
  have k: "takes_some iovmax ks" using Cons.prems(4) p by simp
  obtain s1 where s1: "uv__stream_io iovmax e ks s = Ret s1" "on_line acc s1" "wr_completed s1 = []"
      "backlog s1 \<le> backlog s" "wr_queue s \<noteq> [] \<longrightarrow> backlog s1 < backlog s" "wr_queue s1 = [] \<longrightarrow> \<not> wr_pollout s1"
    using poll_progress [OF Cons.prems(1)] k by blast
  have less: "backlog s1 \<le> length polls"
  proof (cases "wr_queue s = []")
    case True
    then have "backlog s = 0" by (simp add: backlog_def)
    then show ?thesis using s1(4) by linarith
  next
    case False
    then show ?thesis using s1(5) Cons.prems(3) by simp
  qed
  show ?case
  proof (cases "polls = []")
    case True
    then have "wr_queue s1 = []" using less s1(2) backlog_zero by (auto simp: on_line_def)
    then show ?thesis using True s1 p by simp
  next
    case False
    then show ?thesis using Cons.IH [OF s1(2) False less] Cons.prems(4) s1(1) p by simp
  qed
qed simp

text \<open>What the ledger says about the callbacks and the wire.\<close>

lemma writes_called:
  assumes "writes acc s"
  shows "prefix (map fst (called s)) (map fst acc)"
    and "wr_queue s = [] \<Longrightarrow> wr_completed s = [] \<Longrightarrow> map fst (called s) = map fst acc"
proof -
  obtain out p acq where acc: "acc = map (\<lambda>x. (o_id x, o_full x)) out @ acq" and l: "ledger out p acq s"
    using assms by (auto simp: writes_def)
  have "map fst (map (\<lambda>x. (o_id x, o_status x)) out) = map fst (called s) @ map r_id (wr_completed s)"
    using l by (auto simp: ledger_def comp_def)
  then have m: "map fst acc = map fst (called s) @ map r_id (wr_completed s) @ map fst acq"
    by (simp add: acc comp_def)
  then show "prefix (map fst (called s)) (map fst acc)" by simp
  assume e: "wr_queue s = []" "wr_completed s = []"
  then have "acq = []" using l by (cases acq) (auto simp: ledger_def)
  then show "map fst (called s) = map fst acc" using m e(2) by simp
qed

lemma writes_wire:
  assumes "writes acc s" and "\<forall>x\<in>set (called s). snd x = 0" and "\<forall>r\<in>set (wr_completed s). r_error r = 0"
  shows "\<exists>more. concat (map snd acc) = wire s @ more \<and> (\<exists>p. wire s =
    concat (map snd (take (length (called s) + length (wr_completed s)) acc)) @ p)"
proof -
  obtain out p acq where acc: "acc = map (\<lambda>x. (o_id x, o_full x)) out @ acq" and l: "ledger out p acq s"
    using assms(1) by (auto simp: writes_def)
  have st: "map (\<lambda>x. (o_id x, o_status x)) out = called s @ map (\<lambda>r. (r_id r, r_error r)) (wr_completed s)"
    using l by (simp add: ledger_def)
  have "\<forall>y\<in>set (map (\<lambda>x. (o_id x, o_status x)) out). snd y = 0"
    unfolding st using assms(2,3) by auto
  then have "\<forall>x\<in>set out. o_sent x = o_full x" using l by (auto simp: ledger_def fair_outcome_def)
  then have sent: "concat (map o_sent out) = concat (map o_full out)" by (metis map_cong)
  have len: "length out = length (called s) + length (wr_completed s)"
    using arg_cong [OF st, of length] by simp
  have "\<exists>more. concat (map snd acq) = p @ more"
    using l by (cases "(p, acq, wr_queue s)" rule: queue_holds.cases) (auto simp: ledger_def pending_req_def)
  then show ?thesis using l len by (auto simp: ledger_def sent acc comp_def)
qed

end
