(* ===== verification/Uv_Write_Props.thy ===== *)
theory Uv_Write_Props
  imports Uv_Write_Facts Wire_Facts
begin

text \<open>
  Properties of the writing side of a stream: every request is called back exactly once and in order, the queue
  drains, and frames written in pieces arrive as messages.
\<close>

definition accepted_writes :: "write_op list \<Rightarrow> (nat \<times> byte list) list" where
  "accepted_writes ops = concat (map accepted_by ops)"

lemma run_keeps:
  assumes "\<forall>op\<in>set ops. has_buffers op" and "run_ops iovmax ops (fresh_stream connecting delayed) = Ret s"
  shows "writes (accepted_writes ops) s" and "awake s"
  using run_ops_keeps [OF writes_fresh assms(1), of iovmax connecting delayed] assms(2) by (auto simp: accepted_writes_def)

section \<open>Decoding what was sent\<close>




text \<open>
  Two frames, one of them in two buffers. The kernel takes one byte, then the rest of the first frame and two bytes
  of the second, is interrupted, and takes no more for now.
\<close>

definition two_frames :: "write_op list" where
  "two_frames = [CallWrite 1 [[0, 0, 0, 2], [65, 66]] True [Wrote 1], CallWrite 2 [[0, 0, 0, 1, 67]] True [],
     PollOut 0 [Wrote 8, Wrote 2, Errno 4, Errno 11]]"

definition two_frames_state :: wstream where
  "two_frames_state = (fresh_stream False 0)
     \<lparr>wr_queue := [\<lparr>r_id = 2, r_bufs = Some [[0, 1, 67]], r_index = 0, r_error = 0\<rparr>], wr_queue_size := 3,
      wr_active := 1, wr_pollout := True, wr_fed := True, called := [(1, 0)],
      wire := [0, 0, 0, 2, 65, 66, 0, 0]\<rparr>"

lemma two_frames_run: "run_ops 16 two_frames (fresh_stream False 0) = Ret two_frames_state"
  by code_simp

lemma two_frames_simps:
  "accepted_writes two_frames = [(1, [0, 0, 0, 2, 65, 66]), (2, [0, 0, 0, 1, 67])]"
  "\<forall>op\<in>set two_frames. has_buffers op"
  "called two_frames_state = [(1, 0)]" "wr_completed two_frames_state = []" "backlog two_frames_state = 4"
  "wire two_frames_state = [0, 0, 0, 2, 65, 66, 0, 0]"
  by (simp_all add: two_frames_def two_frames_state_def fresh_stream_def accepted_writes_def accepted_by_def
      has_buffers_def backlog_def req_rank_def rest_of_def)

section \<open>Properties\<close>

text \<open>
  C11. However the kernel takes or refuses the bytes of a stream, whatever the order of \<open>uv_write\<close> calls, polls,
  pending callbacks and the end of the connection, nothing faults; at any time the callbacks that ran are those of
  the first requests accepted, once each and in the order of the calls; a stream with requests to write is watched
  for \<open>POLLOUT\<close> or fed, and one with callbacks due is fed, so no wake-up is lost; and closing the stream calls
  back the remaining requests, again in order, and leaves \<open>write_queue_size\<close> zero, as
  \<open>uv__stream_destroy\<close> asserts.
\<close>

theorem write_callbacks_once:
  assumes "\<forall>op\<in>set ops. has_buffers op"
  shows "\<exists>s s'. run_ops iovmax ops (fresh_stream connecting delayed) = Ret s \<and>
    prefix (map fst (called s)) (map fst (accepted_writes ops)) \<and>
    (wr_queue s \<noteq> [] \<longrightarrow> wr_pollout s \<or> wr_fed s) \<and> (wr_completed s \<noteq> [] \<longrightarrow> wr_fed s) \<and>
    stream_destroy_writes (close_writes s) = Ret s' \<and>
    prefix (called s) (called s') \<and> map fst (called s') = map fst (accepted_writes ops) \<and> wr_queue_size s' = 0"
proof -
  obtain s where s: "run_ops iovmax ops (fresh_stream connecting delayed) = Ret s" "writes (accepted_writes ops) s" "awake s"
    using run_ops_keeps [OF writes_fresh assms, of iovmax connecting delayed] by (auto simp: accepted_writes_def)
  show ?thesis
    using stream_destroy_writes_keeps [OF s(2,3)] s writes_called by (fastforce simp: awake_def)
qed

theorem write_callbacks_once_witness:
  "\<exists>s'. stream_destroy_writes (close_writes two_frames_state) = Ret s' \<and> map fst (called s') = [1, 2] \<and>
     prefix [(1, 0)] (called s') \<and> wr_queue_size s' = 0"
  using write_callbacks_once [of two_frames 16 False 0] two_frames_run two_frames_simps by auto

text \<open>
  C13. On a connected stream, whatever happened before, the queue of requests drains: once there were as many events as
  there are bytes and buffers left, in each of which the kernel takes at least one byte before it does anything
  else, failures included, every request is called back, nothing is left to write, and the loop
  watches for \<open>POLLOUT\<close> no more.
\<close>

theorem write_queue_drains:
  assumes "\<forall>op\<in>set ops. has_buffers op" and "run_ops iovmax ops (fresh_stream False 0) = Ret s"
    and "polls \<noteq> []" and "backlog s \<le> length polls" and "\<forall>(e, ks)\<in>set polls. takes_some iovmax ks"
  shows "\<exists>s'. run_ops iovmax (map (\<lambda>(e, ks). PollOut e ks) polls) s = Ret s' \<and> wr_queue s' = [] \<and>
    map fst (called s') = map fst (accepted_writes ops) \<and> wr_queue_size s' = 0 \<and> \<not> wr_pollout s'"
proof -
  have "\<not> wr_connecting s"
    using run_ops_keeps [OF writes_fresh assms(1), of iovmax False 0] assms(2) by (auto simp: fresh_stream_def)
  then have "on_line (accepted_writes ops) s" using run_keeps [OF assms(1,2)] by (simp add: on_line_def)
  from polls_drain [OF this assms(3-5)] obtain s' where
      s': "run_ops iovmax (map (\<lambda>(e, ks). PollOut e ks) polls) s = Ret s'" "writes (accepted_writes ops) s'"
      "wr_queue s' = []" "wr_completed s' = []" "\<not> wr_pollout s'"
    by (auto simp: on_line_def)
  then have "wr_queue_size s' = 0" by (auto simp: writes_def ledger_def)
  then show ?thesis using s' writes_called(2) [OF s'(2)] by blast
qed

theorem write_queue_drains_witness:
  "\<exists>s'. run_ops 16 (map (\<lambda>(e, ks). PollOut e ks) (replicate 4 (0, [Wrote 1]))) two_frames_state = Ret s' \<and>
     wr_queue s' = [] \<and> map fst (called s') = [1, 2] \<and> wr_queue_size s' = 0 \<and> \<not> wr_pollout s'"
  using write_queue_drains [OF two_frames_simps(2) two_frames_run, of "replicate 4 (0, [Wrote 1])"] two_frames_simps
  by (auto simp: takes_some_def)



end
