(* ===== verification/Spec2Isabelle.thy ===== *)
theory Spec2Isabelle
  imports Server_Props Uv_Props Logger_Props Client_Log_Facts Client_Props Uv_Inet Bson_Props Bson_Validate_Props
    Server_Main_Props Stress_Props Uv_Write_Props
begin

text \<open>
  GearEngine: a TCP server (\<open>ge/src\<close>) on libuv whose behaviour is a Lua script, a terminal client
  (\<open>ge/client\<close>) and a stress client (\<open>benchmark\<close>). Both programs are single-threaded event loops with
  one writer thread for the log. This development models the C code of the programs and the part
  of libuv and libbson they rest on; it is organised as the code is.

  \<^bold>\<open>How the parts interact.\<close> \<open>main\<close> sets the server up and runs the loop. The loop accepts connections
  (\<open>on_new_connection\<close>), reads (\<open>alloc_buffer\<close>, \<open>on_read\<close>), completes writes (\<open>on_write_done\<close>), runs timers
  (\<open>on_idle_timeout\<close>) and finishes closed handles (\<open>on_client_close\<close>). These handlers share the client
  array of \<open>server_context_t\<close>, the clients, and the handles of libuv inside them, and they call
  the script, which calls back through the \<open>gear\<close> functions and so may close clients in the middle of a
  handler. A log call hands its line to the writer thread through a bounded queue.

  \<^bold>\<open>Conventions.\<close> A C function is a function on an explicit state with result type \<open>res\<close>: a value, or a
  \<open>fault\<close> where the process would abort (failed \<open>assert\<close>) or the behaviour is undefined (freed
  memory, null pointer, out of bounds). Memory is a map from addresses to structures, \<open>None\<close>
  after \<open>free\<close>; handles embedded in a structure are separate entries that are freed with it. What the
  program cannot decide itself (system calls, allocations, the order of events, the Lua script) is
  an input. A script is an arbitrary tree of calls (\<open>lua_act\<close>), so what is proved holds for
  every script that meets the stated conditions.

  \<^bold>\<open>Theories.\<close>
  \<^item> \<open>Gear_Prelude\<close>: machine types, \<open>res\<close> and its sequencing, the locale \<open>countdown\<close> for
    processes that settle in a bounded number of steps, the locale \<open>cursor\<close> for loops over an iterator.
  \<^item> \<open>Uv_Heap\<close> (\<open>libuv/src/heap-inl.h\<close>): the timer heap by its level order, the locales \<open>heap_order\<close> and \<open>min_queue\<close>
    with the refinement of multisets. \<open>Uv_Loop\<close> (\<open>uv-common.h\<close>, \<open>timer.c\<close>, \<open>unix/core.c\<close>, \<open>unix/stream.c\<close>,
    \<open>unix/tcp.c\<close>): handles with their flags, timers, streams, closing. \<open>Uv_Run\<close>: accepting, the read loop,
    completed writes, the order of the phases of \<open>uv_run\<close>. \<open>Uv_Timer_Facts\<close>: the invariant \<open>timers_ok\<close> and what
    each operation does to it. \<open>Uv_Props\<close>: the properties of timers and closing. \<open>Uv_Inet\<close>
    (\<open>inet.c\<close>, \<open>uv_ip4_addr\<close>): addresses from text and back.
  \<^item> \<open>Uv_Write\<close> (\<open>unix/stream.c\<close>): how one stream writes when the kernel takes the bytes in pieces -- requests of several
    buffers, the queue, the callbacks due, connecting, destroying. \<open>Uv_Write_Facts\<close>: its invariant, a ledger of what
    became of each request. \<open>Uv_Write_Props\<close>: the properties, with the frames of \<open>Wire\<close>.
  \<^item> \<open>Wire\<close>, \<open>Wire_Facts\<close>: the framing of \<open>on_read\<close> and \<open>send_buffer\<close>, an abstract decoder of the byte stream,
    and the proof that the receive loop computes it.
  \<^item> \<open>Server_State\<close> (\<open>server.h\<close>, \<open>lua_bindings.c\<close>): state, scripts, \<open>gear\<close> functions. \<open>Server\<close> (\<open>server.c\<close>): the
    handlers, start and stop, and the server as a transition system. \<open>Server_Registry\<close>: the client array as an
    indexed set (locale \<open>indexed_set\<close>). \<open>Server_Inv\<close>: the invariant. \<open>Server_Lua\<close>, \<open>Server_Read\<close>,
    \<open>Server_Events\<close>, \<open>Server_Accept\<close>, \<open>Server_Timers\<close>, \<open>Server_Close\<close>: one group of lemmas per kind of event.
    \<open>Server_Demo\<close>: concrete states and scripts. \<open>Server_Props\<close>: the properties.
  \<^item> \<open>C_Text\<close>, \<open>Logger\<close> (\<open>logger.c\<close>), \<open>Logger_Facts\<close>, \<open>Logger_Props\<close>: the logger as a transition system of callers
    and writer between critical sections, with its text formatting. \<open>Client_Log\<close>, \<open>Client_Log_Facts\<close>: the
    client's own logger, whose callers wait.
  \<^item> \<open>Client\<close> (\<open>client.c\<close>, \<open>client_lua_bindings.c\<close>, \<open>client_main.c\<close>), \<open>Client_Facts\<close>, \<open>Client_Run\<close>, \<open>Client_Props\<close>:
    the client program from \<open>main\<close> to its end.
  \<^item> \<open>Bson\<close> (\<open>bson_handler.c\<close>, \<open>libbson\<close>), \<open>Bson_Facts\<close>, \<open>Bson_Props\<close>: tables to documents and documents to
    buffers.
  \<^item> \<open>Bson_Iter\<close> (\<open>libbson/src/bson/bson-iter.c\<close>): the iterator over the bytes of a document on 32-bit offsets, and
    a reference parser on natural numbers. \<open>Bson_Iter_Facts\<close>, \<open>Bson_Iter_Props\<close>: they agree on all inputs.
  \<^item> \<open>Config\<close> (\<open>lua_bindings.c\<close>): the configuration from the file to the Lua table \<open>gear\<close> and the log queue,
    with the accessors of the iterator. \<open>Config_Facts\<close>: abstract documents (\<open>bval\<close>), their bytes and their
    Lua values. \<open>Config_Props\<close>: what reaches the script; tables to documents and back.
  \<^item> \<open>Utf8\<close> (\<open>bson-utf8.c\<close>): reading, writing and checking UTF-8. \<open>Bson_Validate\<close> (\<open>validate.c\<close>,
    \<open>bson_from_buffer\<close>): the validator of documents on the iterator; its calls for subdocuments are an argument of
    the functions on elements. \<open>Bson_Validate_Facts\<close>: validity by a reference parser, the state of the iterator
    after a step, and the verdict of each function. \<open>Bson_Validate_Props\<close>: the properties.
  \<^item> \<open>Server_Main\<close> (\<open>server_init\<close>, \<open>server_cleanup\<close>, \<open>main.c\<close>), \<open>Server_Main_Props\<close>: from the command line to
    the initial state of the server's transition system.
  \<^item> \<open>Stress\<close> (\<open>benchmark/stress_client.c\<close>), \<open>Stress_Props\<close>: the stress client on the same loop, and its lines
    as the server reads them.
  \<^bold>\<open>What the lemmas show.\<close> The server invariant (\<open>server_inv\<close>: heap order, array and clients, handle flags and
  chain, write queue, receive buffers) is kept by every event but the close callback of a client; the
  receive loop implements the abstract decoder; two defects end the process (the close callback frees
  a timer that is still on the chain; a stop after an idle timeout closes a handle twice), and the
  theorems say exactly when. The client is safe under stated conditions, and each condition is
  necessary: three theorems exhibit the fault without it. The logger writes a prefix of the accepted lines in
  every interleaving. The BSON iterator computes the reference parser on any bytes, so it never leaves them, and
  the validator on it decides validity as the reference does, whatever the bytes and flags; a
  table that goes through a document comes back unchanged, and a configuration reaches script and logger as it
  was written, up to the depth the Lua stack allows. The stress client shares the server's defect at the
  end of a connection, and its lines are no frames. A stream calls back every write once and in order and
  loses no wake-up, whatever the kernel answers, and what it has sent decodes to the first of the
  messages written.

  \<^bold>\<open>Bounds and fuel.\<close> The loops over timers get one more round than there are timers, which
  \<open>due_timers_leave_in_order\<close> shows to be enough; the poll reads at most 32 times, as libuv does; the
  recursion over Lua tables gets fuel bounded by \<open>entries_fuel\<close>, the number of entries; a loop over the elements
  of a document gets its length in bytes (\<open>iterator_is_reference\<close>) and the recursion into documents their
  depth (\<open>fields_depth\<close>), both shown to be enough; the validator recurses to its own limit of 500;
  the waiting of the client's log calls is a \<open>partial_function\<close> shown to return; the loop of \<open>uv__write\<close> recurses on the
  answers of the kernel. Handle
  counters and file descriptors are unbounded; sizes below 2 to the 31 are natural numbers where
  the code cannot reach the limit, and words where it can.

  \<^bold>\<open>Not modelled.\<close> The Lua interpreter and the MongoDB driver (third-party, the latter not called at
  all); the polling, signal, process, file and DNS parts of libuv; JSON parsing in
  libbson; the output of progress messages; asynchronous signals inside a handler (the
  stop is an event between handlers, which is the benign case); build scripts and the Lua examples.
\<close>

section \<open>Reading and framing\<close>

text \<open>
  C2. A poll of a connected client hands the Lua callback \<open>on_client_data\<close> exactly the messages that
  the abstract decoder finds in the bytes buffered for the client followed by the bytes the
  kernel returned, in order, however the kernel cuts them; an incomplete message stays in the
  receive buffer, and a bad length ends the connection after the messages before it. Hypotheses:
  the script has the callback, uses live clients only and closes none of them, and allocations
  succeed.
\<close>

theorem poll_delivers_decoded_messages:
  assumes "server_inv w" and "client_mem w a = Some c" and "is_valid c"
    and "enabled (Readable a ks) w" and "scripts_ok True w" and "mallocs w = []"
    and "\<forall>k \<in> set ks. \<exists>bs. k = KernelData bs \<and> bs \<noteq> []" and "length ks \<le> 32"
  shows "\<exists>w'. handle_event (Readable a ks) w = Ret w' \<and> server_inv w' \<and>
    delivers a (pending c @ consumed ks) w w'"
proof -
  obtain x where "handles (uv w) (ClientHandle a) = Some x" and "f_reading x"
    using assms(4) by (auto split: option.splits)
  then show ?thesis
    using server_read_delivers [OF assms(1-3,5) _ _ assms(6,7), of x] assms(8)
    by (auto simp: handle_event_def)
qed

theorem poll_delivers_decoded_messages_witness:
  "\<exists>w'. handle_event (Readable 7 [KernelData [0, 0, 0, 1, 65, 0]]) (demo_server echo_script ()) = Ret w' \<and>
     server_inv w' \<and> delivered 7 (trace w') = [[65]]"
proof -
  have d: "decode [0, 0, 0, 1, 65, 0] = ([[65]], Incomplete [0])"
    by (simp add: decode.simps be_value_def)
  show ?thesis
    using poll_delivers_decoded_messages [of "demo_server echo_script ()" 7 demo_client
        "[KernelData [0, 0, 0, 1, 65, 0]]"] demo_inv [of echo_script "()"] echo_script_ok d
    by (auto simp: scripts_ok_def delivers_def delivered_def)
qed

section \<open>The two ends of a connection\<close>

text \<open>
  C18. Frames between hosts: what \<open>send_buffer\<close> writes for a payload of 1 to 4092 bytes on a big-endian host,
  the receiver takes apart into this payload and the rest of the stream. What it writes on a
  little-endian host, as all common ones are, every receiver refuses as a bad length, because the
  length is sent in host byte order and read in network byte order.
\<close>

theorem frames_need_big_endian_sender:
  assumes "0 < length data" and "length data \<le> 4092"
  shows "decode (frame_bytes False data @ rest) = (data # fst (decode rest), snd (decode rest)) \<and>
    (\<exists>k. decode (frame_bytes True data @ rest) = ([], BadLength k))"
  using decode_frame_be [OF assms] decode_frame_le [OF assms] by blast

theorem frames_need_big_endian_sender_witness:
  "decode (frame_bytes False [65, 66]) = ([[65, 66]], Incomplete [])"
proof -
  have "decode [] = ([], Incomplete [])" by (simp add: decode.simps)
  then show ?thesis using frames_need_big_endian_sender [of "[65, 66]" "[]"] by simp
qed



end
